(* ===== verification/Go_Strings.thy ===== *)
theory Go_Strings
  imports Main "HOL-Library.Word" "HOL-Library.Sublist"
begin

text \<open>
  The part of Go's packages \<^verbatim>\<open>strings\<close>, \<^verbatim>\<open>strconv\<close> and \<^verbatim>\<open>fmt\<close> that the agent uses.
  A Go \<^verbatim>\<open>string\<close> and a Go \<^verbatim>\<open>[]byte\<close> are both byte sequences, modelled as \<^typ>\<open>string\<close>
  (a HOL \<^typ>\<open>char\<close> is one byte).  Go's \<^verbatim>\<open>int\<close> is \<^typ>\<open>int\<close>; conversions that check or cut
  its 64-bit (or 32-bit) range say so.  The separators and search strings of the source are
  never empty, which is the only case of \<open>Split\<close> and \<open>Replace\<close> modelled here.

  The collections \<open>go_string\<close> and \<open>go_num\<close> gather the rewrite rules that the component
  theories add to the simplifier.
\<close>

named_theorems go_string "rewrite rules for Go string operations"
named_theorems go_num "rewrite rules for decimal and hexadecimal text"

section \<open>Package strings\<close>

definition HasPrefix :: "string \<Rightarrow> string \<Rightarrow> bool" where
  "HasPrefix s p = (take (length p) s = p)"

definition HasSuffix :: "string \<Rightarrow> string \<Rightarrow> bool" where
  "HasSuffix s p = (length p \<le> length s \<and> drop (length s - length p) s = p)"

definition TrimSuffix :: "string \<Rightarrow> string \<Rightarrow> string" where
  "TrimSuffix s p = (if HasSuffix s p then take (length s - length p) s else s)"

definition Repeat :: "string \<Rightarrow> nat \<Rightarrow> string" where
  "Repeat s n = concat (replicate n s)"

fun str_index :: "string \<Rightarrow> string \<Rightarrow> nat option" where
  "str_index [] sub = (if sub = [] then Some 0 else None)"
| "str_index (c # cs) sub =
     (if HasPrefix (c # cs) sub then Some 0 else map_option Suc (str_index cs sub))"

definition Index :: "string \<Rightarrow> string \<Rightarrow> int" where
  "Index s sub = (case str_index s sub of None \<Rightarrow> -1 | Some i \<Rightarrow> int i)"

definition Contains :: "string \<Rightarrow> string \<Rightarrow> bool" where
  "Contains s sub = (0 \<le> Index s sub)"

lemma HasPrefix_Nil [simp]: "HasPrefix s []"
  by (simp add: HasPrefix_def)

lemma HasPrefix_append [simp]: "HasPrefix (p @ s) p"
  by (simp add: HasPrefix_def)

lemma HasPrefix_iff: "HasPrefix s p \<longleftrightarrow> (\<exists>t. s = p @ t)"
  unfolding HasPrefix_def by (metis append_eq_conv_conj append_take_drop_id)

lemma HasPrefix_single: "HasPrefix s [c] \<longleftrightarrow> (\<exists>t. s = c # t)"
  by (auto simp: HasPrefix_iff)

lemma str_index_split:
  "str_index s sub = Some i \<Longrightarrow> s = take i s @ sub @ drop (i + length sub) s"
proof (induction s sub arbitrary: i rule: str_index.induct)
  case (1 sub)
  then show ?case by (simp split: if_splits)
next
  case (2 c cs sub)
  show ?case
  proof (cases "HasPrefix (c # cs) sub")
    case True
    with "2.prems" show ?thesis
      by (auto simp: HasPrefix_iff)
  next
    case False
    with "2.prems" obtain j where j: "str_index cs sub = Some j" and i: "i = Suc j"
      by auto
    from "2.IH"[OF False j] have "cs = take j cs @ sub @ drop (j + length sub) cs" .
    then show ?thesis unfolding i by simp
  qed
qed

lemma str_index_bound: "str_index s sub = Some i \<Longrightarrow> i + length sub \<le> length s"
proof (induction s sub arbitrary: i rule: str_index.induct)
  case (1 sub)
  then show ?case by (simp split: if_splits)
next
  case (2 c cs sub)
  show ?case
  proof (cases "HasPrefix (c # cs) sub")
    case True
    then obtain t where "c # cs = sub @ t" by (auto simp: HasPrefix_iff)
    then have "length sub \<le> length (c # cs)" by simp
    with "2.prems" True show ?thesis by simp
  next
    case False
    with "2.prems" "2.IH"[OF False] show ?thesis by auto
  qed
qed

lemma str_index_first:
  "str_index s sub = Some i \<Longrightarrow> j < i \<Longrightarrow> \<not> HasPrefix (drop j s) sub"
proof (induction s sub arbitrary: i j rule: str_index.induct)
  case (1 sub)
  then show ?case by (simp split: if_splits)
next
  case (2 c cs sub)
  show ?case
  proof (cases "HasPrefix (c # cs) sub")
    case True
    with "2.prems" show ?thesis by simp
  next
    case False
    with "2.prems" obtain k where k: "str_index cs sub = Some k" and i: "i = Suc k" by auto
    show ?thesis
    proof (cases j)
      case 0
      with False show ?thesis by simp
    next
      case (Suc l)
      with "2.prems"(2) i have "l < k" by simp
      from "2.IH"[OF False k this] Suc show ?thesis by simp
    qed
  qed
qed

lemma str_index_None: "str_index s sub = None \<Longrightarrow> j \<le> length s \<Longrightarrow> \<not> HasPrefix (drop j s) sub"
proof (induction s sub arbitrary: j rule: str_index.induct)
  case (1 sub)
  then show ?case by (auto simp: HasPrefix_def split: if_splits)
next
  case (2 c cs sub)
  then show ?case by (cases j) (auto split: if_splits)
qed

lemma str_index_append_hit:
  "\<exists>i. str_index (xs @ sub @ ys) sub = Some i"
proof (rule ccontr)
  assume "\<nexists>i. str_index (xs @ sub @ ys) sub = Some i"
  then have "str_index (xs @ sub @ ys) sub = None" by (cases "str_index (xs @ sub @ ys) sub") auto
  from str_index_None[OF this, of "length xs"] show False by simp
qed

lemma Contains_iff: "Contains s sub \<longleftrightarrow> (\<exists>xs ys. s = xs @ sub @ ys)"
proof
  assume "Contains s sub"
  then obtain i where "str_index s sub = Some i"
    by (auto simp: Contains_def Index_def split: option.splits)
  from str_index_split[OF this] show "\<exists>xs ys. s = xs @ sub @ ys" by blast
next
  assume "\<exists>xs ys. s = xs @ sub @ ys"
  then obtain xs ys where s: "s = xs @ sub @ ys" by blast
  obtain i where "str_index s sub = Some i" using str_index_append_hit s by blast
  then show "Contains s sub" by (simp add: Contains_def Index_def)
qed

lemma Index_neg_iff: "Index s sub = -1 \<longleftrightarrow> \<not> Contains s sub"
  by (auto simp: Contains_def Index_def split: option.splits)

lemma str_index_char_None: "str_index s [c] = None \<longleftrightarrow> c \<notin> set s"
  by (induction s) (auto simp: HasPrefix_def)

lemma Contains_char: "Contains s [c] \<longleftrightarrow> c \<in> set s"
  using str_index_char_None[of s c]
  by (auto simp: Contains_def Index_def split: option.splits)

function Split :: "string \<Rightarrow> string \<Rightarrow> string list" where
  "Split s sep =
     (case str_index s sep of
        None \<Rightarrow> [s]
      | Some i \<Rightarrow> if sep = [] then [s] else take i s # Split (drop (i + length sep) s) sep)"
  by pat_completeness auto
termination
proof (relation "measure (\<lambda>(s, sep). length s)", goal_cases)
  case (2 s sep i)
  then have "i + length sep \<le> length s" by (auto dest: str_index_bound)
  moreover from 2 have "0 < length sep" by simp
  ultimately have "length s - (i + length sep) < length s" by linarith
  then show ?case by simp
qed simp

declare Split.simps [simp del]

fun Join :: "string list \<Rightarrow> string \<Rightarrow> string" where
  "Join [] sep = []"
| "Join [a] sep = a"
| "Join (a # b # rest) sep = a @ sep @ Join (b # rest) sep"

definition SplitN2 :: "string \<Rightarrow> string \<Rightarrow> string list" where
  "SplitN2 s sep =
     (case str_index s sep of
        None \<Rightarrow> [s]
      | Some i \<Rightarrow> [take i s, drop (i + length sep) s])"

function Replace :: "string \<Rightarrow> string \<Rightarrow> string \<Rightarrow> int \<Rightarrow> string" where
  "Replace s old new n =
     (if n = 0 \<or> old = [] then s
      else case str_index s old of
             None \<Rightarrow> s
           | Some i \<Rightarrow> take i s @ new @ Replace (drop (i + length old) s) old new (n - 1))"
  by pat_completeness auto
termination
proof (relation "measure (\<lambda>(s, old, new, n). length s)", goal_cases)
  case (2 s old new n i)
  then have "i + length old \<le> length s" by (auto dest: str_index_bound)
  moreover from 2 have "0 < length old" by simp
  ultimately have "length s - (i + length old) < length s" by linarith
  then show ?case by simp
qed simp

declare Replace.simps [simp del]

lemma Split_not_Nil [simp]: "Split s sep \<noteq> []"
  by (subst Split.simps) (simp split: option.splits)

lemma Join_Cons: "xs \<noteq> [] \<Longrightarrow> Join (a # xs) sep = a @ sep @ Join xs sep"
  by (cases xs) auto

lemma Join_append:
  "xs \<noteq> [] \<Longrightarrow> ys \<noteq> [] \<Longrightarrow> Join (xs @ ys) sep = Join xs sep @ sep @ Join ys sep"
  by (induction xs rule: induct_list012) (auto simp: Join_Cons)

lemma Join_Split [go_string]: "Join (Split s sep) sep = s"
proof (induction s sep rule: Split.induct)
  case (1 s sep)
  show ?case
  proof (cases "str_index s sep")
    case None
    then show ?thesis by (simp add: Split.simps[of s sep])
  next
    case (Some i)
    show ?thesis
    proof (cases "sep = []")
      case True
      with Some show ?thesis by (simp add: Split.simps[of s "[]"])
    next
      case False
      with Some "1.IH" have "Join (Split (drop (i + length sep) s) sep) sep = drop (i + length sep) s"
        by simp
      with Some False str_index_split[OF Some] show ?thesis
        by (simp add: Split.simps[of s sep] Join_Cons)
    qed
  qed
qed

lemma Split_no_sep: "c \<notin> set s \<Longrightarrow> Split s [c] = [s]"
  using str_index_char_None[of s c] by (subst Split.simps) simp

lemma str_index_char_append:
  "c \<notin> set a \<Longrightarrow> str_index (a @ c # s) [c] = Some (length a)"
  by (induction a) (auto simp: HasPrefix_def)

lemma Split_Cons_sep: "c \<notin> set a \<Longrightarrow> Split (a @ c # s) [c] = a # Split s [c]"
  by (subst Split.simps) (simp add: str_index_char_append)

lemma Split_Join:
  "xs \<noteq> [] \<Longrightarrow> (\<forall>x\<in>set xs. c \<notin> set x) \<Longrightarrow> Split (Join xs [c]) [c] = xs"
  by (induction xs rule: induct_list012) (auto simp: Split_no_sep Split_Cons_sep)

lemma Split_pieces_no_sep: "x \<in> set (Split s [c]) \<Longrightarrow> c \<notin> set x"
proof (induction s "[c]" rule: Split.induct)
  case (1 s)
  show ?case
  proof (cases "str_index s [c]")
    case None
    with "1.prems" show ?thesis by (simp add: Split.simps[of s "[c]"] str_index_char_None)
  next
    case (Some i)
    have "c \<notin> set (take i s)"
    proof
      assume "c \<in> set (take i s)"
      then obtain j where "j < i" "j < length s" "s ! j = c"
        by (auto simp: in_set_conv_nth)
      then have "HasPrefix (drop j s) [c]"
        by (simp add: HasPrefix_single Cons_nth_drop_Suc[symmetric])
      with str_index_first[OF Some \<open>j < i\<close>] show False by blast
    qed
    with "1.prems" "1.hyps" Some show ?thesis
      by (auto simp: Split.simps[of s "[c]"])
  qed
qed

lemma Replace_absent: "\<not> Contains s old \<Longrightarrow> Replace s old new n = s"
  by (subst Replace.simps) (auto simp: Contains_def Index_def split: option.splits)

end
