(* ===== verification/Go_Encoding.thy ===== *)
theory Go_Encoding
  imports Go_Strings
begin

text \<open>
  Textual and binary encodings of Go's standard library: decimal (\<^verbatim>\<open>strconv\<close>, \<^verbatim>\<open>%d\<close>),
  hexadecimal (\<^verbatim>\<open>encoding/hex\<close>, \<^verbatim>\<open>%x\<close>), little-endian 32-bit fields (\<^verbatim>\<open>encoding/binary\<close>),
  Adler-32 (\<^verbatim>\<open>hash/adler32\<close>) and padded base64 (\<^verbatim>\<open>encoding/base64\<close>, \<^verbatim>\<open>StdEncoding\<close>),
  each with the round trip its clients rely on.  A locale states what the clients need of a
  pair of encoder and decoder; each encoding is one interpretation of it.
\<close>

section \<open>The contract of a codec\<close>

locale codec =
  fixes enc :: "'a \<Rightarrow> string"
    and dec :: "string \<Rightarrow> 'a option"
    and dom_ok :: "'a \<Rightarrow> bool"
  assumes dec_enc: "dom_ok x \<Longrightarrow> dec (enc x) = Some x"
begin

lemma enc_inj: "dom_ok x \<Longrightarrow> dom_ok y \<Longrightarrow> enc x = enc y \<Longrightarrow> x = y"
  using dec_enc by (metis option.inject)

lemma dec_enc_eq_Some: "dom_ok x \<Longrightarrow> dec (enc x) = Some y \<longleftrightarrow> y = x"
  using dec_enc by auto

end

section \<open>Decimal numbers\<close>

definition byte_of :: "char \<Rightarrow> nat" where
  "byte_of c = of_char c"

lemma byte_of_less [simp]: "byte_of c < 256"
  using of_char_mod_256 [of c, where ?'a = nat] mod_less_divisor [of 256 "of_char c :: nat"]
  by (simp add: byte_of_def)

lemma char_of_byte_of [simp]: "char_of (byte_of c) = c"
  by (simp add: byte_of_def)

lemma byte_of_char_of [simp]: "byte_of (char_of (n::nat)) = n mod 256"
  by (simp add: byte_of_def)

lemma byte_of_eq_iff: "byte_of c = byte_of d \<longleftrightarrow> c = d"
  by (metis char_of_byte_of)

definition digit_char :: "nat \<Rightarrow> char" where
  "digit_char d = char_of (48 + d)"

definition digit_val :: "char \<Rightarrow> nat option" where
  "digit_val c = (let k = byte_of c in if 48 \<le> k \<and> k \<le> 57 then Some (k - 48) else None)"

lemma digit_val_digit_char [simp]: "d < 10 \<Longrightarrow> digit_val (digit_char d) = Some d"
  by (simp add: digit_val_def digit_char_def Let_def)

fun nat_str :: "nat \<Rightarrow> string" where
  "nat_str n = (if n < 10 then [digit_char n] else nat_str (n div 10) @ [digit_char (n mod 10)])"

declare nat_str.simps [simp del]

definition Itoa :: "int \<Rightarrow> string" where
  "Itoa i = (if i < 0 then CHR ''-'' # nat_str (nat (- i)) else nat_str (nat i))"

definition pad0 :: "nat \<Rightarrow> string \<Rightarrow> string" where
  "pad0 w s = replicate (w - length s) (CHR ''0'') @ s"

fun uint_acc :: "nat \<Rightarrow> nat \<Rightarrow> string \<Rightarrow> nat option" where
  "uint_acc b a [] = Some a"
| "uint_acc b a (c # cs) =
     (case digit_val c of
        Some d \<Rightarrow> if d < b then uint_acc b (a * b + d) cs else None
      | None \<Rightarrow> None)"

definition in_int64 :: "int \<Rightarrow> bool" where
  "in_int64 i = (- (2 ^ 63) \<le> i \<and> i < 2 ^ 63)"

definition ParseInt :: "nat \<Rightarrow> string \<Rightarrow> int option" where
  "ParseInt b s =
     (let (neg, ds) = (case s of
            [] \<Rightarrow> (False, [])
          | c # cs \<Rightarrow> if c = CHR ''-'' then (True, cs) else if c = CHR ''+'' then (False, cs) else (False, c # cs))
      in if ds = [] then None
         else case uint_acc b 0 ds of
                None \<Rightarrow> None
              | Some v \<Rightarrow> (let i = (if neg then - int v else int v)
                          in if in_int64 i then Some i else None))"

definition Atoi :: "string \<Rightarrow> int option" where
  "Atoi s = ParseInt 10 s"

definition is_digit :: "char \<Rightarrow> bool" where
  "is_digit c = (48 \<le> byte_of c \<and> byte_of c \<le> 57)"

lemma is_digit_digit_char [simp]: "d < 10 \<Longrightarrow> is_digit (digit_char d)"
  by (simp add: is_digit_def digit_char_def)

lemma nat_str_not_Nil [simp]: "nat_str n \<noteq> []"
  by (subst nat_str.simps) simp

lemma nat_str_digits: "c \<in> set (nat_str n) \<Longrightarrow> is_digit c"
proof (induction n rule: nat_str.induct)
  case (1 n)
  then show ?case by (subst (asm) nat_str.simps) (auto split: if_splits)
qed

lemma uint_acc_append:
  "uint_acc b a (xs @ ys) = (case uint_acc b a xs of None \<Rightarrow> None | Some v \<Rightarrow> uint_acc b v ys)"
  by (induction xs arbitrary: a) (auto split: option.splits)

lemma uint_acc_nat_str: "uint_acc 10 0 (nat_str n) = Some n"
proof (induction n rule: nat_str.induct)
  case (1 n)
  show ?case
  proof (cases "n < 10")
    case True
    then show ?thesis by (simp add: nat_str.simps[of n])
  next
    case False
    with 1 show ?thesis
      by (simp add: nat_str.simps[of n] uint_acc_append mult.commute)
  qed
qed

lemma nat_str_hd: "is_digit (hd (nat_str n))"
  by (rule nat_str_digits[of _ n]) simp

lemma minus_not_digit [simp]: "\<not> is_digit (CHR ''-'')" "\<not> is_digit (CHR ''+'')"
  by (simp_all add: is_digit_def byte_of_def)

lemma Atoi_Itoa [go_num]: "in_int64 i \<Longrightarrow> Atoi (Itoa i) = Some i"
proof (cases "i < 0")
  case True
  then show "in_int64 i \<Longrightarrow> Atoi (Itoa i) = Some i"
    by (simp add: Atoi_def ParseInt_def Itoa_def uint_acc_nat_str)
next
  case False
  obtain c cs where ns: "nat_str (nat i) = c # cs" by (cases "nat_str (nat i)") auto
  with nat_str_hd[of "nat i"] have "is_digit c" by simp
  then have "c \<noteq> CHR ''-''" "c \<noteq> CHR ''+''" by auto
  with False ns uint_acc_nat_str[of "nat i"]
  show "in_int64 i \<Longrightarrow> Atoi (Itoa i) = Some i"
    by (simp add: Atoi_def ParseInt_def Itoa_def)
qed

interpretation decimal: codec Itoa Atoi in_int64
  by unfold_locales (rule Atoi_Itoa)

section \<open>Hexadecimal\<close>

definition hex_char :: "nat \<Rightarrow> char" where
  "hex_char n = (if n < 10 then char_of (48 + n) else char_of (87 + n))"

definition hex_val :: "char \<Rightarrow> nat option" where
  "hex_val c = (let k = byte_of c in
     if 48 \<le> k \<and> k \<le> 57 then Some (k - 48)
     else if 97 \<le> k \<and> k \<le> 102 then Some (k - 87)
     else if 65 \<le> k \<and> k \<le> 70 then Some (k - 55)
     else None)"

lemma hex_val_hex_char [simp]: "n < 16 \<Longrightarrow> hex_val (hex_char n) = Some n"
  by (simp add: hex_val_def hex_char_def Let_def)

fun hex_encode :: "string \<Rightarrow> string" where
  "hex_encode [] = []"
| "hex_encode (c # cs) = hex_char (byte_of c div 16) # hex_char (byte_of c mod 16) # hex_encode cs"

fun hex_decode :: "string \<Rightarrow> string option" where
  "hex_decode [] = Some []"
| "hex_decode [c] = None"
| "hex_decode (c # d # rest) =
     (case (hex_val c, hex_val d) of
        (Some h, Some l) \<Rightarrow> map_option (Cons (char_of (h * 16 + l))) (hex_decode rest)
      | _ \<Rightarrow> None)"

lemma length_hex_encode [simp]: "length (hex_encode s) = 2 * length s"
  by (induction s) auto

lemma hex_nibbles: "byte_of c div 16 < 16" "byte_of c mod 16 < 16"
  using byte_of_less[of c] by (auto simp: less_mult_imp_div_less)

lemma hex_decode_encode [go_num]: "hex_decode (hex_encode s) = Some s"
  by (induction s) (auto simp: hex_nibbles)

lemma hex_encode_append: "hex_encode (a @ b) = hex_encode a @ hex_encode b"
  by (induction a) auto

lemma hex_decode_length: "hex_decode s = Some t \<Longrightarrow> length s = 2 * length t"
  by (induction s arbitrary: t rule: hex_decode.induct) (auto split: option.splits prod.splits)

interpretation hexadecimal: codec hex_encode hex_decode "\<lambda>_. True"
  by unfold_locales (rule hex_decode_encode)

section \<open>Little-endian 32-bit fields\<close>

definition put_u32 :: "32 word \<Rightarrow> string" where
  "put_u32 w = (let n = unat w in
     [char_of (n mod 256), char_of (n div 256 mod 256),
      char_of (n div 65536 mod 256), char_of (n div 16777216 mod 256)])"

fun get_u32 :: "string \<Rightarrow> 32 word" where
  "get_u32 (a # b # c # d # _) =
     word_of_nat (byte_of a + 256 * byte_of b + 65536 * byte_of c + 16777216 * byte_of d)"
| "get_u32 _ = 0"

lemma length_put_u32 [simp]: "length (put_u32 w) = 4"
  by (simp add: put_u32_def Let_def)

lemma low_digit:
  fixes a m b :: nat
  assumes "a < b"
  shows "(a + b * m) mod b = a" "(a + b * m) div b = m"
  using assms by simp_all

lemma div_chain: "(n::nat) div 65536 = n div 256 div 256" "n div 16777216 = n div 256 div 256 div 256"
  "n div 4096 = n div 64 div 64" "n div 262144 = n div 64 div 64 div 64"
  by (simp_all add: div_mult2_eq[symmetric])

lemma bytes4_recombine:
  assumes "n < 4294967296"
  shows "n mod 256 + 256 * (n div 256 mod 256) + 65536 * (n div 65536 mod 256)
         + 16777216 * (n div 16777216 mod 256) = (n::nat)"
proof -
  define q1 q2 q3 where "q1 = n div 256" "q2 = q1 div 256" "q3 = q2 div 256"
  note q = this
  have "n = 256 * q1 + n mod 256" "q1 = 256 * q2 + q1 mod 256" "q2 = 256 * q3 + q2 mod 256"
    unfolding q by simp_all
  moreover have "q3 < 256" using assms unfolding q by (simp add: div_mult2_eq[symmetric] less_mult_imp_div_less)
  ultimately show ?thesis unfolding div_chain q(1)[symmetric] q(2)[symmetric] q(3)[symmetric]
    by simp
qed

lemma get_put_u32 [simp]: "get_u32 (put_u32 w @ rest) = w"
proof -
  have "unat w < 4294967296" using unsigned_less[of w, where ?'a = nat] by simp
  note r = bytes4_recombine[OF this]
  show ?thesis
    unfolding put_u32_def Let_def append_Cons get_u32.simps byte_of_char_of mod_mod_trivial r
    by simp
qed

lemma put_get_u32: "length s = 4 \<Longrightarrow> put_u32 (get_u32 s) = s"
proof -
  assume "length s = 4"
  then obtain a b c d where s: "s = [a, b, c, d]"
    by (auto simp: numeral_eq_Suc length_Suc_conv)
  let ?n = "byte_of a + 256 * byte_of b + 65536 * byte_of c + 16777216 * byte_of d"
  have lt: "byte_of a < 256" "byte_of b < 256" "byte_of c < 256" "byte_of d < 256" by simp_all
  then have "?n < 4294967296" by linarith
  then have n: "unat (word_of_nat ?n :: 32 word) = ?n"
    by (simp add: unat_of_nat del: of_nat_add of_nat_mult)
  have e: "?n = byte_of a + 256 * (byte_of b + 256 * (byte_of c + 256 * byte_of d))" by simp
  have "?n mod 256 = byte_of a" "?n div 256 mod 256 = byte_of b"
    "?n div 65536 mod 256 = byte_of c" "?n div 16777216 mod 256 = byte_of d"
    unfolding div_chain e
    by (simp_all only: low_digit[OF lt(1)] low_digit[OF lt(2)] low_digit[OF lt(3)] mod_less lt)
  with n show ?thesis unfolding s put_u32_def Let_def get_u32.simps by (simp only: char_of_byte_of)
qed

section \<open>Adler-32\<close>

fun adler_acc :: "nat \<Rightarrow> nat \<Rightarrow> string \<Rightarrow> nat \<times> nat" where
  "adler_acc a b [] = (a, b)"
| "adler_acc a b (c # cs) =
     (let a' = (a + byte_of c) mod 65521 in adler_acc a' ((b + a') mod 65521) cs)"

definition adler32 :: "string \<Rightarrow> 32 word" where
  "adler32 s = (let (a, b) = adler_acc 1 0 s in word_of_nat (b * 65536 + a))"

lemma adler_acc_append:
  "adler_acc a b (xs @ ys) = (let (a', b') = adler_acc a b xs in adler_acc a' b' ys)"
  by (induction xs arbitrary: a b) (auto simp: Let_def)

lemma adler_acc_bound: "a < 65521 \<Longrightarrow> b < 65521 \<Longrightarrow>
    fst (adler_acc a b s) < 65521 \<and> snd (adler_acc a b s) < 65521"
  by (induction s arbitrary: a b) (auto simp: Let_def)

section \<open>Base64 with padding\<close>

definition b64_char :: "nat \<Rightarrow> char" where
  "b64_char n =
     (if n < 26 then char_of (65 + n) else if n < 52 then char_of (71 + n)
      else if n < 62 then char_of (n - 4) else if n = 62 then CHR ''+'' else CHR ''/'')"

definition b64_val :: "char \<Rightarrow> nat option" where
  "b64_val c = (let k = byte_of c in
     if 65 \<le> k \<and> k \<le> 90 then Some (k - 65)
     else if 97 \<le> k \<and> k \<le> 122 then Some (k - 71)
     else if 48 \<le> k \<and> k \<le> 57 then Some (k + 4)
     else if k = 43 then Some 62
     else if k = 47 then Some 63
     else None)"

definition b64_chars :: "nat \<Rightarrow> string" where
  "b64_chars v = [b64_char (v div 262144 mod 64), b64_char (v div 4096 mod 64),
                  b64_char (v div 64 mod 64), b64_char (v mod 64)]"

fun b64_encode :: "string \<Rightarrow> string" where
  "b64_encode [] = []"
| "b64_encode [x] = take 2 (b64_chars (byte_of x * 65536)) @ ''==''"
| "b64_encode [x, y] = take 3 (b64_chars (byte_of x * 65536 + byte_of y * 256)) @ ''=''"
| "b64_encode (x # y # z # rest) =
     b64_chars (byte_of x * 65536 + byte_of y * 256 + byte_of z) @ b64_encode rest"

text \<open>
  The decoder returns the bytes decoded before the first corrupt quantum and whether the input
  was well formed, as \<^verbatim>\<open>DecodeString\<close> returns \<^verbatim>\<open>dbuf[:n], err\<close>: several callers use the
  bytes and drop the error.
\<close>

definition b64_bytes :: "nat \<Rightarrow> nat \<Rightarrow> nat \<Rightarrow> nat \<Rightarrow> string" where
  "b64_bytes p q r t = (let v = p * 262144 + q * 4096 + r * 64 + t in
     [char_of (v div 65536 mod 256), char_of (v div 256 mod 256), char_of (v mod 256)])"

fun b64_quanta :: "string \<Rightarrow> string \<times> bool" where
  "b64_quanta [] = ([], True)"
| "b64_quanta (a # b # c # d # rest) =
     (case (b64_val a, b64_val b, b64_val c, b64_val d) of
        (Some p, Some q, Some r, Some t) \<Rightarrow>
          (let (out, ok) = b64_quanta rest in (b64_bytes p q r t @ out, ok))
      | (Some p, Some q, Some r, None) \<Rightarrow>
          if d = CHR ''='' then (take 2 (b64_bytes p q r 0), rest = []) else ([], False)
      | (Some p, Some q, None, _) \<Rightarrow>
          if c = CHR ''='' \<and> d = CHR ''='' then (take 1 (b64_bytes p q 0 0), rest = []) else ([], False)
      | _ \<Rightarrow> ([], False))"
| "b64_quanta _ = ([], False)"

definition b64_decode :: "string \<Rightarrow> string \<times> bool" where
  "b64_decode s = b64_quanta (filter (\<lambda>c. c \<noteq> CHR 0x0A \<and> c \<noteq> CHR 0x0D) s)"

lemma b64_val_char [simp]: "n < 64 \<Longrightarrow> b64_val (b64_char n) = Some n"
  by (auto simp: b64_val_def b64_char_def Let_def byte_of_def)

lemma b64_val_eq_sign [simp]: "b64_val (CHR ''='') = None"
  by (simp add: b64_val_def byte_of_def)

lemma b64_recombine:
  assumes "v < 16777216"
  shows "v div 262144 mod 64 * 262144 + v div 4096 mod 64 * 4096 + v div 64 mod 64 * 64 + v mod 64 = (v::nat)"
proof -
  define q1 q2 q3 where "q1 = v div 64" "q2 = q1 div 64" "q3 = q2 div 64"
  note q = this
  have "v = 64 * q1 + v mod 64" "q1 = 64 * q2 + q1 mod 64" "q2 = 64 * q3 + q2 mod 64"
    unfolding q by simp_all
  moreover have "q3 < 64" using assms unfolding q by (simp add: div_mult2_eq[symmetric] less_mult_imp_div_less)
  ultimately show ?thesis unfolding div_chain q(1)[symmetric] q(2)[symmetric] q(3)[symmetric]
    by simp
qed

lemma b64_bytes_chars:
  assumes "v < 16777216"
  shows "b64_bytes (v div 262144 mod 64) (v div 4096 mod 64) (v div 64 mod 64) (v mod 64)
         = [char_of (v div 65536 mod 256), char_of (v div 256 mod 256), char_of (v mod 256)]"
  unfolding b64_bytes_def Let_def b64_recombine[OF assms] ..

lemma b64_group:
  fixes x y z :: char
  defines "v \<equiv> byte_of x * 65536 + byte_of y * 256 + byte_of z"
  shows "v < 16777216" "v div 65536 mod 256 = byte_of x"
    "v div 256 mod 256 = byte_of y" "v mod 256 = byte_of z"
proof -
  have lt: "byte_of x < 256" "byte_of y < 256" "byte_of z < 256" by simp_all
  then show "v < 16777216" unfolding v_def by linarith
  have e: "v = byte_of z + 256 * (byte_of y + 256 * byte_of x)" unfolding v_def by simp
  show "v div 65536 mod 256 = byte_of x" "v div 256 mod 256 = byte_of y" "v mod 256 = byte_of z"
    unfolding div_chain e by (simp_all only: low_digit[OF lt(3)] low_digit[OF lt(2)] mod_less lt)
qed

lemma b64_chars_bytes [simp]:
  "b64_bytes (v div 262144 mod 64) (v div 4096 mod 64) (v div 64 mod 64) (v mod 64) = [x, y, z]"
  if "v = byte_of x * 65536 + byte_of y * 256 + byte_of z"
  using b64_bytes_chars[of v] b64_group[of x y z] that by simp

lemma b64_quanta_encode: "b64_quanta (b64_encode s) = (s, True)"
proof (induction s rule: b64_encode.induct)
  case 1
  show ?case by simp
next
  case (2 x)
  let ?v = "byte_of x * 65536"
  have "?v = 64 * (64 * (16 * byte_of x))" by simp
  then have "?v div 64 mod 64 = 0" "?v mod 64 = 0" by simp_all
  then show ?case using b64_chars_bytes[of ?v x "CHR 0x00" "CHR 0x00"]
    by (simp add: b64_chars_def byte_of_def)
next
  case (3 x y)
  let ?v = "byte_of x * 65536 + byte_of y * 256"
  have "?v = 64 * (1024 * byte_of x + 4 * byte_of y)" by simp
  then have "?v mod 64 = 0" by (metis mod_mult_self1_is_0)
  then show ?case using b64_chars_bytes[of ?v x y "CHR 0x00"]
    by (simp add: b64_chars_def byte_of_def)
next
  case (4 x y z rest)
  then show ?case by (simp add: b64_chars_def)
qed

lemma b64_char_not_newline: "b64_char n \<noteq> CHR 0x0A \<and> b64_char n \<noteq> CHR 0x0D"
  if "n < 64"
proof -
  have "b64_val (b64_char n) \<noteq> None" using that by simp
  moreover have "b64_val (CHR 0x0A) = None" "b64_val (CHR 0x0D) = None"
    by (simp_all add: b64_val_def byte_of_def)
  ultimately show ?thesis by metis
qed

lemma b64_encode_no_newline: "filter (\<lambda>c. c \<noteq> CHR 0x0A \<and> c \<noteq> CHR 0x0D) (b64_encode s) = b64_encode s"
  by (induction s rule: b64_encode.induct) (auto simp: b64_chars_def b64_char_not_newline)

lemma b64_decode_encode [simp]: "b64_decode (b64_encode s) = (s, True)"
  by (simp add: b64_decode_def b64_encode_no_newline b64_quanta_encode)

definition b64_strict :: "string \<Rightarrow> string option" where
  "b64_strict s = (let (out, ok) = b64_decode s in if ok then Some out else None)"

interpretation base64: codec b64_encode b64_strict "\<lambda>_. True"
  by unfold_locales (simp add: b64_strict_def)

end
