(* ===== verification/Zero_Codec.thy ===== *)
theory Zero_Codec
  imports Go_Encoding
begin

text \<open>
  The message format of package \<^verbatim>\<open>util/zero\<close> (\<^verbatim>\<open>def.go\<close>, \<^verbatim>\<open>message.go\<close>, \<^verbatim>\<open>codec.go\<close>).
  Go's \<^verbatim>\<open>int32\<close> and \<^verbatim>\<open>uint32\<close> fields are \<^typ>\<open>32 word\<close>; a Go panic is \<^const>\<open>None\<close> and an
  error return is \<^const>\<open>Inl\<close>.  \<^verbatim>\<open>binary.Write\<close> of a fixed-size value into a
  \<^verbatim>\<open>bytes.Buffer\<close> cannot fail, so \<^verbatim>\<open>Encode\<close> returns its bytes directly.
\<close>

section \<open>Constants (def.go)\<close>

datatype service_status = STUnknown | STInited | STRunning | STStop

definition MsgHeartbeat :: "32 word" where
  "MsgHeartbeat = 0"

section \<open>Messages (message.go)\<close>

record message =
  msgSize :: "32 word"
  msgID :: "32 word"
  msg_data :: string
  msg_checksum :: "32 word"

fun calcChecksum :: "message option \<Rightarrow> 32 word" where
  "calcChecksum None = 0"
| "calcChecksum (Some msg) = adler32 (put_u32 (msgID msg) @ msg_data msg)"

definition NewMessage :: "32 word \<Rightarrow> string \<Rightarrow> message" where
  "NewMessage mid data =
     (let msg = \<lparr>msgSize = word_of_nat (length data) + 4 + 4, msgID = mid, msg_data = data,
                 msg_checksum = 0\<rparr>
      in msg\<lparr>msg_checksum := calcChecksum (Some msg)\<rparr>)"

definition GetData :: "message \<Rightarrow> string" where
  "GetData msg = msg_data msg"

definition GetID :: "message \<Rightarrow> 32 word" where
  "GetID msg = msgID msg"

definition Verify :: "message \<Rightarrow> bool" where
  "Verify msg = (msg_checksum msg = calcChecksum (Some msg))"

definition message_String :: "message \<Rightarrow> string" where
  "message_String msg =
     ''Size='' @ Itoa (sint (msgSize msg)) @ '' ID='' @ Itoa (sint (GetID msg)) @
     '' DataLen='' @ Itoa (int (length (GetData msg))) @
     '' Checksum='' @ Itoa (uint (msg_checksum msg))"

section \<open>Encoding and decoding (codec.go)\<close>

datatype zero_error = EOF | UnexpectedEOF | ChecksumError | DeadlineError | WriteError

definition Encode :: "message \<Rightarrow> string" where
  "Encode msg = put_u32 (msgSize msg) @ put_u32 (msgID msg) @ msg_data msg @ put_u32 (msg_checksum msg)"

text \<open>\<^verbatim>\<open>io.ReadFull\<close> of \<open>n\<close> bytes, which \<^verbatim>\<open>binary.Read\<close> uses as well.\<close>

definition ReadFull :: "nat \<Rightarrow> string \<Rightarrow> zero_error + (string \<times> string)" where
  "ReadFull n s =
     (if n \<le> length s then Inr (take n s, drop n s)
      else if s = [] then Inl EOF else Inl UnexpectedEOF)"

definition Decode :: "string \<Rightarrow> (zero_error + message) option" where
  "Decode data =
     (let dataSize = int (length data) in
      case ReadFull 4 data of
        Inl e \<Rightarrow> Some (Inl e)
      | Inr (idb, r1) \<Rightarrow>
          (let dataBufLength = dataSize - 4 - 4 in
           if dataBufLength < 0 then None
           else case ReadFull (nat dataBufLength) r1 of
                  Inl e \<Rightarrow> Some (Inl e)
                | Inr (dataBuf, r2) \<Rightarrow>
                    (case ReadFull 4 r2 of
                       Inl e \<Rightarrow> Some (Inl e)
                     | Inr (csb, r3) \<Rightarrow>
                         (let message = \<lparr>msgSize = word_of_int dataSize, msgID = get_u32 idb,
                                         msg_data = dataBuf, msg_checksum = get_u32 csb\<rparr>
                          in if Verify message then Some (Inr message)
                             else Some (Inl ChecksumError)))))"

section \<open>Lemmas\<close>

lemma NewMessage_simps [simp]:
  "msgSize (NewMessage i d) = word_of_nat (length d) + 8"
  "msgID (NewMessage i d) = i"
  "msg_data (NewMessage i d) = d"
  "msg_checksum (NewMessage i d) = adler32 (put_u32 i @ d)"
  by (simp_all add: NewMessage_def Let_def)

lemma Verify_NewMessage [simp]: "Verify (NewMessage i d)"
  by (simp add: Verify_def)

lemma message_eqI:
  "msgSize m = msgSize m' \<Longrightarrow> msgID m = msgID m' \<Longrightarrow> msg_data m = msg_data m' \<Longrightarrow>
   msg_checksum m = msg_checksum m' \<Longrightarrow> m = (m' :: message)"
  by simp

lemma ReadFull_append [simp]: "length xs = n \<Longrightarrow> ReadFull n (xs @ ys) = Inr (xs, ys)"
  by (auto simp: ReadFull_def)

lemma ReadFull_exact [simp]: "length xs = n \<Longrightarrow> ReadFull n xs = Inr (xs, [])"
  by (simp add: ReadFull_def)

lemma ReadFull_Inr: "ReadFull n s = Inr (a, b) \<longleftrightarrow> s = a @ b \<and> length a = n"
  by (auto simp: ReadFull_def split: if_splits)

lemma length_Encode [simp]: "length (Encode m) = 12 + length (msg_data m)"
  by (simp add: Encode_def)

lemma get_u32_put_u32 [simp]: "get_u32 (put_u32 w) = w"
  using get_put_u32[of w "[]"] by simp

text \<open>The frame without its size prefix, which is what \<^verbatim>\<open>Decode\<close> is given.\<close>

definition body :: "message \<Rightarrow> string" where
  "body m = put_u32 (msgID m) @ msg_data m @ put_u32 (msg_checksum m)"

lemma length_body [simp]: "length (body m) = 8 + length (msg_data m)"
  by (simp add: body_def)

lemma Encode_body: "Encode m = put_u32 (msgSize m) @ body m"
  by (simp add: Encode_def body_def)

lemma Decode_parts:
  assumes "length a = 4" "length c = 4"
  shows "Decode (a @ b @ c) =
    (let m = \<lparr>msgSize = word_of_nat (length b) + 8, msgID = get_u32 a, msg_data = b,
              msg_checksum = get_u32 c\<rparr>
     in if Verify m then Some (Inr m) else Some (Inl ChecksumError))"
  using assms by (simp add: Decode_def Let_def add.commute)

lemma Decode_body:
  assumes "Verify m" "msgSize m = word_of_nat (length (msg_data m)) + 8"
  shows "Decode (body m) = Some (Inr m)"
  using assms by (simp add: Decode_parts body_def Verify_def Let_def)

lemma Decode_short_error: "length s < 4 \<Longrightarrow> \<exists>e. Decode s = Some (Inl e)"
  by (auto simp: Decode_def ReadFull_def)

lemma Decode_panics: "4 \<le> length s \<Longrightarrow> length s < 8 \<Longrightarrow> Decode s = None"
  by (auto simp: Decode_def ReadFull_def Let_def)

lemma Decode_long:
  assumes "8 \<le> length s"
  obtains m where "s = body m" "msgSize m = word_of_nat (length (msg_data m)) + 8"
    "Decode s = (if Verify m then Some (Inr m) else Some (Inl ChecksumError))"
proof -
  define a b c where "a = take 4 s" "b = take (length s - 8) (drop 4 s)" "c = drop (length s - 4) s"
  note d = this
  have s: "s = a @ b @ c"
  proof -
    have "drop (length s - 8) (drop 4 s) = c" unfolding d using assms by simp
    then show ?thesis unfolding d by (metis append_take_drop_id)
  qed
  have l: "length a = 4" "length b = length s - 8" "length c = 4" unfolding d using assms by simp_all
  let ?m = "\<lparr>msgSize = word_of_nat (length b) + 8, msgID = get_u32 a, msg_data = b,
             msg_checksum = get_u32 c\<rparr> :: message"
  have "s = body ?m" using s l by (simp add: body_def put_get_u32)
  moreover have "msgSize ?m = word_of_nat (length (msg_data ?m)) + 8" by simp
  moreover have "Decode s = (if Verify ?m then Some (Inr ?m) else Some (Inl ChecksumError))"
    unfolding s using l by (simp add: Decode_parts Let_def)
  ultimately show thesis by (rule that)
qed

text \<open>
  C17. What \<^verbatim>\<open>Encode\<close> writes for a message built by \<^verbatim>\<open>NewMessage\<close>, without its four size
  bytes, decodes to exactly that message, for every identifier and every payload.
\<close>

theorem Decode_Encode_NewMessage:
  "Decode (drop 4 (Encode (NewMessage i d))) = Some (Inr (NewMessage i d))"
proof -
  have "drop 4 (Encode (NewMessage i d)) = body (NewMessage i d)"
    by (simp add: Encode_body)
  then show ?thesis by (simp add: Decode_body)
qed

text \<open>
  C18. Conversely, a byte string that \<^verbatim>\<open>Decode\<close> accepts is the encoding of the message it
  returns, whose checksum holds: nothing but well-formed frames is accepted.
\<close>

theorem Decode_accepts_only_encodings:
  assumes "Decode s = Some (Inr m)"
  shows "Verify m \<and> Encode m = put_u32 (word_of_nat (length s)) @ s"
proof -
  have "8 \<le> length s"
    using assms Decode_short_error[of s] Decode_panics[of s] by fastforce
  then obtain m' where m': "s = body m'" "msgSize m' = word_of_nat (length (msg_data m')) + 8"
    "Decode s = (if Verify m' then Some (Inr m') else Some (Inl ChecksumError))"
    by (rule Decode_long)
  with assms have "m = m'" "Verify m'" by (auto split: if_splits)
  with m' show ?thesis by (simp add: Encode_body add.commute)
qed

theorem Decode_accepts_only_encodings_witness:
  "Decode (body (NewMessage 7 ''hi'')) = Some (Inr (NewMessage 7 ''hi'')) \<and>
   Encode (NewMessage 7 ''hi'') =
     put_u32 (word_of_nat (length (body (NewMessage 7 ''hi'')))) @ body (NewMessage 7 ''hi'')"
proof -
  have d: "Decode (body (NewMessage 7 ''hi'')) = Some (Inr (NewMessage 7 ''hi''))"
    by (simp add: Decode_body)
  from Decode_accepts_only_encodings[OF d] d show ?thesis by blast
qed

text \<open>
  C40. \<^verbatim>\<open>Decode\<close> panics (a negative \<^verbatim>\<open>make\<close> length) exactly on inputs of four to seven bytes;
  shorter ones are reported as errors.
\<close>

theorem Decode_panics_iff: "Decode s = None \<longleftrightarrow> 4 \<le> length s \<and> length s < 8"
proof (cases "8 \<le> length s")
  case True
  then obtain m where "Decode s = (if Verify m then Some (Inr m) else Some (Inl ChecksumError))"
    by (rule Decode_long)
  with True show ?thesis by simp
next
  case False
  then show ?thesis using Decode_short_error[of s] Decode_panics[of s] by fastforce
qed

end
