(* ===== verification/Zero_Conn.thy ===== *)
theory Zero_Conn
  imports Zero_Codec
begin

text \<open>
  The connection of package \<^verbatim>\<open>util/zero\<close> (\<^verbatim>\<open>conn.go\<close>) with the goroutine that serves it
  (\<^verbatim>\<open>connectHandler\<close> of \<^verbatim>\<open>service.go\<close>).  The three goroutines of a connection run
  concurrently and meet at channels, so the model is a step relation whose atomic steps are
  the channel operations: \<^verbatim>\<open>sendCh\<close> and \<^verbatim>\<open>messageCh\<close> are bounded queues of 100 entries and
  \<^verbatim>\<open>done\<close> is an unbuffered rendezvous.  \<open>rawIn\<close> holds the bytes the peer has sent and the
  reader has not consumed yet; \<open>written\<close> the packets handed to the socket; \<open>accepted\<close> the
  packets \<^verbatim>\<open>SendMessage\<close> put into the channel.  \<open>readStream\<close> is the reference: the messages a
  byte stream carries, read one frame after another.
\<close>

section \<open>Reading one frame\<close>

definition readFrame :: "bool \<Rightarrow> string \<Rightarrow> (zero_error + (message \<times> string)) option" where
  "readFrame deadline_ok s =
     (if \<not> deadline_ok then Some (Inl DeadlineError)
      else case ReadFull 4 s of
        Inl e \<Rightarrow> Some (Inl e)
      | Inr (buf, r1) \<Rightarrow>
          (let dataSize = sint (get_u32 buf) in
           if dataSize < 0 then None
           else case ReadFull (nat dataSize) r1 of
                  Inl e \<Rightarrow> Some (Inl e)
                | Inr (databuf, r2) \<Rightarrow>
                    (case Decode databuf of
                       None \<Rightarrow> None
                     | Some (Inl e) \<Rightarrow> Some (Inl e)
                     | Some (Inr m) \<Rightarrow> Some (Inr (m, r2)))))"

lemma readFrame_shorter: "readFrame d s = Some (Inr (m, r)) \<Longrightarrow> length r < length s"
  by (auto simp: readFrame_def ReadFull_Inr Let_def split: if_splits sum.splits prod.splits option.splits)

section \<open>The messages of a byte stream\<close>

datatype read_end = ReadErr zero_error | ReadPanic

function readStream :: "string \<Rightarrow> message list \<times> read_end" where
  "readStream s =
     (case readFrame True s of
        None \<Rightarrow> ([], ReadPanic)
      | Some (Inl e) \<Rightarrow> ([], ReadErr e)
      | Some (Inr (m, r)) \<Rightarrow>
          (let (ms, e) = readStream r
           in (if GetID m = MsgHeartbeat then ms else m # ms, e)))"
  by pat_completeness auto
termination
  by (relation "measure length") (auto dest: readFrame_shorter)

declare readStream.simps [simp del]

definition frame_ok :: "message \<Rightarrow> bool" where
  "frame_ok m = (Verify m \<and> msgSize m = word_of_nat (length (msg_data m)) + 8
                 \<and> length (msg_data m) + 8 < 2 ^ 31)"

lemma frame_ok_NewMessage: "length d + 8 < 2 ^ 31 \<Longrightarrow> frame_ok (NewMessage i d)"
  by (simp add: frame_ok_def)

lemma sint_word32: "- (2 ^ 31) \<le> i \<Longrightarrow> i < 2 ^ 31 \<Longrightarrow> sint (word_of_int i :: 32 word) = i"
  by (simp add: sint_sbintrunc' signed_take_bit_int_eq_self)

lemma frame_ok_size: "frame_ok m \<Longrightarrow> sint (msgSize m) = int (length (body m))"
  using sint_word32[of "int (length (body m))"] by (simp add: frame_ok_def add.commute)

lemma readFrame_Encode: "frame_ok m \<Longrightarrow> readFrame True (Encode m @ rest) = Some (Inr (m, rest))"
  using frame_ok_size[of m]
  by (simp add: readFrame_def Encode_body Decode_body frame_ok_def Let_def)

lemma readStream_Encode:
  "frame_ok m \<Longrightarrow> readStream (Encode m @ rest) =
     (let (ms, e) = readStream rest in (if GetID m = MsgHeartbeat then ms else m # ms, e))"
  by (subst readStream.simps) (simp add: readFrame_Encode)

lemma readFrame_Nil: "readFrame True [] = Some (Inl EOF)"
  by (simp add: readFrame_def ReadFull_def)

lemma readFrame_verified: "readFrame d s = Some (Inr (m, r)) \<Longrightarrow> Verify m"
  using Decode_accepts_only_encodings
  by (fastforce simp: readFrame_def Let_def split: if_splits sum.splits prod.splits option.splits)

lemma readFrame_deadline: "readFrame d s = Some (Inr x) \<Longrightarrow> readFrame True s = Some (Inr x)"
  by (auto simp: readFrame_def split: if_splits)

lemma readStream_frame:
  "readFrame d s = Some (Inr (m, r)) \<Longrightarrow>
   fst (readStream s) = (if GetID m = MsgHeartbeat then [] else [m]) @ fst (readStream r)"
proof -
  assume "readFrame d s = Some (Inr (m, r))"
  then have "readFrame True s = Some (Inr (m, r))" by (rule readFrame_deadline)
  then show ?thesis by (simp add: readStream.simps[of s] split: prod.splits)
qed

lemma readStream_all_verified:
  "m \<in> set (fst (readStream s)) \<Longrightarrow> Verify m \<and> GetID m \<noteq> MsgHeartbeat"
proof (induction s rule: readStream.induct)
  case (1 s)
  show ?case
  proof (cases "readFrame True s")
    case None
    with "1.prems" show ?thesis by (simp add: readStream.simps[of s])
  next
    case (Some x)
    show ?thesis
    proof (cases x)
      case (Inl e)
      with Some "1.prems" show ?thesis by (simp add: readStream.simps[of s])
    next
      case (Inr p)
      obtain f r where p: "p = (f, r)" by (cases p)
      with Some Inr have fr: "readFrame True s = Some (Inr (f, r))" by simp
      from "1.IH"[OF Some Inr p[symmetric]] have IH: "m \<in> set (fst (readStream r)) \<Longrightarrow>
          Verify m \<and> GetID m \<noteq> MsgHeartbeat" .
      from "1.prems" IH readFrame_verified[OF fr] show ?thesis
        unfolding readStream_frame[OF fr] by (auto split: if_splits)
    qed
  qed
qed

section \<open>Connections (type Conn) and their goroutines\<close>

datatype reader_pc = RLoop | RDeliver message | RFail zero_error | RExit
datatype writer_pc = WLoop | WSendHeartbeat string | WFail zero_error | WExit
datatype handler_pc = HLoop | HExit

record conn =
  conn_name :: string
  rawIn :: string
  written :: "string list"
  accepted :: "string list"
  sendCh :: "string list"
  sendCh_closed :: bool
  messageCh :: "message list"
  hbInterval :: int
  hbTimeout :: int
  hbTimer_on :: bool
  ctx_done :: bool
  reader :: reader_pc
  writer :: writer_pc
  handler :: handler_pc
  handled :: "message list"
  disconnect :: "zero_error option"
  panicked :: bool

definition GetName :: "conn \<Rightarrow> string" where
  "GetName c = conn_name c"

text \<open>
  \<^verbatim>\<open>NewConn\<close> creates the timer before it looks at the interval: with interval 0 the timer may
  fire before it is stopped, which the flag \<open>fired\<close> records.
\<close>

definition NewConn :: "string \<Rightarrow> string \<Rightarrow> int \<Rightarrow> int \<Rightarrow> bool \<Rightarrow> conn" where
  "NewConn addr input interval timeout fired =
     \<lparr>conn_name = addr, rawIn = input, written = [], accepted = [], sendCh = [],
      sendCh_closed = False, messageCh = [], hbInterval = interval, hbTimeout = timeout,
      hbTimer_on = (if interval = 0 then fired else True), ctx_done = False,
      reader = RLoop, writer = WLoop, handler = HLoop, handled = [], disconnect = None,
      panicked = False\<rparr>"

definition Close :: "conn \<Rightarrow> conn" where
  "Close c = c\<lparr>hbTimer_on := False, sendCh_closed := True\<rparr>"

text \<open>
  \<^verbatim>\<open>SendMessage\<close>: \<^const>\<open>None\<close> when the send blocks (channel full); a send on the closed
  channel panics.
\<close>

definition SendMessage :: "conn \<Rightarrow> message \<Rightarrow> conn option" where
  "SendMessage c msg =
     (let pkg = Encode msg in
      if sendCh_closed c then Some (c\<lparr>panicked := True\<rparr>)
      else if length (sendCh c) < 100
           then Some (c\<lparr>sendCh := sendCh c @ [pkg], accepted := accepted c @ [pkg]\<rparr>)
           else None)"

inductive reader_step :: "conn \<Rightarrow> conn \<Rightarrow> bool" where
  read_cancelled: "reader c = RLoop \<Longrightarrow> ctx_done c \<Longrightarrow> reader_step c (c\<lparr>reader := RExit\<rparr>)"
| read_panic: "reader c = RLoop \<Longrightarrow> \<not> ctx_done c \<Longrightarrow> readFrame dl (rawIn c) = None \<Longrightarrow>
     reader_step c (c\<lparr>panicked := True, reader := RExit\<rparr>)"
| read_error: "reader c = RLoop \<Longrightarrow> \<not> ctx_done c \<Longrightarrow> dl \<or> 0 < hbInterval c \<Longrightarrow>
     readFrame dl (rawIn c) = Some (Inl e) \<Longrightarrow> reader_step c (c\<lparr>reader := RFail e\<rparr>)"
| read_heartbeat: "reader c = RLoop \<Longrightarrow> \<not> ctx_done c \<Longrightarrow>
     readFrame dl (rawIn c) = Some (Inr (m, rest)) \<Longrightarrow> GetID m = MsgHeartbeat \<Longrightarrow>
     reader_step c (c\<lparr>rawIn := rest, hbTimer_on := (0 < hbInterval c \<or> hbTimer_on c)\<rparr>)"
| read_message: "reader c = RLoop \<Longrightarrow> \<not> ctx_done c \<Longrightarrow>
     readFrame dl (rawIn c) = Some (Inr (m, rest)) \<Longrightarrow> GetID m \<noteq> MsgHeartbeat \<Longrightarrow>
     reader_step c (c\<lparr>rawIn := rest, hbTimer_on := (0 < hbInterval c \<or> hbTimer_on c),
                      reader := RDeliver m\<rparr>)"
| read_deliver: "reader c = RDeliver m \<Longrightarrow> length (messageCh c) < 100 \<Longrightarrow>
     reader_step c (c\<lparr>messageCh := messageCh c @ [m], reader := RLoop\<rparr>)"

inductive writer_step :: "conn \<Rightarrow> conn \<Rightarrow> bool" where
  write_cancelled: "writer c = WLoop \<Longrightarrow> ctx_done c \<Longrightarrow> writer_step c (c\<lparr>writer := WExit\<rparr>)"
| write_closed: "writer c = WLoop \<Longrightarrow> sendCh c = [] \<Longrightarrow> sendCh_closed c \<Longrightarrow> writer_step c c"
| write_packet: "writer c = WLoop \<Longrightarrow> sendCh c = pkt # q \<Longrightarrow>
     writer_step c (c\<lparr>sendCh := q, written := written c @ [pkt]\<rparr>)"
| write_error: "writer c = WLoop \<Longrightarrow> sendCh c = pkt # q \<Longrightarrow>
     writer_step c (c\<lparr>sendCh := q, writer := WFail WriteError\<rparr>)"
| write_timer: "writer c = WLoop \<Longrightarrow> hbTimer_on c \<Longrightarrow>
     writer_step c (c\<lparr>hbTimer_on := False,
                      writer := WSendHeartbeat (Encode (NewMessage MsgHeartbeat []))\<rparr>)"
| write_heartbeat: "writer c = WSendHeartbeat pkt \<Longrightarrow> \<not> sendCh_closed c \<Longrightarrow>
     length (sendCh c) < 100 \<Longrightarrow>
     writer_step c (c\<lparr>sendCh := sendCh c @ [pkt], accepted := accepted c @ [pkt], writer := WLoop\<rparr>)"
| write_heartbeat_closed: "writer c = WSendHeartbeat pkt \<Longrightarrow> sendCh_closed c \<Longrightarrow>
     writer_step c (c\<lparr>panicked := True, writer := WExit\<rparr>)"

text \<open>
  The service goroutine: \<^verbatim>\<open>connectHandler\<close>'s select.  A value on \<^verbatim>\<open>done\<close> runs the disconnect
  handler and the deferred \<^verbatim>\<open>cancel\<close> and \<^verbatim>\<open>Close\<close>; after it nobody receives on \<^verbatim>\<open>done\<close>.
\<close>

inductive handler_step :: "conn \<Rightarrow> conn \<Rightarrow> bool" where
  handle_message: "handler c = HLoop \<Longrightarrow> messageCh c = m # q \<Longrightarrow>
     handler_step c (c\<lparr>messageCh := q, handled := handled c @ [m]\<rparr>)"
| handle_read_done: "handler c = HLoop \<Longrightarrow> reader c = RFail e \<Longrightarrow>
     handler_step c (Close (c\<lparr>reader := RExit, disconnect := Some e, handler := HExit, ctx_done := True\<rparr>))"
| handle_write_done: "handler c = HLoop \<Longrightarrow> writer c = WFail e \<Longrightarrow>
     handler_step c (Close (c\<lparr>writer := WLoop, disconnect := Some e, handler := HExit, ctx_done := True\<rparr>))"

inductive conn_step :: "conn \<Rightarrow> conn \<Rightarrow> bool" where
  step_reader: "\<not> panicked c \<Longrightarrow> reader_step c c' \<Longrightarrow> conn_step c c'"
| step_writer: "\<not> panicked c \<Longrightarrow> writer_step c c' \<Longrightarrow> conn_step c c'"
| step_handler: "\<not> panicked c \<Longrightarrow> handler_step c c' \<Longrightarrow> conn_step c c'"
| step_send: "\<not> panicked c \<Longrightarrow> SendMessage c msg = Some c' \<Longrightarrow> conn_step c c'"

inductive conn_reachable :: "conn \<Rightarrow> conn \<Rightarrow> bool" for c0 where
  conn_start: "conn_reachable c0 c0"
| conn_next: "conn_reachable c0 c \<Longrightarrow> conn_step c c' \<Longrightarrow> conn_reachable c0 c'"

inductive_cases conn_stepE: "conn_step c c'"

section \<open>What the goroutines keep\<close>

fun in_hand :: "reader_pc \<Rightarrow> message list" where
  "in_hand (RDeliver m) = [m]"
| "in_hand _ = []"

definition conn_inv :: "string \<Rightarrow> conn \<Rightarrow> bool" where
  "conn_inv input c =
     (length (sendCh c) \<le> 100 \<and> length (messageCh c) \<le> 100 \<and>
      subseq (written c @ sendCh c) (accepted c) \<and>
      fst (readStream input) =
        handled c @ messageCh c @ in_hand (reader c) @ fst (readStream (rawIn c)))"

lemma conn_inv_NewConn: "conn_inv input (NewConn addr input interval timeout fired)"
  by (simp add: conn_inv_def NewConn_def)

lemma subseq_drop_middle: "subseq (xs @ y # ys) zs \<Longrightarrow> subseq (xs @ ys) zs"
  by (rule subseq_order.trans[of _ "xs @ y # ys"]) (auto simp: subseq_append_iff)

lemma subseq_snoc: "subseq (xs @ ys) zs \<Longrightarrow> subseq (xs @ ys @ [z]) (zs @ [z])"
  using list_emb_append_mono[of "(=)" "xs @ ys" zs "[z]" "[z]"] by simp

lemma reader_step_inv: "reader_step c c' \<Longrightarrow> conn_inv input c \<Longrightarrow> conn_inv input c'"
  by (induction rule: reader_step.induct) (auto simp: conn_inv_def readStream_frame)

lemma writer_step_inv: "writer_step c c' \<Longrightarrow> conn_inv input c \<Longrightarrow> conn_inv input c'"
  by (induction rule: writer_step.induct)
     (auto simp: conn_inv_def subseq_drop_middle subseq_snoc)

lemma handler_step_inv: "handler_step c c' \<Longrightarrow> conn_inv input c \<Longrightarrow> conn_inv input c'"
  by (induction rule: handler_step.induct) (auto simp: conn_inv_def Close_def)

lemma SendMessage_inv: "SendMessage c m = Some c' \<Longrightarrow> conn_inv input c \<Longrightarrow> conn_inv input c'"
  by (auto simp: SendMessage_def conn_inv_def Let_def subseq_snoc split: if_splits)

lemma conn_step_inv: "conn_step c c' \<Longrightarrow> conn_inv input c \<Longrightarrow> conn_inv input c'"
  by (erule conn_stepE) (auto intro: reader_step_inv writer_step_inv handler_step_inv SendMessage_inv)

lemma conn_reachable_inv:
  "conn_reachable c0 c \<Longrightarrow> conn_inv input c0 \<Longrightarrow> conn_inv input c"
  by (induction rule: conn_reachable.induct) (auto intro: conn_step_inv)

section \<open>A heartbeat that meets a full channel\<close>

definition stalled :: "conn \<Rightarrow> bool" where
  "stalled c = ((\<exists>pkt. writer c = WSendHeartbeat pkt) \<and> length (sendCh c) = 100 \<and> \<not> sendCh_closed c)"

lemma fill_sendCh:
  assumes "n \<le> 100"
  shows "\<exists>c. conn_reachable (NewConn addr input 5 5 False) c \<and> length (sendCh c) = n \<and>
             writer c = WLoop \<and> hbTimer_on c \<and> \<not> sendCh_closed c \<and> \<not> panicked c"
  using assms
proof (induction n)
  case 0
  show ?case by (rule exI[of _ "NewConn addr input 5 5 False"]) (simp add: conn_start, simp add: NewConn_def)
next
  case (Suc n)
  then obtain c where c: "conn_reachable (NewConn addr input 5 5 False) c" "length (sendCh c) = n"
    "writer c = WLoop" "hbTimer_on c" "\<not> sendCh_closed c" "\<not> panicked c" by auto
  let ?c = "c\<lparr>sendCh := sendCh c @ [Encode (NewMessage 1 [])], accepted := accepted c @ [Encode (NewMessage 1 [])]\<rparr>"
  have "SendMessage c (NewMessage 1 []) = Some ?c"
    using c Suc.prems by (simp add: SendMessage_def Let_def)
  then have "conn_step c ?c" using c(6) by (rule step_send[rotated])
  with c(1) have "conn_reachable (NewConn addr input 5 5 False) ?c" by (rule conn_next)
  with c show ?case by (intro exI[of _ ?c]) simp
qed

lemma stalled_step: "stalled c \<Longrightarrow> conn_step c c' \<Longrightarrow> stalled c' \<or> sendCh_closed c'"
  unfolding stalled_def
  by (erule conn_stepE)
     (auto elim!: reader_step.cases writer_step.cases handler_step.cases
       simp: SendMessage_def Close_def split: if_splits)

lemma stalled_no_write: "stalled c \<Longrightarrow> \<not> writer_step c c'"
  by (auto simp: stalled_def elim!: writer_step.cases)

lemma readStream_Encodes:
  assumes "\<forall>m\<in>set ms. frame_ok m"
  shows "readStream (concat (map Encode ms)) =
           (filter (\<lambda>m. GetID m \<noteq> MsgHeartbeat) ms, ReadErr EOF)"
  using assms
proof (induction ms)
  case Nil
  show ?case by (subst readStream.simps) (simp add: readFrame_Nil)
next
  case (Cons m ms)
  then show ?case by (simp add: readStream_Encode)
qed

text \<open>
  A stream of encoded messages is read back message by message, in order, heartbeats
  left out, and the reader ends with end-of-file at the end of the stream.
\<close>

theorem readStream_of_frames:
  assumes "\<forall>m\<in>set ms. frame_ok m"
  shows "readStream (concat (map Encode ms)) =
           (filter (\<lambda>m. GetID m \<noteq> MsgHeartbeat) ms, ReadErr EOF)"
  using readStream_Encodes[OF assms] .

theorem readStream_of_frames_witness:
  "readStream (concat (map Encode [NewMessage 1 ''a'', NewMessage 0 [], NewMessage 2 ''bc''])) =
     ([NewMessage 1 ''a'', NewMessage 2 ''bc''], ReadErr EOF)"
proof -
  have "\<forall>m\<in>set [NewMessage 1 ''a'', NewMessage 0 [], NewMessage 2 ''bc'']. frame_ok m"
    by (auto intro!: frame_ok_NewMessage)
  from readStream_of_frames[OF this] show ?thesis by (simp add: GetID_def MsgHeartbeat_def)
qed

text \<open>
  C5. Whatever the goroutines of a connection do, the messages given to the message handler
  are a prefix, in order, of the messages in the peer's byte stream, every one of them
  carries a valid checksum and none is a heartbeat; the queues stay within their bound of
  100 and what is written to the socket is taken in order from what was accepted for sending.
\<close>

theorem conn_handles_stream_in_order:
  assumes "conn_reachable (NewConn addr input interval timeout fired) c"
  shows "prefix (handled c) (fst (readStream input)) \<and>
         (\<forall>m\<in>set (handled c). Verify m \<and> GetID m \<noteq> MsgHeartbeat) \<and>
         length (sendCh c) \<le> 100 \<and> length (messageCh c) \<le> 100 \<and>
         subseq (written c) (accepted c)"
proof -
  have inv: "conn_inv input c"
    using assms conn_inv_NewConn by (rule conn_reachable_inv)
  then have "prefix (handled c) (fst (readStream input))"
    by (auto simp: conn_inv_def prefix_def)
  moreover from this have "\<forall>m\<in>set (handled c). Verify m \<and> GetID m \<noteq> MsgHeartbeat"
    using readStream_all_verified by (metis (no_types, lifting) UnCI prefix_def set_append)
  moreover from inv have "subseq (written c) (accepted c)"
    by (auto simp: conn_inv_def intro: subseq_order.trans[of _ "written c @ sendCh c"])
  ultimately show ?thesis using inv by (simp add: conn_inv_def)
qed

lemma one_message_handled:
  "\<exists>c. conn_reachable (NewConn ''peer'' (Encode (NewMessage 1 ''a'')) 5 5 False) c \<and>
       handled c = [NewMessage 1 ''a'']"
proof -
  let ?m = "NewMessage 1 ''a''" and ?c0 = "NewConn ''peer'' (Encode (NewMessage 1 ''a'')) 5 5 False"
  let ?c1 = "?c0\<lparr>rawIn := [], hbTimer_on := True, reader := RDeliver ?m\<rparr>"
  let ?c2 = "?c1\<lparr>messageCh := [?m], reader := RLoop\<rparr>"
  let ?c3 = "?c2\<lparr>messageCh := [], handled := [?m]\<rparr>"
  have f: "readFrame True (rawIn ?c0) = Some (Inr (?m, []))"
    using readFrame_Encode[of ?m "[]"] frame_ok_NewMessage[of "''a''" 1] by (simp add: NewConn_def)
  have "reader_step ?c0 ?c1"
    using reader_step.read_message[of ?c0, OF _ _ f] by (simp add: NewConn_def GetID_def MsgHeartbeat_def)
  moreover have "reader_step ?c1 ?c2"
    using reader_step.read_deliver[of ?c1 ?m] by (simp add: NewConn_def)
  moreover have "handler_step ?c2 ?c3"
    using handler_step.handle_message[of ?c2 ?m "[]"] by (simp add: NewConn_def)
  ultimately have "conn_step ?c0 ?c1" "conn_step ?c1 ?c2" "conn_step ?c2 ?c3"
    by (auto intro: step_reader step_handler simp: NewConn_def)
  then have "conn_reachable ?c0 ?c3" by (meson conn_start conn_next)
  then show ?thesis by (intro exI[of _ ?c3]) simp
qed

theorem conn_handles_stream_in_order_witness:
  "\<exists>c :: conn. handled c = [NewMessage 1 ''a''] \<and>
       prefix (handled c) (fst (readStream (Encode (NewMessage 1 ''a'')))) \<and> length (sendCh c) \<le> 100"
proof -
  obtain c where c: "conn_reachable (NewConn ''peer'' (Encode (NewMessage 1 ''a'')) 5 5 False) c"
    "handled c = [NewMessage 1 ''a'']" using one_message_handled by blast
  from conn_handles_stream_in_order[OF c(1)] c(2) show ?thesis by blast
qed

text \<open>
  The writing goroutine is also the only reader of \<^verbatim>\<open>sendCh\<close>, so a heartbeat that falls
  due while the channel is full stops it for good: such a state is reachable, the writer has
  no step in it, and every step of the rest of the connection keeps it so until the channel
  is closed under the blocked send.
\<close>

theorem heartbeat_stalls_writer:
  "\<exists>c. conn_reachable (NewConn addr input 5 5 False) c \<and> stalled c \<and>
       (\<forall>c'. \<not> writer_step c c') \<and> (\<forall>c'. conn_step c c' \<longrightarrow> stalled c' \<or> sendCh_closed c')"
proof -
  obtain c where c: "conn_reachable (NewConn addr input 5 5 False) c" "length (sendCh c) = 100"
    "writer c = WLoop" "hbTimer_on c" "\<not> sendCh_closed c" "\<not> panicked c"
    using fill_sendCh[of 100] by blast
  let ?c = "c\<lparr>hbTimer_on := False, writer := WSendHeartbeat (Encode (NewMessage MsgHeartbeat []))\<rparr>"
  have "conn_step c ?c" using c(3,4,6) by (intro step_writer write_timer)
  with c(1) have "conn_reachable (NewConn addr input 5 5 False) ?c" by (rule conn_next)
  moreover have st: "stalled ?c" using c by (simp add: stalled_def)
  ultimately show ?thesis using stalled_step[OF st] stalled_no_write[OF st] by blast
qed

theorem heartbeat_stalls_writer_witness:
  "\<exists>c. conn_reachable (NewConn ''peer'' [] 5 5 False) c \<and> stalled c \<and> (\<forall>c'. \<not> writer_step c c')"
  using heartbeat_stalls_writer[of "''peer''" "[]"] by blast

end
