(* ===== verification/Go_Maps.thy ===== *)
theory Go_Maps
  imports Go_Strings "HOL-Library.AList"
begin

text \<open>
  Go maps.  A non-nil map is an association list with distinct keys whose order stands for one
  iteration order (Go leaves it open; the theorems hold for every order); \<^const>\<open>None\<close> is the
  nil map, on which reads and \<^verbatim>\<open>delete\<close> are harmless and an assignment panics.  The locale
  \<open>kv_store\<close> is the contract the clients of a table rely on; it is interpreted on the
  association lists that the process table, the proxy table and the session table use.
\<close>

section \<open>The contract of a key-value table\<close>

locale kv_store =
  fixes lookup :: "'m \<Rightarrow> 'k \<Rightarrow> 'v option"
    and store :: "'k \<Rightarrow> 'v \<Rightarrow> 'm \<Rightarrow> 'm"
    and remove :: "'k \<Rightarrow> 'm \<Rightarrow> 'm"
    and wf :: "'m \<Rightarrow> bool"
  assumes lookup_store: "lookup (store k v m) k' = (if k' = k then Some v else lookup m k')"
    and lookup_remove: "lookup (remove k m) k' = (if k' = k then None else lookup m k')"
    and wf_store: "wf m \<Longrightarrow> wf (store k v m)"
    and wf_remove: "wf m \<Longrightarrow> wf (remove k m)"
begin

lemma remove_store: "lookup (remove k (store k v m)) k' = lookup (remove k m) k'"
  by (simp add: lookup_store lookup_remove)

lemma store_overwrites: "lookup (store k v (store k v' m)) k' = lookup (store k v m) k'"
  by (simp add: lookup_store)

lemma store_other: "k' \<noteq> k \<Longrightarrow> lookup (store k v m) k' = lookup m k'"
  by (simp add: lookup_store)

lemma remove_other: "k' \<noteq> k \<Longrightarrow> lookup (remove k m) k' = lookup m k'"
  by (simp add: lookup_remove)

lemma store_remove_commute:
  "k \<noteq> l \<Longrightarrow> lookup (store k v (remove l m)) k' = lookup (remove l (store k v m)) k'"
  by (simp add: lookup_store lookup_remove)

lemma lookup_fold_store:
  "lookup (fold (\<lambda>(k, v). store k v) kvs m) k' =
     (case map_of (rev kvs) k' of Some v \<Rightarrow> Some v | None \<Rightarrow> lookup m k')"
  by (induction kvs arbitrary: m) (auto simp: lookup_store map_add_def split: option.splits)

lemma wf_fold_store: "wf m \<Longrightarrow> wf (fold (\<lambda>(k, v). store k v) kvs m)"
  by (induction kvs arbitrary: m) (auto intro: wf_store)

end

section \<open>Association lists with distinct keys\<close>

abbreviation keys_distinct :: "('k \<times> 'v) list \<Rightarrow> bool" where
  "keys_distinct m \<equiv> distinct (map fst m)"

lemma keys_distinct_update: "keys_distinct m \<Longrightarrow> keys_distinct (AList.update k v m)"
  by (simp add: distinct_update)

lemma keys_distinct_delete: "keys_distinct m \<Longrightarrow> keys_distinct (AList.delete k m)"
  by (simp add: distinct_delete)

interpretation alist: kv_store map_of AList.update AList.delete keys_distinct
  by unfold_locales (auto simp: update_conv' delete_conv' distinct_update distinct_delete)

lemma set_update_sub: "set (AList.update k v m) \<subseteq> insert (k, v) (set m)"
  by (induction m) auto

lemma set_delete_sub: "set (AList.delete k m) \<subseteq> set m"
  by (induction m) auto

lemma delete_absent: "map_of m k = None \<Longrightarrow> AList.delete k m = m"
  by (induction m) (auto split: if_splits)

lemma map_of_delete: "map_of (AList.delete k m) = (map_of m)(k := None)"
  by (rule ext) (simp add: alist.lookup_remove)

lemma map_of_update: "map_of (AList.update k v m) = (map_of m)(k \<mapsto> v)"
  by (rule ext) (simp add: alist.lookup_store)

lemma map_of_update_same [simp]: "map_of (AList.update k v m) k = Some v"
  by (simp add: alist.lookup_store)

lemma map_of_delete_same [simp]: "map_of (AList.delete k m) k = None"
  by (simp add: alist.lookup_remove)

section \<open>Maps that may be nil\<close>

type_synonym 'v gomap = "(string \<times> 'v) list option"

definition mget :: "'v gomap \<Rightarrow> string \<Rightarrow> 'v option" where
  "mget m k = (case m of None \<Rightarrow> None | Some xs \<Rightarrow> map_of xs k)"

definition mput :: "string \<Rightarrow> 'v \<Rightarrow> 'v gomap \<Rightarrow> 'v gomap option" where
  "mput k v m = (case m of None \<Rightarrow> None | Some xs \<Rightarrow> Some (Some (AList.update k v xs)))"

definition mdel :: "string \<Rightarrow> 'v gomap \<Rightarrow> 'v gomap" where
  "mdel k m = map_option (AList.delete k) m"

definition entries :: "'v gomap \<Rightarrow> (string \<times> 'v) list" where
  "entries m = (case m of None \<Rightarrow> [] | Some xs \<Rightarrow> xs)"

definition gomap_ok :: "'v gomap \<Rightarrow> bool" where
  "gomap_ok m = keys_distinct (entries m)"

lemma entries_simps [simp]: "entries None = []" "entries (Some xs) = xs"
  by (simp_all add: entries_def)

lemma mget_entries: "mget m k = map_of (entries m) k"
  by (simp add: mget_def entries_def split: option.splits)

lemma mget_mdel [simp]: "mget (mdel k m) k' = (if k' = k then None else mget m k')"
  by (cases m) (auto simp: mget_def mdel_def alist.lookup_remove)

lemma mget_Some_list [simp]: "mget (Some xs) k = map_of xs k"
  by (simp add: mget_def)

lemma mput_nil [simp]: "mput k v None = None"
  by (simp add: mput_def)

lemma mput_Some [simp]: "mput k v (Some xs) = Some (Some (AList.update k v xs))"
  by (simp add: mput_def)

lemma mput_panics_iff: "mput k v m = None \<longleftrightarrow> m = None"
  by (simp add: mput_def split: option.splits)

lemma gomap_ok_mput: "gomap_ok m \<Longrightarrow> mput k v m = Some m' \<Longrightarrow> gomap_ok m'"
  by (auto simp: gomap_ok_def mput_def keys_distinct_update split: option.splits)

lemma gomap_ok_mdel: "gomap_ok m \<Longrightarrow> gomap_ok (mdel k m)"
  by (cases m) (auto simp: gomap_ok_def mdel_def keys_distinct_delete)

end
