(* ===== verification/Zero_Service.thy ===== *)
theory Zero_Service
  imports Zero_Conn Go_Maps
begin

text \<open>
  Sessions and the socket service of package \<^verbatim>\<open>util/zero\<close> (\<^verbatim>\<open>session.go\<close>, \<^verbatim>\<open>service.go\<close>).
  Connections live in a heap \<open>conns\<close> indexed by references, as sessions hold pointers to them;
  \<open>handlers\<close> lists the running \<^verbatim>\<open>connectHandler\<close> goroutines with the connection and session
  identifier each one holds.  The callbacks are user code: the model keeps whether each is
  registered.  The session identifier comes from \<^verbatim>\<open>uuid.NewV4\<close> and is an argument.
\<close>

section \<open>Sessions (session.go)\<close>

record 'v session =
  sID :: string
  uID :: string
  conn_ref :: nat
  settings :: "(string \<times> 'v) list"

definition NewSession :: "nat \<Rightarrow> string \<Rightarrow> 'v session" where
  "NewSession c sid = \<lparr>sID = sid, uID = '''', conn_ref = c, settings = []\<rparr>"

definition GetSessionID :: "'v session \<Rightarrow> string" where
  "GetSessionID s = sID s"

definition BindUserID :: "string \<Rightarrow> 'v session \<Rightarrow> 'v session" where
  "BindUserID uid s = s\<lparr>uID := uid\<rparr>"

definition GetUserID :: "'v session \<Rightarrow> string" where
  "GetUserID s = uID s"

definition GetConn :: "'v session \<Rightarrow> nat" where
  "GetConn s = conn_ref s"

definition SetConn :: "nat \<Rightarrow> 'v session \<Rightarrow> 'v session" where
  "SetConn c s = s\<lparr>conn_ref := c\<rparr>"

definition GetSetting :: "'v session \<Rightarrow> string \<Rightarrow> 'v option" where
  "GetSetting s key = map_of (settings s) key"

definition SetSetting :: "string \<Rightarrow> 'v \<Rightarrow> 'v session \<Rightarrow> 'v session" where
  "SetSetting key value s = s\<lparr>settings := AList.update key value (settings s)\<rparr>"

lemma GetSetting_SetSetting:
  "GetSetting (SetSetting k v s) k' = (if k' = k then Some v else GetSetting s k')"
  by (simp add: GetSetting_def SetSetting_def alist.lookup_store)

section \<open>The service (service.go)\<close>

record 'v service =
  onMessage :: bool
  onConnect :: bool
  onDisconnect :: bool
  sessions :: "(string \<times> 'v session) list"
  svc_hbInterval :: int
  svc_hbTimeout :: int
  laddr :: string
  status :: service_status
  listening :: bool
  conns :: "nat \<Rightarrow> conn option"
  next_conn :: nat
  handlers :: "(nat \<times> string) list"

datatype service_error = ListenError | HeartBeatOnRunning

definition NewSocketService :: "bool \<Rightarrow> string \<Rightarrow> service_error + 'v service" where
  "NewSocketService listen_ok addr =
     (if \<not> listen_ok then Inl ListenError
      else Inr \<lparr>onMessage = False, onConnect = False, onDisconnect = False, sessions = [],
                svc_hbInterval = 0, svc_hbTimeout = 0, laddr = addr, status = STInited,
                listening = True, conns = Map.empty, next_conn = 0, handlers = []\<rparr>)"

definition RegMessageHandler :: "'v service \<Rightarrow> 'v service" where
  "RegMessageHandler s = s\<lparr>onMessage := True\<rparr>"

definition RegConnectHandler :: "'v service \<Rightarrow> 'v service" where
  "RegConnectHandler s = s\<lparr>onConnect := True\<rparr>"

definition RegDisconnectHandler :: "'v service \<Rightarrow> 'v service" where
  "RegDisconnectHandler s = s\<lparr>onDisconnect := True\<rparr>"

text \<open>\<^verbatim>\<open>Serv\<close>: its entry, and the deferred function that runs when \<^verbatim>\<open>stopCh\<close> delivers.\<close>

definition Serv_begin :: "'v service \<Rightarrow> 'v service" where
  "Serv_begin s = s\<lparr>status := STRunning\<rparr>"

definition Serv_end :: "'v service \<Rightarrow> 'v service" where
  "Serv_end s = s\<lparr>status := STStop, listening := False,
                  conns := (\<lambda>r. map_option (\<lambda>c. c\<lparr>ctx_done := True\<rparr>) (conns s r))\<rparr>"

text \<open>\<^verbatim>\<open>connectHandler\<close>: its entry, and the end of its deferred function.\<close>

definition connect_begin :: "string \<Rightarrow> string \<Rightarrow> bool \<Rightarrow> string \<Rightarrow> 'v service \<Rightarrow> 'v service" where
  "connect_begin addr input fired sid s =
     (let r = next_conn s; c = NewConn addr input (svc_hbInterval s) (svc_hbTimeout s) fired;
          session = NewSession r sid
      in s\<lparr>conns := (conns s)(r \<mapsto> c), next_conn := r + 1,
           sessions := AList.update (GetSessionID session) session (sessions s),
           handlers := (r, sid) # handlers s\<rparr>)"

definition connect_end :: "nat \<Rightarrow> string \<Rightarrow> 'v service \<Rightarrow> 'v service" where
  "connect_end r sid s =
     s\<lparr>sessions := AList.delete sid (sessions s), handlers := remove1 (r, sid) (handlers s)\<rparr>"

definition GetStatus :: "'v service \<Rightarrow> service_status" where
  "GetStatus s = status s"

definition SetHeartBeat :: "int \<Rightarrow> int \<Rightarrow> 'v service \<Rightarrow> service_error + 'v service" where
  "SetHeartBeat interval timeout s =
     (if status s = STRunning then Inl HeartBeatOnRunning
      else Inr (s\<lparr>svc_hbInterval := interval, svc_hbTimeout := timeout\<rparr>))"

definition GetConnsCount :: "'v service \<Rightarrow> nat" where
  "GetConnsCount s = fold (\<lambda>_ count. count + 1) (sessions s) 0"

text \<open>Sending to one session; \<^const>\<open>None\<close> when the send blocks on a full channel.\<close>

definition send_to :: "'v service \<Rightarrow> nat \<Rightarrow> message \<Rightarrow> 'v service option" where
  "send_to s r msg =
     (case conns s r of
        None \<Rightarrow> Some s
      | Some c \<Rightarrow> map_option (\<lambda>c'. s\<lparr>conns := (conns s)(r \<mapsto> c')\<rparr>) (SendMessage c msg))"

definition Unicast :: "string \<Rightarrow> message \<Rightarrow> 'v service \<Rightarrow> 'v service option" where
  "Unicast sid msg s =
     (case map_of (sessions s) sid of
        None \<Rightarrow> Some s
      | Some session \<Rightarrow> send_to s (GetConn session) msg)"

fun broadcast_to :: "(string \<times> 'v session) list \<Rightarrow> message \<Rightarrow> 'v service \<Rightarrow> 'v service option" where
  "broadcast_to [] msg s = Some s"
| "broadcast_to ((k, v) # rest) msg s =
     (case send_to s (GetConn v) msg of
        None \<Rightarrow> None
      | Some s' \<Rightarrow> broadcast_to rest msg s')"

definition Broadcast :: "message \<Rightarrow> 'v service \<Rightarrow> 'v service option" where
  "Broadcast msg s = broadcast_to (sessions s) msg s"

inductive service_step :: "'v service \<Rightarrow> 'v service \<Rightarrow> bool" where
  svc_serv: "status s = STInited \<Longrightarrow> service_step s (Serv_begin s)"
| svc_accept: "status s = STRunning \<Longrightarrow> listening s \<Longrightarrow> sid \<notin> snd ` set (handlers s) \<Longrightarrow>
     service_step s (connect_begin addr input fired sid s)"
| svc_conn: "conns s r = Some c \<Longrightarrow> conn_step c c' \<Longrightarrow>
     service_step s (s\<lparr>conns := (conns s)(r \<mapsto> c')\<rparr>)"
| svc_end: "(r, sid) \<in> set (handlers s) \<Longrightarrow> conns s r = Some c \<Longrightarrow> handler c = HExit \<Longrightarrow>
     service_step s (connect_end r sid s)"
| svc_stop: "status s = STRunning \<Longrightarrow> service_step s (Serv_end s)"
| svc_heartbeat: "SetHeartBeat i t s = Inr s' \<Longrightarrow> service_step s s'"
| svc_unicast: "Unicast sid msg s = Some s' \<Longrightarrow> service_step s s'"
| svc_broadcast: "Broadcast msg s = Some s' \<Longrightarrow> service_step s s'"

inductive service_reachable :: "'v service \<Rightarrow> bool" where
  service_start: "NewSocketService True addr = Inr s \<Longrightarrow> service_reachable s"
| service_next: "service_reachable s \<Longrightarrow> service_step s s' \<Longrightarrow> service_reachable s'"

section \<open>The session table mirrors the running handlers\<close>

definition service_inv :: "'v service \<Rightarrow> bool" where
  "service_inv s =
     (keys_distinct (sessions s) \<and> distinct (map snd (handlers s)) \<and> distinct (map fst (handlers s)) \<and>
      fst ` set (sessions s) = snd ` set (handlers s) \<and>
      (\<forall>(r, sid)\<in>set (handlers s). r < next_conn s \<and> conns s r \<noteq> None))"

lemma send_to_frame:
  "send_to s r msg = Some s' \<Longrightarrow> sessions s' = sessions s \<and> handlers s' = handlers s \<and>
     next_conn s' = next_conn s \<and> status s' = status s \<and> dom (conns s') = dom (conns s)"
  by (auto simp: send_to_def split: option.splits if_splits)

lemma broadcast_to_frame:
  "broadcast_to ss msg s = Some s' \<Longrightarrow> sessions s' = sessions s \<and> handlers s' = handlers s \<and>
     next_conn s' = next_conn s \<and> status s' = status s \<and> dom (conns s') = dom (conns s)"
  by (induction ss msg s rule: broadcast_to.induct) (auto split: option.splits dest!: send_to_frame)

lemma Unicast_frame:
  "Unicast sid msg s = Some s' \<Longrightarrow> sessions s' = sessions s \<and> handlers s' = handlers s \<and>
     next_conn s' = next_conn s \<and> status s' = status s \<and> dom (conns s') = dom (conns s)"
  by (auto simp: Unicast_def split: option.splits dest!: send_to_frame)

lemma service_inv_frame:
  assumes "service_inv s"
    and "sessions s' = sessions s \<and> handlers s' = handlers s \<and> next_conn s' = next_conn s \<and>
         status s' = status s \<and> dom (conns s') = dom (conns s)"
  shows "service_inv s'"
proof -
  have "conns s' r \<noteq> None \<longleftrightarrow> conns s r \<noteq> None" for r
    using assms(2) by (metis domIff)
  with assms show ?thesis by (simp add: service_inv_def)
qed

lemma fst_set_update: "fst ` set (AList.update k v m) = insert k (fst ` set m)"
  using dom_update[of k v m] by (simp add: update_conv')

lemma fst_set_delete: "fst ` set (AList.delete k m) = fst ` set m - {k}"
  by (auto simp: AList.delete_eq)

lemma service_inv_accept:
  assumes "service_inv s" "sid \<notin> snd ` set (handlers s)"
  shows "service_inv (connect_begin addr input fired sid s)"
proof -
  have "next_conn s \<notin> fst ` set (handlers s)"
    using assms(1) by (fastforce simp: service_inv_def)
  with assms show ?thesis
    by (auto simp: service_inv_def connect_begin_def NewSession_def GetSessionID_def Let_def
        keys_distinct_update fst_set_update less_SucI)
qed

lemma service_inv_end:
  assumes "service_inv s" "(r, sid) \<in> set (handlers s)"
  shows "service_inv (connect_end r sid s)"
proof -
  let ?h = "remove1 (r, sid) (handlers s)"
  have d: "distinct (handlers s)" "inj_on snd (set (handlers s))" "inj_on fst (set (handlers s))"
    using assms(1) by (auto simp: service_inv_def distinct_map)
  then have h: "set ?h = set (handlers s) - {(r, sid)}" by simp
  have "snd ` set ?h = snd ` set (handlers s) - {sid}"
    unfolding h using inj_on_image_set_diff[OF d(2), of "set (handlers s)" "{(r, sid)}"] assms(2) by simp
  moreover have "distinct (map snd ?h)" "distinct (map fst ?h)"
    using d h by (simp_all add: distinct_map inj_on_diff)
  moreover have "\<forall>(r, sid)\<in>set ?h. r < next_conn s \<and> conns s r \<noteq> None"
    using assms(1) unfolding h by (auto simp: service_inv_def)
  ultimately show ?thesis using assms(1)
    by (simp add: service_inv_def connect_end_def keys_distinct_delete fst_set_delete del: set_remove1_eq)
qed

lemma service_step_inv: "service_step s s' \<Longrightarrow> service_inv s \<Longrightarrow> service_inv s'"
proof (induction rule: service_step.induct)
  case (svc_accept s sid addr input fired)
  then show ?case by (simp add: service_inv_accept)
next
  case (svc_end r sid s c)
  then show ?case by (simp add: service_inv_end)
next
  case (svc_heartbeat i t s s')
  then have "s' = s\<lparr>svc_hbInterval := i, svc_hbTimeout := t\<rparr>"
    by (simp add: SetHeartBeat_def split: if_splits)
  with svc_heartbeat show ?case by (simp add: service_inv_def)
next
  case (svc_unicast sid msg s s')
  then show ?case using Unicast_frame service_inv_frame by metis
next
  case (svc_broadcast msg s s')
  then show ?case using broadcast_to_frame service_inv_frame unfolding Broadcast_def by metis
qed (auto simp: service_inv_def Serv_begin_def Serv_end_def)

lemma service_reachable_inv: "service_reachable s \<Longrightarrow> service_inv s"
proof (induction rule: service_reachable.induct)
  case (service_start addr s)
  then show ?case by (auto simp: NewSocketService_def service_inv_def)
next
  case (service_next s s')
  then show ?case by (blast intro: service_step_inv)
qed

lemma GetConnsCount_length: "GetConnsCount s = length (sessions s)"
proof -
  have "fold (\<lambda>_ count. count + 1) xs n = n + length xs" for xs :: "(string \<times> 'a session) list" and n :: nat
    by (induction xs arbitrary: n) auto
  then show ?thesis by (simp add: GetConnsCount_def)
qed

lemma service_inv_count: "service_inv s \<Longrightarrow> GetConnsCount s = length (handlers s)"
proof -
  assume inv: "service_inv s"
  have "length (sessions s) = card (fst ` set (sessions s))"
    using inv by (metis service_inv_def distinct_card length_map set_map)
  also have "\<dots> = card (snd ` set (handlers s))"
    using inv by (simp add: service_inv_def)
  also have "\<dots> = length (handlers s)"
    using inv by (metis service_inv_def distinct_card length_map set_map)
  finally show ?thesis by (simp add: GetConnsCount_length)
qed

section \<open>Life cycle\<close>

fun phase :: "service_status \<Rightarrow> nat" where
  "phase STUnknown = 0"
| "phase STInited = 1"
| "phase STRunning = 2"
| "phase STStop = 3"

lemma service_step_phase: "service_step s s' \<Longrightarrow> phase (status s) \<le> phase (status s')"
proof (induction rule: service_step.induct)
  case (svc_unicast sid msg s s')
  then show ?case using Unicast_frame by (metis order_refl)
next
  case (svc_broadcast msg s s')
  then show ?case using broadcast_to_frame unfolding Broadcast_def by (metis order_refl)
qed (auto simp: Serv_begin_def Serv_end_def connect_begin_def connect_end_def SetHeartBeat_def Let_def
     split: if_splits)

section \<open>Connections left behind by Stop\<close>

definition abandoned :: "conn \<Rightarrow> bool" where
  "abandoned c = (ctx_done c \<and> reader c = RExit \<and> writer c = WExit \<and> handler c = HLoop \<and>
                  messageCh c = [] \<and> \<not> sendCh_closed c)"

lemma abandoned_step: "abandoned c \<Longrightarrow> conn_step c c' \<Longrightarrow> abandoned c'"
  unfolding abandoned_def
  by (erule conn_stepE)
     (auto elim!: reader_step.cases writer_step.cases handler_step.cases
       simp: SendMessage_def Let_def split: if_splits)

lemma abandoned_SendMessage: "abandoned c \<Longrightarrow> SendMessage c m = Some c' \<Longrightarrow> abandoned c'"
  by (auto simp: abandoned_def SendMessage_def Let_def split: if_splits)

definition leaked :: "nat \<Rightarrow> string \<Rightarrow> 'v service \<Rightarrow> bool" where
  "leaked r sid s = (status s = STStop \<and> (r, sid) \<in> set (handlers s) \<and> service_inv s \<and>
                     (\<exists>c. conns s r = Some c \<and> abandoned c))"

lemma send_to_leaked: "send_to s q msg = Some s' \<Longrightarrow> leaked r sid s \<Longrightarrow> leaked r sid s'"
proof -
  assume a: "send_to s q msg = Some s'" and l: "leaked r sid s"
  from a have "service_inv s'" using l send_to_frame[OF a] by (auto simp: leaked_def intro: service_inv_frame)
  moreover from l obtain c where c: "conns s r = Some c" "abandoned c" by (auto simp: leaked_def)
  have "\<exists>c'. conns s' r = Some c' \<and> abandoned c'"
  proof (cases "r = q")
    case True
    with a c(1) obtain z where "SendMessage c msg = Some z" "conns s' r = Some z"
      by (auto simp: send_to_def)
    with abandoned_SendMessage[OF c(2)] show ?thesis by blast
  next
    case False
    with a c show ?thesis by (auto simp: send_to_def split: option.splits)
  qed
  ultimately show ?thesis using l send_to_frame[OF a] by (simp add: leaked_def)
qed

lemma broadcast_to_leaked:
  "broadcast_to ss msg s = Some s' \<Longrightarrow> leaked r sid s \<Longrightarrow> leaked r sid s'"
  by (induction ss msg s rule: broadcast_to.induct) (auto split: option.splits dest: send_to_leaked)

lemma leaked_step:
  assumes "service_step s s'" "leaked r sid s"
  shows "leaked r sid s'"
proof -
  have inv: "service_inv s'" using assms service_step_inv by (auto simp: leaked_def)
  from assms(1) show ?thesis
  proof (cases rule: service_step.cases)
    case (svc_conn q c c')
    with assms(2) inv show ?thesis by (auto simp: leaked_def abandoned_step)
  next
    case (svc_end q sid' c)
    from assms(2) obtain d where d: "conns s r = Some d" "handler d = HLoop" "(r, sid) \<in> set (handlers s)"
      by (auto simp: leaked_def abandoned_def)
    with svc_end have "r \<noteq> q" by auto
    with d(3) have "(r, sid) \<in> set (remove1 (q, sid') (handlers s))" by simp
    with svc_end assms(2) inv show ?thesis by (auto simp: leaked_def connect_end_def)
  next
    case (svc_unicast sid' msg)
    with assms(2) show ?thesis by (auto simp: Unicast_def send_to_leaked split: option.splits)
  next
    case (svc_broadcast msg)
    with assms(2) show ?thesis by (auto simp: Broadcast_def broadcast_to_leaked)
  qed (use assms(2) inv in \<open>auto simp: leaked_def SetHeartBeat_def split: if_splits\<close>)
qed

inductive service_run :: "'v service \<Rightarrow> 'v service \<Rightarrow> bool" where
  run_refl: "service_run s s"
| run_step: "service_run s t \<Longrightarrow> service_step t u \<Longrightarrow> service_run s u"

lemma service_run_leaked: "service_run s s' \<Longrightarrow> leaked r sid s \<Longrightarrow> leaked r sid s'"
  by (induction rule: service_run.induct) (auto intro: leaked_step)

section \<open>Properties\<close>


lemma accept_reachable:
  assumes "NewSocketService True addr = Inr s"
  shows "service_reachable (connect_begin peer input fired sid (Serv_begin s))"
proof -
  from assms have s: "status s = STInited" "handlers s = []" "listening s"
    by (auto simp: NewSocketService_def)
  have "service_reachable (Serv_begin s)"
    using service_next[OF service_start[OF assms] svc_serv] s(1) .
  moreover have "service_step (Serv_begin s) (connect_begin peer input fired sid (Serv_begin s))"
    using s by (intro svc_accept) (auto simp: Serv_begin_def)
  ultimately show ?thesis by (rule service_next)
qed


text \<open>
  \<^verbatim>\<open>SetHeartBeat\<close> is refused exactly while the service runs, and otherwise sets the two
  intervals, which every connection accepted afterwards gets.
\<close>

theorem SetHeartBeat_spec:
  "SetHeartBeat i t s =
     (if GetStatus s = STRunning then Inl HeartBeatOnRunning
      else Inr (s\<lparr>svc_hbInterval := i, svc_hbTimeout := t\<rparr>)) \<and>
   (case SetHeartBeat i t s of
      Inl _ \<Rightarrow> True
    | Inr s' \<Rightarrow> (case conns (connect_begin addr input fired sid (Serv_begin s')) (next_conn s) of
                 Some c \<Rightarrow> hbInterval c = i \<and> hbTimeout c = t
               | None \<Rightarrow> False))"
  by (simp add: SetHeartBeat_def GetStatus_def connect_begin_def Serv_begin_def NewConn_def Let_def)

text \<open>
  Stopping the service cancels its connections but does not end their handlers: a
  connection whose two goroutines have left after \<^verbatim>\<open>Stop\<close> keeps its handler, its session and
  its open socket in every later state.
\<close>

theorem stopped_service_leaks_connections:
  assumes "service_run s s'" and "leaked r sid s"
  shows "(r, sid) \<in> set (handlers s') \<and> sid \<in> fst ` set (sessions s') \<and>
         (\<exists>c. conns s' r = Some c \<and> \<not> sendCh_closed c)"
proof -
  have "leaked r sid s'" using assms by (rule service_run_leaked)
  moreover from this have "sid \<in> snd ` set (handlers s')" by (force simp: leaked_def)
  ultimately show ?thesis by (auto simp: leaked_def service_inv_def abandoned_def)
qed

theorem stopped_service_leaks_connections_witness:
  "\<exists>s :: nat service. service_reachable s \<and> leaked 0 ''id-1'' s \<and> ''id-1'' \<in> fst ` set (sessions s)"
proof -
  obtain s0 :: "nat service" where s0: "NewSocketService True '':18787'' = Inr s0"
    by (simp add: NewSocketService_def)
  define s1 where "s1 = connect_begin ''peer'' [] False ''id-1'' (Serv_begin s0)"
  define c where "c = (NewConn ''peer'' [] 0 0 False)\<lparr>ctx_done := True\<rparr>"
  define s2 where "s2 = Serv_end s1"
  define s3 where "s3 = s2\<lparr>conns := (conns s2)(0 \<mapsto> c\<lparr>reader := RExit\<rparr>)\<rparr>"
  define s4 where "s4 = s3\<lparr>conns := (conns s3)(0 \<mapsto> c\<lparr>reader := RExit, writer := WExit\<rparr>)\<rparr>"
  note defs = s1_def s2_def s3_def s4_def c_def connect_begin_def Serv_begin_def Serv_end_def Let_def
  have s0': "next_conn s0 = 0" "svc_hbInterval s0 = 0" "svc_hbTimeout s0 = 0" "handlers s0 = []"
    using s0 by (auto simp: NewSocketService_def)
  have r1: "service_reachable s1" unfolding s1_def using s0 by (rule accept_reachable)
  have "service_step s1 s2" unfolding s2_def by (rule svc_stop) (simp add: defs)
  moreover have "service_step s2 s3" unfolding s3_def
  proof (rule svc_conn)
    show "conns s2 0 = Some c" using s0' by (simp add: defs)
    show "conn_step c (c\<lparr>reader := RExit\<rparr>)"
      by (rule step_reader, simp add: c_def NewConn_def) (rule read_cancelled, simp_all add: c_def NewConn_def)
  qed
  moreover have "service_step s3 s4" unfolding s4_def
  proof (rule svc_conn)
    show "conns s3 0 = Some (c\<lparr>reader := RExit\<rparr>)" by (simp add: s3_def)
    show "conn_step (c\<lparr>reader := RExit\<rparr>) (c\<lparr>reader := RExit, writer := WExit\<rparr>)"
      using step_writer[OF _ write_cancelled[of "c\<lparr>reader := RExit\<rparr>"]] by (simp add: c_def NewConn_def)
  qed
  ultimately have r4: "service_reachable s4" using r1 by (meson service_next)
  have "leaked 0 ''id-1'' s4"
    using service_reachable_inv[OF r4] s0'
    by (auto simp: leaked_def abandoned_def s4_def s3_def c_def NewConn_def)
       (simp_all add: defs)
  from stopped_service_leaks_connections[OF run_refl this] this r4 show ?thesis by blast
qed

end
