(* ===== verification/Go_Text.thy ===== *)
theory Go_Text
  imports Go_Encoding
begin

text \<open>
  UTF-8 (package \<^verbatim>\<open>unicode/utf8\<close>) and the string literals of \<^verbatim>\<open>encoding/json\<close>: how
  \<^verbatim>\<open>json.Marshal\<close> quotes a string (HTML escaping included, U+FFFD for bytes that are not valid
  UTF-8) and how \<^verbatim>\<open>json.Unmarshal\<close> reads a literal back.
\<close>

section \<open>UTF-8\<close>

definition is_cont :: "char \<Rightarrow> bool" where
  "is_cont c = (128 \<le> byte_of c \<and> byte_of c \<le> 191)"

text \<open>
  The number of bytes the first byte of a rune announces, the ranges its other bytes must
  be in, and the length of the rune at the head of a string: 0 when it is not valid UTF-8.
\<close>

definition rune_need :: "nat \<Rightarrow> nat" where
  "rune_need b =
     (if b < 128 then 1
      else if 194 \<le> b \<and> b \<le> 223 then 2
      else if 224 \<le> b \<and> b \<le> 239 then 3
      else if 240 \<le> b \<and> b \<le> 244 then 4
      else 0)"

definition rune_tail_ok :: "nat \<Rightarrow> string \<Rightarrow> bool" where
  "rune_tail_ok b ds =
     (list_all is_cont ds \<and>
      (case ds of
         [] \<Rightarrow> True
       | c1 # _ \<Rightarrow> (b = 224 \<longrightarrow> 160 \<le> byte_of c1) \<and> (b = 237 \<longrightarrow> byte_of c1 \<le> 159) \<and>
                    (b = 240 \<longrightarrow> 144 \<le> byte_of c1) \<and> (b = 244 \<longrightarrow> byte_of c1 \<le> 143)))"

fun rune_len :: "string \<Rightarrow> nat" where
  "rune_len [] = 0"
| "rune_len (c # cs) =
     (let k = rune_need (byte_of c); ds = take (k - 1) cs in
      if k \<noteq> 0 \<and> length ds = k - 1 \<and> rune_tail_ok (byte_of c) ds then k else 0)"

definition utf8_encode :: "nat \<Rightarrow> string" where
  "utf8_encode r =
     (if r < 128 then [char_of r]
      else if r < 2048 then [char_of (192 + r div 64), char_of (128 + r mod 64)]
      else if 55296 \<le> r \<and> r \<le> 57343 \<or> 1114111 < r then [CHR 0xEF, CHR 0xBF, CHR 0xBD]
      else if r < 65536 then [char_of (224 + r div 4096), char_of (128 + r div 64 mod 64), char_of (128 + r mod 64)]
      else [char_of (240 + r div 262144), char_of (128 + r div 4096 mod 64), char_of (128 + r div 64 mod 64), char_of (128 + r mod 64)])"

declare rune_len.simps(2) [simp del]

lemma rune_len_le: "rune_len s \<le> length s"
  by (cases s) (auto simp: rune_len.simps Let_def)

lemma rune_need_one: "rune_need b = 1 \<longleftrightarrow> b < 128"
  by (simp add: rune_need_def)

lemma rune_len_ascii [simp]: "byte_of c < 128 \<Longrightarrow> rune_len (c # cs) = 1"
  by (simp add: rune_len.simps rune_need_def rune_tail_ok_def)

lemma rune_len_one: "rune_len (c # cs) = 1 \<longleftrightarrow> byte_of c < 128"
  using rune_len_ascii[of c cs] rune_need_one[of "byte_of c"]
  by (auto simp: rune_len.simps Let_def split: if_splits)

lemma rune_len_append: "rune_len s \<noteq> 0 \<Longrightarrow> rune_len (take (rune_len s) s @ t) = rune_len s"
proof -
  assume n: "rune_len s \<noteq> 0"
  then obtain c cs where s: "s = c # cs" by (cases s) auto
  define k ds where "k = rune_need (byte_of c)" and "ds = take (k - 1) cs"
  have k: "rune_len s = k" "k \<noteq> 0" "length ds = k - 1" "rune_tail_ok (byte_of c) ds"
    using n unfolding s rune_len.simps Let_def k_def[symmetric] ds_def[symmetric]
    by (auto split: if_splits)
  have "take k s = c # ds" using k(2) unfolding s ds_def by (cases k) auto
  moreover have "take (k - 1) (ds @ t) = ds" using k(3) by simp
  ultimately show ?thesis
    using k unfolding k(1) by (simp add: rune_len.simps Let_def k_def[symmetric])
qed

lemma rune_len_line_sep:
  "is_cont d \<Longrightarrow> rune_len (CHR 0xE2 # CHR 0x80 # d # cs) = 3"
  by (simp add: rune_len.simps rune_need_def rune_tail_ok_def is_cont_def byte_of_def)

function valid_utf8 :: "string \<Rightarrow> bool" where
  "valid_utf8 s =
     (if s = [] then True
      else if rune_len s = 0 then False
      else valid_utf8 (drop (rune_len s) s))"
  by pat_completeness auto
termination
  by (relation "measure length") auto

declare valid_utf8.simps [simp del]

lemma valid_utf8_Nil [simp]: "valid_utf8 []"
  by (simp add: valid_utf8.simps)

lemma valid_utf8_Cons_ascii [simp]: "byte_of c < 128 \<Longrightarrow> valid_utf8 (c # cs) = valid_utf8 cs"
  by (simp add: valid_utf8.simps[of "c # cs"])

lemma valid_utf8_ascii: "\<forall>c\<in>set s. byte_of c < 128 \<Longrightarrow> valid_utf8 s"
  by (induction s) simp_all

lemma valid_utf8_append: "valid_utf8 s \<Longrightarrow> valid_utf8 t \<Longrightarrow> valid_utf8 (s @ t)"
proof (induction s rule: valid_utf8.induct)
  case (1 s)
  show ?case
  proof (cases "s = []")
    case True
    with 1 show ?thesis by simp
  next
    case False
    have n: "rune_len s \<noteq> 0" using 1(2) False by (auto simp: valid_utf8.simps[of s] split: if_splits)
    have "s @ t = take (rune_len s) s @ (drop (rune_len s) s @ t)" by simp
    then have "rune_len (s @ t) = rune_len s" using rune_len_append[OF n] by metis
    moreover have "valid_utf8 (drop (rune_len s) s @ t)"
      using 1 False n by (simp add: valid_utf8.simps[of s])
    moreover have "drop (rune_len s) (s @ t) = drop (rune_len s) s @ t" using rune_len_le[of s] by simp
    ultimately show ?thesis using n by (simp add: valid_utf8.simps[of "s @ t"])
  qed
qed

section \<open>String literals\<close>

definition u_escape :: "nat \<Rightarrow> string" where
  "u_escape n = [CHR 0x5C, CHR ''u'', hex_char (n div 4096 mod 16), hex_char (n div 256 mod 16),
                 hex_char (n div 16 mod 16), hex_char (n mod 16)]"

definition esc_char :: "char \<Rightarrow> string" where
  "esc_char c =
     (if c = CHR 0x22 then [CHR 0x5C, CHR 0x22]
      else if c = CHR 0x5C then [CHR 0x5C, CHR 0x5C]
      else if c = CHR 0x0A then [CHR 0x5C, CHR ''n'']
      else if c = CHR 0x0D then [CHR 0x5C, CHR ''r'']
      else if c = CHR 0x09 then [CHR 0x5C, CHR ''t'']
      else if byte_of c < 32 \<or> c = CHR ''<'' \<or> c = CHR ''>'' \<or> c = CHR ''&'' then u_escape (byte_of c)
      else [c])"

function quote_body :: "string \<Rightarrow> string" where
  "quote_body [] = []"
| "quote_body (c # cs) =
     (let n = rune_len (c # cs) in
      if n = 0 then u_escape 65533 @ quote_body cs
      else if n = 1 then esc_char c @ quote_body cs
      else if take 3 (c # cs) = [CHR 0xE2, CHR 0x80, CHR 0xA8] then u_escape 8232 @ quote_body (drop 3 (c # cs))
      else if take 3 (c # cs) = [CHR 0xE2, CHR 0x80, CHR 0xA9] then u_escape 8233 @ quote_body (drop 3 (c # cs))
      else take n (c # cs) @ quote_body (drop n (c # cs)))"
  by pat_completeness auto
termination
  by (relation "measure length") auto

declare quote_body.simps(2) [simp del]

definition json_quote :: "string \<Rightarrow> string" where
  "json_quote s = CHR 0x22 # quote_body s @ [CHR 0x22]"

fun hex4 :: "string \<Rightarrow> (nat \<times> string) option" where
  "hex4 (a # b # c # d # rest) =
     (case (hex_val a, hex_val b, hex_val c, hex_val d) of
        (Some p, Some q, Some r, Some t) \<Rightarrow> Some (p * 4096 + q * 256 + r * 16 + t, rest)
      | _ \<Rightarrow> None)"
| "hex4 _ = None"

lemma hex4_length: "hex4 s = Some (n, r) \<Longrightarrow> length r < length s"
  by (induction s rule: hex4.induct) (auto split: option.splits)

text \<open>An escape after the backslash: its bytes and the rest of the input.\<close>

definition unescape :: "string \<Rightarrow> (string \<times> string) option" where
  "unescape s =
     (case s of
        [] \<Rightarrow> None
      | c # rest \<Rightarrow>
          if c = CHR 0x22 \<or> c = CHR 0x5C \<or> c = CHR ''/'' then Some ([c], rest)
          else if c = CHR ''b'' then Some ([CHR 0x08], rest)
          else if c = CHR ''f'' then Some ([CHR 0x0C], rest)
          else if c = CHR ''n'' then Some ([CHR 0x0A], rest)
          else if c = CHR ''r'' then Some ([CHR 0x0D], rest)
          else if c = CHR ''t'' then Some ([CHR 0x09], rest)
          else if c = CHR ''u'' then
            (case hex4 rest of
               None \<Rightarrow> None
             | Some (r, rest1) \<Rightarrow>
                 if 55296 \<le> r \<and> r \<le> 56319 then
                   (case (if take 2 rest1 = [CHR 0x5C, CHR ''u''] then hex4 (drop 2 rest1) else None) of
                      Some (r2, rest2) \<Rightarrow>
                        if 56320 \<le> r2 \<and> r2 \<le> 57343
                        then Some (utf8_encode (65536 + (r - 55296) * 1024 + (r2 - 56320)), rest2)
                        else Some (utf8_encode 65533, rest1)
                    | None \<Rightarrow> Some (utf8_encode 65533, rest1))
                 else Some (utf8_encode r, rest1))
          else None)"

lemma unescape_length: "unescape s = Some (x, r) \<Longrightarrow> length r < length s"
  by (cases s)
     (auto simp: unescape_def split: if_splits option.splits prod.splits dest!: hex4_length)

text \<open>The rest of a string literal after its opening quote.\<close>

function parse_str :: "string \<Rightarrow> (string \<times> string) option" where
  "parse_str [] = None"
| "parse_str (c # cs) =
     (if c = CHR 0x22 then Some ([], cs)
      else if c = CHR 0x5C then
        (case unescape cs of
           None \<Rightarrow> None
         | Some (x, rest) \<Rightarrow> map_option (\<lambda>(s, r). (x @ s, r)) (parse_str rest))
      else if byte_of c < 32 then None
      else (let n = rune_len (c # cs) in
            if n = 0 then map_option (\<lambda>(s, r). ([CHR 0xEF, CHR 0xBF, CHR 0xBD] @ s, r)) (parse_str cs)
            else map_option (\<lambda>(s, r). (take n (c # cs) @ s, r)) (parse_str (drop n (c # cs)))))"
  by pat_completeness auto
termination
  by (relation "measure length") (auto dest: unescape_length)

declare parse_str.simps(2) [simp del]

lemma hex4_u_escape:
  "n < 65536 \<Longrightarrow> hex4 (drop 2 (u_escape n) @ t) = Some (n, t)"
proof -
  assume "n < 65536"
  define q1 q2 q3 where "q1 = n div 16" "q2 = q1 div 16" "q3 = q2 div 16"
  note q = this
  have "n = 16 * q1 + n mod 16" "q1 = 16 * q2 + q1 mod 16" "q2 = 16 * q3 + q2 mod 16"
    unfolding q by simp_all
  moreover have "q3 < 16" using \<open>n < 65536\<close> unfolding q by (simp add: div_mult2_eq[symmetric] less_mult_imp_div_less)
  moreover have "n div 4096 = q3" "n div 256 = q2" unfolding q by (simp_all add: div_mult2_eq[symmetric])
  moreover have "q3 mod 16 = q3" using \<open>q3 < 16\<close> by simp
  ultimately have "n div 4096 mod 16 * 4096 + n div 256 mod 16 * 256 + n div 16 mod 16 * 16 + n mod 16 = n"
    using q(1) by (simp only:)
  then show ?thesis unfolding u_escape_def by (simp only: drop_Suc_Cons numeral_2_eq_2 drop_0 append_Cons append_Nil hex4.simps)
     (simp only: hex_val_hex_char mod_less_divisor zero_less_numeral prod.case option.case)
qed

lemma unescape_u_escape:
  "n < 65536 \<Longrightarrow> n < 55296 \<or> 57343 < n \<Longrightarrow> unescape (tl (u_escape n) @ t) = Some (utf8_encode n, t)"
  using hex4_u_escape[of n t] by (auto simp: unescape_def u_escape_def)

lemma parse_str_u_escape:
  "n < 65536 \<Longrightarrow> n < 55296 \<or> 57343 < n \<Longrightarrow>
   parse_str (u_escape n @ t) = map_option (\<lambda>(s, r). (utf8_encode n @ s, r)) (parse_str t)"
  using unescape_u_escape[of n t] by (simp add: u_escape_def parse_str.simps)

lemma parse_str_esc_char:
  assumes "byte_of c < 128"
  shows "parse_str (esc_char c @ t) = map_option (\<lambda>(s, r). (c # s, r)) (parse_str t)"
proof (cases "c = CHR 0x22 \<or> c = CHR 0x5C \<or> c = CHR 0x0A \<or> c = CHR 0x0D \<or> c = CHR 0x09")
  case True
  then show ?thesis by (auto simp: esc_char_def parse_str.simps unescape_def)
next
  case False
  show ?thesis
  proof (cases "byte_of c < 32 \<or> c = CHR ''<'' \<or> c = CHR ''>'' \<or> c = CHR ''&''")
    case True
    with False have "esc_char c = u_escape (byte_of c)" by (simp add: esc_char_def)
    then show ?thesis using assms parse_str_u_escape[of "byte_of c" t] by (simp add: utf8_encode_def)
  next
    case plain: False
    with False have "esc_char c = [c]" by (simp add: esc_char_def)
    with False plain assms show ?thesis by (simp add: parse_str.simps)
  qed
qed

lemma parse_str_rune:
  assumes "rune_len s = n" "1 < n"
  shows "parse_str (take n s @ t) = map_option (\<lambda>(x, r). (take n s @ x, r)) (parse_str t)"
proof -
  from assms obtain c cs where s: "s = c # cs" by (cases s) auto
  then obtain ds where ds: "take n s = c # ds" using assms(2) by (cases n) auto
  have b: "128 \<le> byte_of c" using assms s rune_len_one[of c cs] by (auto simp: rune_len.simps Let_def split: if_splits)
  then have c: "c \<noteq> CHR 0x22" "c \<noteq> CHR 0x5C" "\<not> byte_of c < 32" by (auto simp: byte_of_def)
  have r: "rune_len (c # ds @ t) = n" using rune_len_append[of s t] assms ds by simp
  have "length (c # ds) = n" using ds rune_len_le[of s] assms(1) by (metis length_take min.absorb2)
  then have "take n (c # ds @ t) = c # ds" "drop n (c # ds @ t) = t" by auto
  then show ?thesis using c r assms(2) by (simp add: ds parse_str.simps)
qed

lemma utf8_line_seps:
  "utf8_encode 8232 = [CHR 0xE2, CHR 0x80, CHR 0xA8]" "utf8_encode 8233 = [CHR 0xE2, CHR 0x80, CHR 0xA9]"
  by (simp_all add: utf8_encode_def char_of_def bit_0)

lemma quote_body_rune:
  assumes "s = c # cs" "rune_len s = n" "1 < n"
  obtains (copy) "quote_body s = take n s @ quote_body (drop n s)"
  | (sep) k where "k = 8232 \<or> k = 8233" "s = utf8_encode k @ drop n s"
      "quote_body s = u_escape k @ quote_body (drop n s)"
proof -
  consider (a) "take 3 s = [CHR 0xE2, CHR 0x80, CHR 0xA8]" | (b) "take 3 s = [CHR 0xE2, CHR 0x80, CHR 0xA9]"
    | (c) "take 3 s \<noteq> [CHR 0xE2, CHR 0x80, CHR 0xA8]" "take 3 s \<noteq> [CHR 0xE2, CHR 0x80, CHR 0xA9]"
    by blast
  then show thesis
  proof cases
    case a
    then obtain r where s: "s = [CHR 0xE2, CHR 0x80, CHR 0xA8] @ r" by (metis append_take_drop_id)
    then have "n = 3" using assms(2) rune_len_line_sep[of "CHR 0xA8" r]
      by (simp add: is_cont_def byte_of_def)
    with s show ?thesis by (intro sep[of 8232]) (simp_all add: utf8_line_seps quote_body.simps rune_len_line_sep is_cont_def byte_of_def)
  next
    case b
    then obtain r where s: "s = [CHR 0xE2, CHR 0x80, CHR 0xA9] @ r" by (metis append_take_drop_id)
    then have "n = 3" using assms(2) rune_len_line_sep[of "CHR 0xA9" r]
      by (simp add: is_cont_def byte_of_def)
    with s show ?thesis by (intro sep[of 8233]) (simp_all add: utf8_line_seps quote_body.simps rune_len_line_sep is_cont_def byte_of_def)
  next
    case c
    with assms show ?thesis by (intro copy) (simp only: quote_body.simps Let_def if_False if_True, simp)
  qed
qed

lemma parse_str_quote:
  "valid_utf8 s \<Longrightarrow> parse_str (quote_body s @ CHR 0x22 # rest) = Some (s, rest)"
proof (induction s rule: valid_utf8.induct)
  case (1 s)
  show ?case
  proof (cases s)
    case Nil
    then show ?thesis by (simp add: parse_str.simps)
  next
    case (Cons c cs)
    define n where "n = rune_len s"
    from Cons "1.prems" have n: "n \<noteq> 0" and v: "valid_utf8 (drop n s)"
      unfolding n_def by (simp_all add: valid_utf8.simps[of "c # cs"] split: if_splits)
    have IH: "parse_str (quote_body (drop n s) @ CHR 0x22 # rest) = Some (drop n s, rest)"
      using "1.IH" Cons n v unfolding n_def by simp
    show ?thesis
    proof (cases "n = 1")
      case True
      with Cons have "byte_of c < 128" unfolding n_def using rune_len_one[of c cs] by blast
      with True Cons IH show ?thesis by (simp add: quote_body.simps parse_str_esc_char)
    next
      case False
      with n have n1: "1 < n" by simp
      from Cons n_def[symmetric] n1 show ?thesis
      proof (cases rule: quote_body_rune)
        case copy
        then show ?thesis using parse_str_rune[OF n_def[symmetric] n1] IH by simp
      next
        case (sep k)
        then show ?thesis using parse_str_u_escape[of k "quote_body (drop n s) @ CHR 0x22 # rest"] IH
          by auto
      qed
    qed
  qed
qed

section \<open>A literal never spans lines\<close>

lemma hex_char_not_newline: "n < 16 \<Longrightarrow> hex_char n \<noteq> CHR 0x0A"
  using hex_val_hex_char[of n] by (auto simp: hex_val_def byte_of_def)

lemma u_escape_no_newline: "CHR 0x0A \<notin> set (u_escape n)"
  using hex_char_not_newline[of "n mod 16"] hex_char_not_newline[of "n div 16 mod 16"]
    hex_char_not_newline[of "n div 256 mod 16"] hex_char_not_newline[of "n div 4096 mod 16"]
  by (auto simp: u_escape_def)

lemma esc_char_no_newline: "CHR 0x0A \<notin> set (esc_char c)"
  using u_escape_no_newline by (auto simp: esc_char_def)

lemma rune_no_newline:
  assumes "rune_len (c # cs) \<noteq> 0" "rune_len (c # cs) \<noteq> 1"
  shows "CHR 0x0A \<notin> set (take (rune_len (c # cs)) (c # cs))"
proof -
  define k where "k = rune_need (byte_of c)"
  have k: "rune_len (c # cs) = k" "rune_tail_ok (byte_of c) (take (k - 1) cs)" "k \<noteq> 0"
    using assms(1) by (auto simp: rune_len.simps Let_def k_def split: if_splits)
  have "128 \<le> byte_of c" using assms(2) rune_len_one[of c cs] by simp
  then have "c \<noteq> CHR 0x0A" by (auto simp: byte_of_def)
  moreover have "list_all is_cont (take (k - 1) cs)" using k(2) by (simp add: rune_tail_ok_def)
  then have "CHR 0x0A \<notin> set (take (k - 1) cs)"
    by (auto simp: list_all_iff is_cont_def byte_of_def)
  ultimately show ?thesis using k(1,3) by (cases k) auto
qed

lemma quote_body_no_newline: "CHR 0x0A \<notin> set (quote_body s)"
proof (induction s rule: quote_body.induct)
  case 1
  show ?case by simp
next
  case (2 c cs)
  then show ?case
    using u_escape_no_newline esc_char_no_newline rune_no_newline[of c cs]
    by (auto simp: quote_body.simps(2) Let_def simp del: take_Suc_Cons)
qed

lemma json_quote_no_newline: "CHR 0x0A \<notin> set (json_quote s)"
  using quote_body_no_newline by (auto simp: json_quote_def)

end
