(* ===== verification/Go_Json.thy ===== *)
theory Go_Json
  imports Go_Text Go_Maps "HOL-Library.List_Lexorder" "HOL-Library.Char_ord" "HOL-Library.Multiset"
begin

text \<open>
  Package \<^verbatim>\<open>encoding/json\<close> as the agent uses it: \<open>json_print\<close> is the compact text of
  \<^verbatim>\<open>json.Marshal\<close>, \<open>json_parse\<close> the syntax that \<^verbatim>\<open>json.Unmarshal\<close> accepts, and
  \<open>dec_struct\<close> the assignment of an object's members to the fields of a struct (exact field
  name first, then a name that agrees up to case; a member of the wrong type leaves its field
  unchanged and makes \<^verbatim>\<open>Unmarshal\<close> return an error at the end).  Numbers keep their literal
  text.  The limit of 10000 nesting levels is not modelled: the documents of the agent are at
  most two deep.
\<close>

section \<open>Values\<close>

datatype json = JNull | JBool bool | JNum string | JStr string | JArr "json list" | JObj "(string \<times> json) list"

definition comma_sep :: "string list \<Rightarrow> string" where
  "comma_sep xs = Join xs [CHR '','']"

fun json_print :: "json \<Rightarrow> string" where
  "json_print JNull = ''null''"
| "json_print (JBool b) = (if b then ''true'' else ''false'')"
| "json_print (JNum s) = s"
| "json_print (JStr s) = json_quote s"
| "json_print (JArr xs) = CHR ''['' # comma_sep (map json_print xs) @ [CHR '']'']"
| "json_print (JObj kvs) =
     CHR ''{'' # comma_sep (map (\<lambda>(k, v). json_quote k @ [CHR '':''] @ json_print v) kvs) @ [CHR ''}'']"

fun skip_ws :: "string \<Rightarrow> string" where
  "skip_ws [] = []"
| "skip_ws (c # cs) = (if c = CHR 0x20 \<or> c = CHR 0x09 \<or> c = CHR 0x0D \<or> c = CHR 0x0A then skip_ws cs else c # cs)"

lemma length_skip_ws: "length (skip_ws s) \<le> length s"
  by (induction s) auto

fun span_digits :: "string \<Rightarrow> string \<times> string" where
  "span_digits [] = ([], [])"
| "span_digits (c # cs) = (if is_digit c then (let (a, b) = span_digits cs in (c # a, b)) else ([], c # cs))"

text \<open>The literal of a JSON number, in its three parts.\<close>

definition num_int :: "string \<Rightarrow> (string \<times> string) option" where
  "num_int s =
     (case s of
        [] \<Rightarrow> None
      | c # cs \<Rightarrow> if c = CHR ''0'' then Some ([c], cs)
                  else if is_digit c then Some (span_digits (c # cs)) else None)"

definition num_frac :: "string \<Rightarrow> (string \<times> string) option" where
  "num_frac s =
     (case s of
        c # cs \<Rightarrow> if c = CHR ''.'' then
                    (let (a, b) = span_digits cs in if a = [] then None else Some (c # a, b))
                  else Some ([], s)
      | [] \<Rightarrow> Some ([], []))"

definition num_exp :: "string \<Rightarrow> (string \<times> string) option" where
  "num_exp s =
     (case s of
        c # cs \<Rightarrow> if c = CHR ''e'' \<or> c = CHR ''E'' then
                    (let (sg, ds) = (case cs of d # r \<Rightarrow> if d = CHR ''+'' \<or> d = CHR ''-'' then ([d], r) else ([], cs)
                                             | [] \<Rightarrow> ([], []));
                         (a, b) = span_digits ds
                     in if a = [] then None else Some (c # sg @ a, b))
                  else Some ([], s)
      | [] \<Rightarrow> Some ([], []))"

definition parse_num :: "string \<Rightarrow> (string \<times> string) option" where
  "parse_num s =
     (let (sg, r0) = (case s of c # cs \<Rightarrow> if c = CHR ''-'' then ([c], cs) else ([], s) | [] \<Rightarrow> ([], [])) in
      case num_int r0 of
        None \<Rightarrow> None
      | Some (i, r1) \<Rightarrow>
          (case num_frac r1 of
             None \<Rightarrow> None
           | Some (f, r2) \<Rightarrow>
               (case num_exp r2 of
                  None \<Rightarrow> None
                | Some (e, r3) \<Rightarrow> Some (sg @ i @ f @ e, r3))))"

text \<open>
  Values, array elements and object members, with fuel; \<open>json_parse\<close> gives a fuel of one
  more than twice the length of the input, and every call consumes a byte or ends a level.
\<close>

fun parse_value :: "nat \<Rightarrow> string \<Rightarrow> (json \<times> string) option"
and parse_elems :: "nat \<Rightarrow> string \<Rightarrow> (json list \<times> string) option"
and parse_members :: "nat \<Rightarrow> string \<Rightarrow> ((string \<times> json) list \<times> string) option" where
  "parse_value 0 s = None"
| "parse_value (Suc n) s =
     (case skip_ws s of
        [] \<Rightarrow> None
      | c # cs \<Rightarrow>
          if c = CHR 0x22 then map_option (\<lambda>(x, r). (JStr x, r)) (parse_str cs)
          else if c = CHR ''{'' then
            (case skip_ws cs of
               d # ds \<Rightarrow> if d = CHR ''}'' then Some (JObj [], ds)
                         else map_option (\<lambda>(kvs, r). (JObj kvs, r)) (parse_members n cs)
             | [] \<Rightarrow> None)
          else if c = CHR ''['' then
            (case skip_ws cs of
               d # ds \<Rightarrow> if d = CHR '']'' then Some (JArr [], ds)
                         else map_option (\<lambda>(xs, r). (JArr xs, r)) (parse_elems n cs)
             | [] \<Rightarrow> None)
          else if HasPrefix (c # cs) ''null'' then Some (JNull, drop 4 (c # cs))
          else if HasPrefix (c # cs) ''true'' then Some (JBool True, drop 4 (c # cs))
          else if HasPrefix (c # cs) ''false'' then Some (JBool False, drop 5 (c # cs))
          else map_option (\<lambda>(x, r). (JNum x, r)) (parse_num (c # cs)))"
| "parse_elems 0 s = None"
| "parse_elems (Suc n) s =
     (case parse_value n s of
        None \<Rightarrow> None
      | Some (v, r) \<Rightarrow>
          (case skip_ws r of
             c # cs \<Rightarrow> if c = CHR '','' then map_option (\<lambda>(vs, r'). (v # vs, r')) (parse_elems n cs)
                       else if c = CHR '']'' then Some ([v], cs) else None
           | [] \<Rightarrow> None))"
| "parse_members 0 s = None"
| "parse_members (Suc n) s =
     (case skip_ws s of
        q # qs \<Rightarrow>
          if q \<noteq> CHR 0x22 then None
          else (case parse_str qs of
            None \<Rightarrow> None
          | Some (k, r) \<Rightarrow>
              (case skip_ws r of
                 co # r1 \<Rightarrow>
                   if co \<noteq> CHR '':'' then None
                   else (case parse_value n r1 of
                     None \<Rightarrow> None
                   | Some (v, r2) \<Rightarrow>
                       (case skip_ws r2 of
                          c # cs \<Rightarrow>
                            if c = CHR '','' then map_option (\<lambda>(kvs, r'). ((k, v) # kvs, r')) (parse_members n cs)
                            else if c = CHR ''}'' then Some ([(k, v)], cs) else None
                        | [] \<Rightarrow> None))
               | [] \<Rightarrow> None))
      | [] \<Rightarrow> None)"

definition json_parse :: "string \<Rightarrow> json option" where
  "json_parse s =
     (case parse_value (2 * length s + 1) s of
        None \<Rightarrow> None
      | Some (j, r) \<Rightarrow> if skip_ws r = [] then Some j else None)"

section \<open>Printing then parsing\<close>

fun json_ok :: "json \<Rightarrow> bool" where
  "json_ok JNull = True"
| "json_ok (JBool b) = True"
| "json_ok (JNum s) = (\<exists>i. s = Itoa i)"
| "json_ok (JStr s) = valid_utf8 s"
| "json_ok (JArr xs) = (\<forall>x\<in>set xs. json_ok x)"
| "json_ok (JObj kvs) = (\<forall>(k, v)\<in>set kvs. valid_utf8 k \<and> json_ok v)"

definition ends_value :: "string \<Rightarrow> bool" where
  "ends_value rest = (rest = [] \<or> (\<exists>c cs. rest = c # cs \<and> c \<in> {CHR '','', CHR '']'', CHR ''}''}))"

lemma ends_value_simps [simp]:
  "ends_value []" "ends_value (CHR '','' # r)" "ends_value (CHR '']'' # r)" "ends_value (CHR ''}'' # r)"
  by (auto simp: ends_value_def)

lemma span_digits_append:
  "\<forall>c\<in>set ds. is_digit c \<Longrightarrow> (rest = [] \<or> \<not> is_digit (hd rest)) \<Longrightarrow> span_digits (ds @ rest) = (ds, rest)"
proof (induction ds)
  case Nil
  then show ?case by (cases rest) auto
qed auto

lemma ends_value_hd: "ends_value rest \<Longrightarrow> rest = [] \<or> (\<not> is_digit (hd rest) \<and> hd rest \<noteq> CHR ''.'' \<and>
    hd rest \<noteq> CHR ''e'' \<and> hd rest \<noteq> CHR ''E'')"
  by (auto simp: ends_value_def is_digit_def byte_of_def)

lemma nat_str_zero: "nat_str n = CHR ''0'' # cs \<Longrightarrow> cs = []"
proof (induction n arbitrary: cs rule: nat_str.induct)
  case (1 n)
  show ?case
  proof (cases "n < 10")
    case True
    with "1.prems" show ?thesis by (simp add: nat_str.simps[of n])
  next
    case False
    obtain d ds where q: "nat_str (n div 10) = d # ds" by (cases "nat_str (n div 10)") auto
    with False "1.prems" have "d = CHR ''0''" "cs = ds @ [digit_char (n mod 10)]"
      by (simp_all add: nat_str.simps[of n])
    with q "1.IH"[OF False] have "nat_str (n div 10) = ''0''" by simp
    then have "uint_acc 10 0 (nat_str (n div 10)) = Some 0" by (simp add: digit_val_def byte_of_def)
    with uint_acc_nat_str[of "n div 10"] have "n div 10 = 0" by simp
    with False show ?thesis by simp
  qed
qed

lemma num_int_nat_str: "ends_value rest \<Longrightarrow> num_int (nat_str n @ rest) = Some (nat_str n, rest)"
proof -
  assume e: "ends_value rest"
  obtain d ds where q: "nat_str n = d # ds" by (cases "nat_str n") auto
  have "is_digit d" using nat_str_hd[of n] q by simp
  moreover have "span_digits (nat_str n @ rest) = (nat_str n, rest)"
    using nat_str_digits ends_value_hd[OF e] by (intro span_digits_append) auto
  ultimately show ?thesis using nat_str_zero[of n ds] q by (auto simp: num_int_def)
qed

lemma parse_num_Itoa: "ends_value rest \<Longrightarrow> parse_num (Itoa i @ rest) = Some (Itoa i, rest)"
proof -
  assume e: "ends_value rest"
  have tail: "num_frac rest = Some ([], rest)" "num_exp rest = Some ([], rest)"
    using ends_value_hd[OF e] by (cases rest; simp add: num_frac_def num_exp_def)+
  obtain d ds where q: "nat_str (nat i) = d # ds" by (cases "nat_str (nat i)") auto
  with nat_str_hd[of "nat i"] have "d \<noteq> CHR ''-''" by auto
  with q num_int_nat_str[OF e, of "nat i"] num_int_nat_str[OF e, of "nat (- i)"] tail show ?thesis
    by (auto simp: parse_num_def Itoa_def)
qed

definition parses_back :: "json \<Rightarrow> bool" where
  "parses_back j = (\<forall>n rest. length (json_print j) < n \<longrightarrow> ends_value rest \<longrightarrow>
                      parse_value n (json_print j @ rest) = Some (j, rest))"

lemma comma_sep_simps [simp]:
  "comma_sep [] = []" "comma_sep [a] = a"
  "comma_sep (a # b # rest) = a @ CHR '','' # comma_sep (b # rest)"
  by (simp_all add: comma_sep_def)

lemma skip_ws_nonspace [simp]:
  "c \<notin> {CHR 0x20, CHR 0x09, CHR 0x0D, CHR 0x0A} \<Longrightarrow> skip_ws (c # cs) = c # cs"
  by simp

lemma parse_elems_print:
  assumes "xs \<noteq> []" "\<forall>x\<in>set xs. parses_back x" "length (comma_sep (map json_print xs)) + 1 < n"
  shows "parse_elems n (comma_sep (map json_print xs) @ CHR '']'' # rest) = Some (xs, rest)"
  using assms
proof (induction xs arbitrary: n rule: induct_list012)
  case (2 x)
  then obtain m where n: "n = Suc m" by (cases n) auto
  with 2 have "parse_value m (json_print x @ CHR '']'' # rest) = Some (x, CHR '']'' # rest)"
    by (simp add: parses_back_def)
  then show ?case by (simp add: n)
next
  case (3 x y zs)
  then obtain m where n: "n = Suc m" by (cases n) auto
  let ?t = "comma_sep (map json_print (y # zs)) @ CHR '']'' # rest"
  have "parse_value m (json_print x @ CHR '','' # ?t) = Some (x, CHR '','' # ?t)"
    using 3 n by (simp add: parses_back_def)
  moreover have "parse_elems m ?t = Some (y # zs, rest)"
    using 3 n by (intro "3.IH"(2)) auto
  ultimately show ?case by (simp add: n)
qed simp

definition member_text :: "string \<times> json \<Rightarrow> string" where
  "member_text kv = (case kv of (k, v) \<Rightarrow> json_quote k @ [CHR '':''] @ json_print v)"

lemma json_print_obj: "json_print (JObj kvs) = CHR ''{'' # comma_sep (map member_text kvs) @ [CHR ''}'']"
  by (simp add: member_text_def[abs_def])

lemma parse_member_head:
  assumes "valid_utf8 k" "parses_back v" "length (json_print v) < m" "ends_value t"
  shows "parse_members (Suc m) (member_text (k, v) @ t) =
    (case skip_ws t of
       c # cs \<Rightarrow> if c = CHR '','' then map_option (\<lambda>(kvs, r'). ((k, v) # kvs, r')) (parse_members m cs)
                 else if c = CHR ''}'' then Some ([(k, v)], cs) else None
     | [] \<Rightarrow> None)"
  using assms by (simp add: member_text_def json_quote_def parse_str_quote parses_back_def)

lemma parse_members_print:
  assumes "kvs \<noteq> []" "\<forall>(k, v)\<in>set kvs. valid_utf8 k \<and> parses_back v"
    "length (comma_sep (map member_text kvs)) + 1 < n"
  shows "parse_members n (comma_sep (map member_text kvs) @ CHR ''}'' # rest) = Some (kvs, rest)"
  using assms
proof (induction kvs arbitrary: n rule: induct_list012)
  case (2 kv)
  obtain k v where kv: "kv = (k, v)" by (cases kv)
  from 2 obtain m where n: "n = Suc m" by (cases n) auto
  have "length (json_print v) < m" using 2 n kv by (simp add: member_text_def)
  with 2 show ?case by (simp add: n kv parse_member_head del: parse_members.simps)
next
  case (3 kv kv' zs)
  obtain k v where kv: "kv = (k, v)" by (cases kv)
  from 3 obtain m where n: "n = Suc m" by (cases n) auto
  let ?t = "comma_sep (map member_text (kv' # zs)) @ CHR ''}'' # rest"
  have "parse_members m ?t = Some (kv' # zs, rest)"
    using 3 n by (intro "3.IH"(2)) auto
  moreover have "length (json_print v) < m" using 3 n kv by (simp add: member_text_def)
  ultimately show ?case using 3 by (simp add: n kv parse_member_head del: parse_members.simps)
qed simp

lemma digit_not_special:
  assumes "is_digit c \<or> c = CHR ''-''"
  shows "c \<notin> {CHR 0x20, CHR 0x09, CHR 0x0D, CHR 0x0A, CHR 0x22, CHR ''{'', CHR ''['', CHR ''n'', CHR ''t'', CHR ''f''}"
  using assms by (auto simp: is_digit_def byte_of_def)

lemma parses_back_num: "parses_back (JNum (Itoa i))"
proof -
  obtain c cs where q: "Itoa i = c # cs" "is_digit c \<or> c = CHR ''-''"
    using nat_str_hd[of "nat i"] by (cases "Itoa i") (auto simp: Itoa_def split: if_splits)
  show ?thesis unfolding parses_back_def
  proof (intro allI impI)
    fix n rest assume "length (json_print (JNum (Itoa i))) < n" "ends_value rest"
    then obtain m where n: "n = Suc m" by (cases n) auto
    from \<open>ends_value rest\<close> have "parse_num (c # cs @ rest) = Some (c # cs, rest)"
      using parse_num_Itoa[of rest i] q(1) by simp
    with q digit_not_special[OF q(2)] show "parse_value n (json_print (JNum (Itoa i)) @ rest) = Some (JNum (Itoa i), rest)"
      by (simp add: n HasPrefix_def)
  qed
qed

lemma Itoa_hd: "\<exists>c cs. Itoa i = c # cs \<and> (is_digit c \<or> c = CHR ''-'')"
  using nat_str_hd[of "nat i"] by (cases "nat_str (nat i)") (auto simp: Itoa_def)

lemma json_print_hd:
  assumes "json_ok j"
  shows "\<exists>c cs. json_print j = c # cs \<and> c \<notin> {CHR 0x20, CHR 0x09, CHR 0x0D, CHR 0x0A, CHR '']'', CHR ''}''}"
proof (cases j)
  case (JNum s)
  with assms obtain i where s: "s = Itoa i" by auto
  obtain c cs where c: "Itoa i = c # cs" "is_digit c \<or> c = CHR ''-''" using Itoa_hd by blast
  from c(2) have "c \<notin> {CHR 0x20, CHR 0x09, CHR 0x0D, CHR 0x0A, CHR '']'', CHR ''}''}"
    by (auto simp: is_digit_def byte_of_def)
  with JNum s c show ?thesis by simp
qed (auto simp: json_quote_def)

lemma parse_value_arr:
  "skip_ws t = d # ds \<Longrightarrow> d \<noteq> CHR '']'' \<Longrightarrow>
   parse_value (Suc m) (CHR ''['' # t) = map_option (\<lambda>(xs, r). (JArr xs, r)) (parse_elems m t)"
  by simp

lemma parse_value_obj:
  "skip_ws t = d # ds \<Longrightarrow> d \<noteq> CHR ''}'' \<Longrightarrow>
   parse_value (Suc m) (CHR ''{'' # t) = map_option (\<lambda>(kvs, r). (JObj kvs, r)) (parse_members m t)"
  by simp

lemma parses_backI:
  assumes "\<And>m rest. length (json_print j) \<le> m \<Longrightarrow> ends_value rest \<Longrightarrow>
             parse_value (Suc m) (json_print j @ rest) = Some (j, rest)"
  shows "parses_back j"
  unfolding parses_back_def
proof (intro allI impI)
  fix n rest assume "length (json_print j) < n" "ends_value rest"
  then show "parse_value n (json_print j @ rest) = Some (j, rest)" using assms by (cases n) auto
qed

lemma parses_back_arr:
  assumes "\<forall>x\<in>set xs. json_ok x \<and> parses_back x"
  shows "parses_back (JArr xs)"
proof (cases xs)
  case Nil
  then show ?thesis by (intro parses_backI) simp
next
  case (Cons x ys)
  with assms obtain c cs where h: "json_print x = c # cs"
    "c \<notin> {CHR 0x20, CHR 0x09, CHR 0x0D, CHR 0x0A, CHR '']'', CHR ''}''}" using json_print_hd[of x] by auto
  then obtain ds where t: "comma_sep (map json_print xs) = c # ds"
    using Cons by (cases ys) auto
  show ?thesis
  proof (rule parses_backI)
    fix m rest assume m: "length (json_print (JArr xs)) \<le> m"
    let ?t = "comma_sep (map json_print xs) @ CHR '']'' # rest"
    have "parse_elems m ?t = Some (xs, rest)"
      using m assms Cons by (intro parse_elems_print) auto
    moreover have "skip_ws ?t = c # ds @ CHR '']'' # rest" "c \<noteq> CHR '']''" using h(2) t by auto
    ultimately have "parse_value (Suc m) (CHR ''['' # ?t) = Some (JArr xs, rest)"
      by (subst parse_value_arr) auto
    then show "parse_value (Suc m) (json_print (JArr xs) @ rest) = Some (JArr xs, rest)" by simp
  qed
qed

lemma parses_back_obj:
  assumes "\<forall>(k, v)\<in>set kvs. valid_utf8 k \<and> parses_back v"
  shows "parses_back (JObj kvs)"
proof (cases kvs)
  case Nil
  then show ?thesis by (intro parses_backI) simp
next
  case (Cons kv ys)
  then obtain ds where t: "comma_sep (map member_text kvs) = CHR 0x22 # ds"
    by (cases ys; cases kv) (auto simp: member_text_def json_quote_def)
  show ?thesis
  proof (rule parses_backI)
    fix m rest assume m: "length (json_print (JObj kvs)) \<le> m"
    let ?t = "comma_sep (map member_text kvs) @ CHR ''}'' # rest"
    have "parse_members m ?t = Some (kvs, rest)"
      using m assms Cons unfolding json_print_obj by (intro parse_members_print) auto
    moreover have "skip_ws ?t = CHR 0x22 # ds @ CHR ''}'' # rest" using t by simp
    ultimately have "parse_value (Suc m) (CHR ''{'' # ?t) = Some (JObj kvs, rest)"
      by (subst parse_value_obj) auto
    then show "parse_value (Suc m) (json_print (JObj kvs) @ rest) = Some (JObj kvs, rest)"
      unfolding json_print_obj by simp
  qed
qed

lemma parses_back_ok: "json_ok j \<Longrightarrow> parses_back j"
proof (induction j)
  case (JNum s)
  then show ?case using parses_back_num by auto
next
  case (JStr s)
  then show ?case by (intro parses_backI) (simp add: json_quote_def parse_str_quote)
next
  case (JArr xs)
  then show ?case by (intro parses_back_arr) simp
next
  case (JObj kvs)
  then show ?case by (intro parses_back_obj) (fastforce simp: snds.simps)
qed (intro parses_backI, simp add: HasPrefix_def)+

theorem json_parse_print: "json_ok j \<Longrightarrow> json_parse (json_print j) = Some j"
proof -
  assume "json_ok j"
  then have "parses_back j" by (rule parses_back_ok)
  moreover have "length (json_print j) < 2 * length (json_print j) + 1" by simp
  ultimately have "parse_value (2 * length (json_print j) + 1) (json_print j @ []) = Some (j, [])"
    unfolding parses_back_def by (blast intro: ends_value_simps(1))
  then show ?thesis by (simp add: json_parse_def del: parse_value.simps)
qed

interpretation json_text: codec json_print json_parse json_ok
  by unfold_locales (rule json_parse_print)

section \<open>Structs\<close>

text \<open>Field names are compared as \<^verbatim>\<open>encoding/json\<close> folds them: ASCII case, the Kelvin sign as k and the long s as s.\<close>

fun fold_name :: "string \<Rightarrow> string" where
  "fold_name [] = []"
| "fold_name (c # cs) =
     (if HasPrefix (c # cs) [CHR 0xE2, CHR 0x84, CHR 0xAA] then CHR ''k'' # fold_name (drop 2 cs)
      else if HasPrefix (c # cs) [CHR 0xC5, CHR 0xBF] then CHR ''s'' # fold_name (drop 1 cs)
      else (if 65 \<le> byte_of c \<and> byte_of c \<le> 90 then char_of (byte_of c + 32) else c) # fold_name cs)"

type_synonym 'r field = "string \<times> (json \<Rightarrow> 'r \<Rightarrow> 'r \<times> bool)"

definition str_field :: "(string \<Rightarrow> 'r \<Rightarrow> 'r) \<Rightarrow> json \<Rightarrow> 'r \<Rightarrow> 'r \<times> bool" where
  "str_field upd j r = (case j of JStr s \<Rightarrow> (upd s r, True) | JNull \<Rightarrow> (r, True) | _ \<Rightarrow> (r, False))"

definition int_field :: "(int \<Rightarrow> 'r \<Rightarrow> 'r) \<Rightarrow> json \<Rightarrow> 'r \<Rightarrow> 'r \<times> bool" where
  "int_field upd j r =
     (case j of
        JNum s \<Rightarrow> (case ParseInt 10 s of Some i \<Rightarrow> (upd i r, True) | None \<Rightarrow> (r, False))
      | JNull \<Rightarrow> (r, True) | _ \<Rightarrow> (r, False))"

definition bool_field :: "(bool \<Rightarrow> 'r \<Rightarrow> 'r) \<Rightarrow> json \<Rightarrow> 'r \<Rightarrow> 'r \<times> bool" where
  "bool_field upd j r = (case j of JBool b \<Rightarrow> (upd b r, True) | JNull \<Rightarrow> (r, True) | _ \<Rightarrow> (r, False))"

definition find_field :: "'r field list \<Rightarrow> string \<Rightarrow> (json \<Rightarrow> 'r \<Rightarrow> 'r \<times> bool) option" where
  "find_field fs key =
     (case map_of fs key of
        Some f \<Rightarrow> Some f
      | None \<Rightarrow> map_option snd (find (\<lambda>(n, f). fold_name n = fold_name key) fs))"

fun dec_members :: "'r field list \<Rightarrow> (string \<times> json) list \<Rightarrow> 'r \<Rightarrow> 'r \<times> bool" where
  "dec_members fs [] r = (r, True)"
| "dec_members fs ((k, v) # kvs) r =
     (let (r1, ok1) = (case find_field fs k of None \<Rightarrow> (r, True) | Some f \<Rightarrow> f v r);
          (r2, ok2) = dec_members fs kvs r1
      in (r2, ok1 \<and> ok2))"

definition dec_struct :: "'r field list \<Rightarrow> json \<Rightarrow> 'r \<Rightarrow> 'r \<times> bool" where
  "dec_struct fs j r = (case j of JObj kvs \<Rightarrow> dec_members fs kvs r | JNull \<Rightarrow> (r, True) | _ \<Rightarrow> (r, False))"

fun dec_entries :: "(json \<Rightarrow> 'r \<Rightarrow> 'r \<times> bool) \<Rightarrow> 'r \<Rightarrow> (string \<times> json) list \<Rightarrow> (string \<times> 'r) list \<Rightarrow> (string \<times> 'r) list \<times> bool" where
  "dec_entries elem zero [] m = (m, True)"
| "dec_entries elem zero ((k, v) # kvs) m =
     (let (e, ok1) = elem v zero; (m', ok2) = dec_entries elem zero kvs (AList.update k e m)
      in (m', ok1 \<and> ok2))"

definition dec_map :: "(json \<Rightarrow> 'r \<Rightarrow> 'r \<times> bool) \<Rightarrow> 'r \<Rightarrow> json \<Rightarrow> 'r gomap \<times> bool" where
  "dec_map elem zero j =
     (case j of
        JNull \<Rightarrow> (None, True)
      | JObj kvs \<Rightarrow> (let (m, ok) = dec_entries elem zero kvs [] in (Some m, ok))
      | _ \<Rightarrow> (None, False))"

definition enc_map :: "('r \<Rightarrow> json) \<Rightarrow> 'r gomap \<Rightarrow> json" where
  "enc_map enc m =
     (case m of None \<Rightarrow> JNull | Some xs \<Rightarrow> JObj (map (\<lambda>(k, v). (k, enc v)) (sort_key fst xs)))"

definition unmarshal :: "(json \<Rightarrow> 'a \<Rightarrow> 'a \<times> bool) \<Rightarrow> string \<Rightarrow> 'a \<Rightarrow> 'a \<times> bool" where
  "unmarshal dec s x = (case json_parse s of None \<Rightarrow> (x, False) | Some j \<Rightarrow> dec j x)"

lemma int_field_Itoa [simp]: "in_int64 i \<Longrightarrow> int_field upd (JNum (Itoa i)) r = (upd i r, True)"
  using Atoi_Itoa[of i] by (simp add: int_field_def Atoi_def)

lemma str_field_JStr [simp]: "str_field upd (JStr s) r = (upd s r, True)"
  by (simp add: str_field_def)

lemma bool_field_JBool [simp]: "bool_field upd (JBool b) r = (upd b r, True)"
  by (simp add: bool_field_def)

lemma find_field_hd [simp]: "find_field ((n, f) # fs) n = Some f"
  by (simp add: find_field_def)

lemma find_field_tl: "n \<noteq> key \<Longrightarrow> key \<in> fst ` set fs \<Longrightarrow> find_field ((n, f) # fs) key = find_field fs key"
  by (auto simp: find_field_def map_of_eq_None_iff split: option.splits)

lemma update_fresh: "k \<notin> fst ` set m \<Longrightarrow> AList.update k v m = m @ [(k, v)]"
  by (induction m) auto

lemma dec_entries_enc:
  assumes "\<forall>(k, v)\<in>set xs. elem (enc v) zero = (v, True)" "keys_distinct (m @ xs)"
  shows "dec_entries elem zero (map (\<lambda>(k, v). (k, enc v)) xs) m = (m @ xs, True)"
  using assms
proof (induction xs arbitrary: m)
  case (Cons kv xs)
  obtain k v where kv: "kv = (k, v)" by (cases kv)
  have "k \<notin> fst ` set m" using Cons.prems(2) kv by auto
  then show ?case using Cons.IH[of "m @ [(k, v)]"] Cons.prems by (simp add: kv update_fresh)
qed simp

lemma map_of_sort_key: "keys_distinct xs \<Longrightarrow> map_of (sort_key fst xs) = map_of xs"
proof -
  assume d: "keys_distinct xs"
  have "mset (sort_key fst xs) = mset xs" by simp
  then have "set (sort_key fst xs) = set xs" "keys_distinct (sort_key fst xs)"
    using d by (simp, metis distinct_map mset_eq_imp_distinct_iff mset_map)
  then show ?thesis using d by (metis map_of_inject_set)
qed

section \<open>The contract of a struct type\<close>

locale json_struct =
  fixes to_json :: "'r \<Rightarrow> json"
    and from_json :: "json \<Rightarrow> 'r \<Rightarrow> 'r \<times> bool"
    and zero :: 'r
    and ok :: "'r \<Rightarrow> bool"
  assumes from_to: "ok r \<Longrightarrow> from_json (to_json r) zero = (r, True)"
    and to_ok: "ok r \<Longrightarrow> json_ok (to_json r)"
begin

lemma unmarshal_marshal: "ok r \<Longrightarrow> unmarshal from_json (json_print (to_json r)) zero = (r, True)"
  by (simp add: unmarshal_def json_parse_print to_ok from_to)

lemma marshal_inj: "ok r \<Longrightarrow> ok r' \<Longrightarrow> json_print (to_json r) = json_print (to_json r') \<Longrightarrow> r = r'"
  by (metis Pair_inject unmarshal_marshal)

lemma table_json_ok:
  "\<forall>(k, v)\<in>set xs. valid_utf8 k \<and> ok v \<Longrightarrow> json_ok (enc_map to_json (Some xs))"
  by (auto simp: enc_map_def to_ok)

lemma table_roundtrip:
  assumes "\<forall>(k, v)\<in>set xs. valid_utf8 k \<and> ok v" "keys_distinct xs"
  shows "unmarshal (\<lambda>j _. dec_map from_json zero j) (json_print (enc_map to_json (Some xs))) m0 =
           (Some (sort_key fst xs), True)"
proof -
  have "mset (map fst (sort_key fst xs)) = mset (map fst xs)" by (metis mset_map mset_sort)
  with assms(2) have "keys_distinct ([] @ sort_key fst xs)" by (metis append_Nil mset_eq_imp_distinct_iff)
  moreover have "\<forall>(k, v)\<in>set (sort_key fst xs). from_json (to_json v) zero = (v, True)"
    using assms(1) by (auto simp: from_to)
  ultimately have "dec_entries from_json zero (map (\<lambda>(k, v). (k, to_json v)) (sort_key fst xs)) [] =
      (sort_key fst xs, True)" by (subst dec_entries_enc) auto
  moreover have "json_parse (json_print (enc_map to_json (Some xs))) = Some (enc_map to_json (Some xs))"
    using table_json_ok[OF assms(1)] by (rule json_parse_print)
  ultimately show ?thesis by (simp only: unmarshal_def option.case) (simp add: enc_map_def dec_map_def)
qed

end

end
