(* ===== verification/Go_World.thy ===== *)
theory Go_World
  imports Complex_Main Go_Json "HOL-Library.Monad_Syntax"
begin

text \<open>
  The operating system as the agent's processes see it: files, processes, the shell, the
  network and the redis broker, as one record that the operations of the source take and
  return.  What the agent cannot control is a field: which paths cannot be opened, whether the
  disk is full, which processes may not be signalled, what \<^verbatim>\<open>ping\<close> and \<^verbatim>\<open>lsof\<close> answer.  The
  theorems hold for every value of these fields.  A Go panic is \<^const>\<open>None\<close>; a Go \<^verbatim>\<open>error\<close>
  is \<open>go_error option\<close>.

  A negative process id names a process group, as in \<^verbatim>\<open>kill(2)\<close>, and \<open>procs\<close> has its entry.
\<close>

datatype go_error = ENotExist | EPermission | ENoSpace | ENoProcess | EOther string

text \<open>
  \<open>p_child\<close>: the process is a child of the process whose view the world is, so that only its
  \<^verbatim>\<open>Wait\<close> removes it once it is dead; \<open>p_reaped\<close>: another parent collects it at once.
\<close>

record proc =
  p_path :: string
  p_argv :: "string list"
  p_status :: string
  p_child :: bool
  p_reaped :: bool
  p_rss :: nat
  p_cpu :: rat
  p_info_ok :: bool

record world =
  cwd :: string
  files :: "string \<Rightarrow> string option"
  dirs :: "string \<Rightarrow> bool"
  wr_denied :: "string \<Rightarrow> bool"
  rd_denied :: "string \<Rightarrow> bool"
  disk_full :: bool
  procs :: "int \<Rightarrow> proc option"
  kill_denied :: "int \<Rightarrow> bool"
  next_pid :: int
  self_pid :: int
  startable :: "string \<Rightarrow> bool"
  sh_startable :: bool
  published :: "(string \<times> string) list"
  redis_up :: bool
  pingable :: "string \<Rightarrow> bool"
  lsof :: "string \<Rightarrow> string"
  http_body :: "string \<Rightarrow> string option"
  http_reply :: "string \<Rightarrow> string \<Rightarrow> string option"
  now :: string
  now_unix :: int
  hostname :: "string option"
  num_cpu :: nat
  intn :: "nat \<Rightarrow> nat"

text \<open>A machine with nothing on it but the working directory \<^verbatim>\<open>/agent\<close>, for the examples.\<close>

definition blank_world :: world where
  "blank_world = \<lparr>cwd = ''/agent'', files = (\<lambda>_. None), dirs = (\<lambda>_. False), wr_denied = (\<lambda>_. False),
     rd_denied = (\<lambda>_. False), disk_full = False, procs = (\<lambda>_. None), kill_denied = (\<lambda>_. False),
     next_pid = 100, self_pid = 1, startable = (\<lambda>_. True), sh_startable = True, published = [],
     redis_up = True, pingable = (\<lambda>_. False), lsof = (\<lambda>_. []), http_body = (\<lambda>_. None),
     http_reply = (\<lambda>_ _. None), now = [], now_unix = 0, hostname = None, num_cpu = 1, intn = (\<lambda>_. 0)\<rparr>"

type_synonym 'a go = "world \<Rightarrow> ('a \<times> world) option"

section \<open>Paths and files\<close>

definition abs_path :: "world \<Rightarrow> string \<Rightarrow> string" where
  "abs_path w p = (if HasPrefix p ''/'' then p else cwd w @ ''/'' @ p)"

definition stat_ok :: "world \<Rightarrow> string \<Rightarrow> bool" where
  "stat_ok w p = (files w (abs_path w p) \<noteq> None \<or> dirs w (abs_path w p))"

definition set_file :: "string \<Rightarrow> string option \<Rightarrow> world \<Rightarrow> world" where
  "set_file p c w = w\<lparr>files := (files w)(abs_path w p := c)\<rparr>"

definition os_create :: "string \<Rightarrow> world \<Rightarrow> go_error option \<times> world" where
  "os_create p w =
     (if wr_denied w (abs_path w p) then (Some EPermission, w) else (None, set_file p (Some []) w))"

text \<open>\<^verbatim>\<open>OpenFile\<close> with \<^verbatim>\<open>O_WRONLY|O_TRUNC\<close>: the file must exist; its content is cut first.\<close>

definition os_truncate :: "string \<Rightarrow> world \<Rightarrow> go_error option \<times> world" where
  "os_truncate p w =
     (if files w (abs_path w p) = None then (Some ENotExist, w)
      else if wr_denied w (abs_path w p) then (Some EPermission, w)
      else (None, set_file p (Some []) w))"

definition os_write :: "string \<Rightarrow> string \<Rightarrow> world \<Rightarrow> go_error option \<times> world" where
  "os_write p s w =
     (if disk_full w then (Some ENoSpace, w)
      else (None, set_file p (Some (case files w (abs_path w p) of None \<Rightarrow> s | Some old \<Rightarrow> old @ s)) w))"

definition os_open_read :: "world \<Rightarrow> string \<Rightarrow> go_error + string" where
  "os_open_read w p =
     (case files w (abs_path w p) of
        None \<Rightarrow> Inl ENotExist
      | Some c \<Rightarrow> if rd_denied w (abs_path w p) then Inl EPermission else Inr c)"

section \<open>Processes\<close>

definition spawn :: "string \<Rightarrow> string list \<Rightarrow> world \<Rightarrow> int \<times> world" where
  "spawn path argv w = (next_pid w,
     w\<lparr>procs := (procs w)(next_pid w \<mapsto> \<lparr>p_path = path, p_argv = argv, p_status = ''R'', p_child = True,
                                           p_reaped = False, p_rss = 0, p_cpu = 0, p_info_ok = True\<rparr>),
       next_pid := next_pid w + 1\<rparr>)"

text \<open>\<^verbatim>\<open>kill(pid, 0)\<close>; pid 0 is the caller's own group.  A zombie still counts as a process.\<close>

definition kill0 :: "world \<Rightarrow> int \<Rightarrow> bool" where
  "kill0 w pid = (pid = 0 \<or> (procs w pid \<noteq> None \<and> \<not> kill_denied w pid))"

text \<open>
  \<^verbatim>\<open>(*os.Process).Signal(SIGKILL)\<close>: the process is gone when its parent collects it, and a
  zombie otherwise; \<^verbatim>\<open>(*os.Process).Wait\<close>: a dead child is collected.
\<close>

definition signal_kill :: "int \<Rightarrow> world \<Rightarrow> go_error option \<times> world" where
  "signal_kill pid w =
     (if pid = -1 \<or> pid = 0 then (Some (EOther ''os: process not initialized''), w)
      else case procs w pid of
             None \<Rightarrow> (Some ENoProcess, w)
           | Some p \<Rightarrow>
               if kill_denied w pid then (Some EPermission, w)
               else (None, w\<lparr>procs := (procs w)(pid := (if p_reaped p \<and> \<not> p_child p then None
                                                       else Some (p\<lparr>p_status := ''Z''\<rparr>)))\<rparr>))"

definition os_wait :: "int \<Rightarrow> world \<Rightarrow> world" where
  "os_wait pid w =
     (case procs w pid of
        Some p \<Rightarrow> if p_child p \<and> p_status p = ''Z'' then w\<lparr>procs := (procs w)(pid := None)\<rparr> else w
      | None \<Rightarrow> w)"

definition as_int32 :: "int \<Rightarrow> int" where
  "as_int32 i = (i + 2 ^ 31) mod 2 ^ 32 - 2 ^ 31"

section \<open>Frame lemmas\<close>

named_theorems world_simps "how the operating-system operations act on the fields of the world"

lemma abs_path_files [world_simps]: "abs_path (w\<lparr>files := f\<rparr>) p = abs_path w p"
  by (simp add: abs_path_def)

lemma abs_path_procs [world_simps]: "abs_path (w\<lparr>procs := f\<rparr>) p = abs_path w p"
  by (simp add: abs_path_def)

lemma abs_path_set_file [world_simps]: "abs_path (set_file q c w) p = abs_path w p"
  by (simp add: set_file_def abs_path_def)

lemma set_file_other [world_simps]:
  "procs (set_file p c w) = procs w" "wr_denied (set_file p c w) = wr_denied w"
  "rd_denied (set_file p c w) = rd_denied w" "disk_full (set_file p c w) = disk_full w"
  "cwd (set_file p c w) = cwd w" "kill_denied (set_file p c w) = kill_denied w"
  "next_pid (set_file p c w) = next_pid w" "published (set_file p c w) = published w"
  "startable (set_file p c w) = startable w" "sh_startable (set_file p c w) = sh_startable w"
  "dirs (set_file p c w) = dirs w" "redis_up (set_file p c w) = redis_up w"
  by (simp_all add: set_file_def)

lemma files_set_file [world_simps]:
  "files (set_file p c w) q = (if q = abs_path w p then c else files w q)"
  by (simp add: set_file_def)

lemma set_file_twice [world_simps]: "set_file p c (set_file p c' w) = set_file p c w"
  by (simp add: set_file_def abs_path_def)

lemma abs_path_cwd: "HasPrefix (cwd w) ''/'' \<Longrightarrow> abs_path w (cwd w @ ''/'' @ p) = cwd w @ ''/'' @ p"
  by (auto simp: abs_path_def HasPrefix_single)

lemma as_int32_id: "- (2 ^ 31) \<le> i \<Longrightarrow> i < 2 ^ 31 \<Longrightarrow> as_int32 i = i"
  by (simp add: as_int32_def)

end
