(* ===== verification/Comm_Send.thy ===== *)
theory Comm_Send
  imports Zero_Conn Go_World
begin

text \<open>
  The sending side of \<^verbatim>\<open>util/comm/def.go\<close>: \<^verbatim>\<open>SendMsg\<close> queues encoded messages, one goroutine
  collects them into batches, \<^verbatim>\<open>doSend\<close> groups a batch by address and sends each group over a
  connection of its own.  The collecting goroutine is a step relation; the goroutines of \<^verbatim>\<open>doSend\<close>
  share the variables of the loop that starts them, so what each of them sends depends on when it
  reads these variables, which is an argument of the model.  \<^verbatim>\<open>Daemon\<close> is here as well.
\<close>

section \<open>The queue and the collecting goroutine\<close>

record Msg =
  m_data :: string
  m_addr :: string

text \<open>
  The channel \<^verbatim>\<open>msgsToSend\<close> (100 places), whether the goroutine has been started, the batch in its
  hands (empty while it waits for the first message), the batches given to \<^verbatim>\<open>doSend\<close>, and, for the
  statements, all messages accepted so far.
\<close>

record sender =
  isInit :: bool
  msgsToSend :: "Msg list"
  mm :: "Msg list"
  batches :: "Msg list list"
  queued :: "Msg list"

definition sender_start :: sender where
  "sender_start = \<lparr>isInit = False, msgsToSend = [], mm = [], batches = [], queued = []\<rparr>"

definition wire_msg :: "32 word \<Rightarrow> string \<Rightarrow> string \<Rightarrow> Msg" where
  "wire_msg mid evetmsg commAddr = \<lparr>m_data = Encode (NewMessage mid evetmsg), m_addr = commAddr\<rparr>"

text \<open>\<^verbatim>\<open>SendMsg\<close>; \<^const>\<open>None\<close> while the channel is full and the caller waits.\<close>

definition SendMsg :: "32 word \<Rightarrow> string \<Rightarrow> string \<Rightarrow> sender \<Rightarrow> sender option" where
  "SendMsg mid evetmsg commAddr s =
     (let s1 = s\<lparr>isInit := True\<rparr>; m = wire_msg mid evetmsg commAddr in
      if length (msgsToSend s) < 100
      then Some (s1\<lparr>msgsToSend := msgsToSend s @ [m], queued := queued s @ [m]\<rparr>) else None)"

inductive sender_step :: "sender \<Rightarrow> sender \<Rightarrow> bool" where
  send: "SendMsg mid evetmsg commAddr s = Some s' \<Longrightarrow> sender_step s s'"
| first: "isInit s \<Longrightarrow> mm s = [] \<Longrightarrow> msgsToSend s = m # q \<Longrightarrow> sender_step s (s\<lparr>msgsToSend := q, mm := [m]\<rparr>)"
| more: "mm s \<noteq> [] \<Longrightarrow> msgsToSend s = m # q \<Longrightarrow> length (mm s @ [m]) \<le> 100 \<Longrightarrow>
    sender_step s (s\<lparr>msgsToSend := q, mm := mm s @ [m]\<rparr>)"
| full: "mm s \<noteq> [] \<Longrightarrow> msgsToSend s = m # q \<Longrightarrow> length (mm s @ [m]) > 100 \<Longrightarrow>
    sender_step s (s\<lparr>msgsToSend := q, mm := [], batches := batches s @ [mm s @ [m]]\<rparr>)"
| tick: "mm s \<noteq> [] \<Longrightarrow> sender_step s (s\<lparr>mm := [], batches := batches s @ [mm s]\<rparr>)"

inductive_cases sender_stepE: "sender_step s s'"

section \<open>Sending a batch\<close>

text \<open>The map \<^verbatim>\<open>m\<close> of \<^verbatim>\<open>doSend\<close>: the messages of each address, in order.\<close>

fun group_msgs :: "Msg list \<Rightarrow> (string \<times> Msg list) list \<Rightarrow> (string \<times> Msg list) list" where
  "group_msgs [] g = g"
| "group_msgs (v # vs) g =
     group_msgs vs (AList.update (m_addr v) ((case map_of g (m_addr v) of None \<Rightarrow> [] | Some tm \<Rightarrow> tm) @ [v]) g)"

text \<open>
  One goroutine of \<^verbatim>\<open>doSend\<close>, given the iteration whose \<^verbatim>\<open>addr\<close> it reads first and the iteration whose
  \<^verbatim>\<open>tm\<close> it reads once it is connected.  \<open>up\<close> tells which addresses accept a connection.
\<close>

definition send_group :: "(string \<Rightarrow> bool) \<Rightarrow> (string \<times> Msg list) list \<Rightarrow> nat \<times> nat \<Rightarrow> (string \<times> string list) list" where
  "send_group up groups jk =
     (let addr = fst (groups ! fst jk); tm = snd (groups ! snd jk)
      in if up addr then [(addr, map m_data tm)] else [])"

text \<open>
  The goroutine started in iteration \<open>i\<close> reads the variables during iteration \<open>i\<close> or later, when
  they hold a later pair or, after the loop, the last one; it reads \<^verbatim>\<open>addr\<close> before \<^verbatim>\<open>tm\<close>.
\<close>

definition legal_reads :: "nat \<Rightarrow> (nat \<times> nat) list \<Rightarrow> bool" where
  "legal_reads n reads = (length reads = n \<and> list_all2 (\<lambda>i (j, k). i \<le> j \<and> j \<le> k \<and> k < n) [0..<n] reads)"

text \<open>\<^verbatim>\<open>doSend\<close>: the map is iterated in the order \<open>groups\<close>, a permutation of the grouped batch.\<close>

definition doSend :: "(string \<Rightarrow> bool) \<Rightarrow> (string \<times> Msg list) list \<Rightarrow> (nat \<times> nat) list \<Rightarrow> (string \<times> string list) list" where
  "doSend up groups reads = concat (map (send_group up groups) reads)"

section \<open>Batching\<close>

definition sender_inv :: "sender \<Rightarrow> bool" where
  "sender_inv s = (concat (batches s) @ mm s @ msgsToSend s = queued s \<and>
     (\<forall>b\<in>set (batches s). b \<noteq> [] \<and> length b \<le> 101) \<and> length (mm s) \<le> 100 \<and> length (msgsToSend s) \<le> 100)"

lemma sender_inv_step: "sender_step s s' \<Longrightarrow> sender_inv s \<Longrightarrow> sender_inv s'"
  by (erule sender_stepE) (auto simp: sender_inv_def SendMsg_def Let_def split: if_splits)

lemma sender_inv_start: "sender_inv sender_start"
  by (simp add: sender_inv_def sender_start_def)

text \<open>
  C35. However the callers of \<^verbatim>\<open>SendMsg\<close>, the collecting goroutine and its timer interleave, no message is
  lost, duplicated or reordered on its way into the batches: the batches, the batch in hand and the
  channel together are the accepted messages in order; a batch has between 1 and 101 messages.
\<close>

theorem batching_keeps_messages:
  assumes "sender_step\<^sup>*\<^sup>* sender_start s"
  shows "concat (batches s) @ mm s @ msgsToSend s = queued s \<and> (\<forall>b\<in>set (batches s). b \<noteq> [] \<and> length b \<le> 101)"
proof -
  have "sender_inv s" using assms
    by (induction rule: rtranclp_induct) (auto intro: sender_inv_step sender_inv_start)
  then show ?thesis by (simp add: sender_inv_def)
qed

theorem batching_keeps_messages_witness:
  "let m = wire_msg 1 ''a'' ''h:1''; s = \<lparr>isInit = True, msgsToSend = [], mm = [], batches = [[m]], queued = [m]\<rparr>
   in concat (batches s) @ mm s @ msgsToSend s = queued s \<and> (\<forall>b\<in>set (batches s). b \<noteq> [] \<and> length b \<le> 101)"
proof -
  let ?m = "wire_msg 1 ''a'' ''h:1''"
  let ?s1 = "\<lparr>isInit = True, msgsToSend = [?m], mm = [], batches = [], queued = [?m]\<rparr>"
  let ?s2 = "\<lparr>isInit = True, msgsToSend = [], mm = [?m], batches = [], queued = [?m]\<rparr>"
  let ?s3 = "\<lparr>isInit = True, msgsToSend = [], mm = [], batches = [[?m]], queued = [?m]\<rparr>"
  have "sender_step sender_start ?s1"
    by (rule sender_step.send[of 1 "''a''" "''h:1''"]) (simp add: SendMsg_def sender_start_def Let_def)
  moreover have "sender_step ?s1 ?s2" using sender_step.first[of ?s1 ?m "[]"] by simp
  moreover have "sender_step ?s2 ?s3" using sender_step.tick[of ?s2] by simp
  ultimately have "sender_step\<^sup>*\<^sup>* sender_start ?s3" by (blast intro: rtranclp.rtrancl_into_rtrancl)
  from batching_keeps_messages[OF this] show ?thesis unfolding Let_def .
qed

section \<open>Delivery\<close>

lemma map_of_group_msgs:
  "map_of (group_msgs vs g) a =
     (let tm = (case map_of g a of None \<Rightarrow> [] | Some tm \<Rightarrow> tm) @ filter (\<lambda>v. m_addr v = a) vs
      in if tm = [] \<and> map_of g a = None then None else Some tm)"
  by (induction vs arbitrary: g) (auto simp: map_of_update Let_def split: option.splits)

lemma group_msgs_one:
  "\<forall>v\<in>set vs. m_addr v = a \<Longrightarrow> group_msgs vs [(a, tm)] = [(a, tm @ vs)]"
  by (induction vs arbitrary: tm) auto

lemma group_msgs_single: "vs \<noteq> [] \<Longrightarrow> \<forall>v\<in>set vs. m_addr v = a \<Longrightarrow> group_msgs vs [] = [(a, vs)]"
  by (cases vs) (auto simp: group_msgs_one)

lemma legal_reads_one: "legal_reads (Suc 0) reads \<longleftrightarrow> reads = [(0, 0)]"
  by (cases reads) (auto simp: legal_reads_def split: prod.splits)



text \<open>
  With two addresses in a batch messages can be lost and go to the wrong host: the goroutines share the loop variables, and
  there is a schedule in which the connection to the first address carries the messages meant for the second,
  the second gets them as well, and those for the first are never sent.
\<close>

theorem doSend_misdelivers:
  assumes "up a" "up b"
  shows "\<exists>reads. legal_reads (length [(a, xs), (b, ys)]) reads \<and>
    doSend up [(a, xs), (b, ys)] reads = [(a, map m_data ys), (b, map m_data ys)]"
  using assms by (intro exI[of _ "[(0, 1), (1, 1)]"]) (simp add: legal_reads_def doSend_def send_group_def upt_rec)

theorem doSend_misdelivers_witness:
  "\<exists>reads. legal_reads (length [(''a:1'', [wire_msg 1 ''secret'' ''a:1'']), (''b:1'', [wire_msg 2 ''y'' ''b:1''])]) reads \<and>
    doSend (\<lambda>_. True) [(''a:1'', [wire_msg 1 ''secret'' ''a:1'']), (''b:1'', [wire_msg 2 ''y'' ''b:1''])] reads =
      [(''a:1'', map m_data [wire_msg 2 ''y'' ''b:1'']), (''b:1'', map m_data [wire_msg 2 ''y'' ''b:1''])]"
  by (rule doSend_misdelivers) simp_all

section \<open>Daemon\<close>

text \<open>What the system calls of \<^verbatim>\<open>Daemon\<close> answer, and the effects it has in the process that goes on.\<close>

record daemon_sys =
  d_ppid :: int
  d_fork_err :: bool
  d_fork_ret :: nat
  d_fork_ret2 :: nat
  d_darwin :: bool
  d_setsid :: int
  d_null_ok :: bool

datatype daemon_effect = Umask int | Setsid | Chdir string | DupNull int

datatype daemon_end = DReturn int | DExit int

text \<open>The test \<^verbatim>\<open>ret2 < 0\<close> on an unsigned value never holds and is left out.\<close>

definition Daemon :: "int \<Rightarrow> int \<Rightarrow> daemon_sys \<Rightarrow> daemon_end \<times> daemon_effect list" where
  "Daemon nochdir noclose sys =
     (if d_ppid sys = 1 then (DReturn 0, [])
      else if d_fork_err sys then (DReturn (-1), [])
      else let ret = (if d_darwin sys \<and> d_fork_ret2 sys = 1 then 0 else d_fork_ret sys) in
           if ret > 0 then (DExit 0, [])
           else if d_setsid sys < 0 then (DReturn (-1), [Umask 0, Setsid])
           else (DReturn 0, [Umask 0, Setsid] @ (if nochdir = 0 then [Chdir ''/''] else []) @
                            (if noclose = 0 \<and> d_null_ok sys then [DupNull 0, DupNull 1, DupNull 2] else [])))"

text \<open>\<^verbatim>\<open>Daemon\<close> changes the process only where it goes on, and then it is in a session of its own.\<close>

lemma Daemon_detached:
  "Daemon nochdir noclose sys = (DReturn 0, fx) \<Longrightarrow> d_ppid sys \<noteq> 1 \<Longrightarrow> take 2 fx = [Umask 0, Setsid]"
  by (auto simp: Daemon_def Let_def split: if_splits)

definition CopyString :: "string \<Rightarrow> string" where
  "CopyString s = s"

end
