(* ===== verification/Go_Reflect.thy ===== *)
theory Go_Reflect
  imports Main
begin

text \<open>
  What \<^verbatim>\<open>util/comm/def.go\<close> uses of Go's package \<^verbatim>\<open>reflect\<close>: struct types with embedded fields, values with pointers into a heap of
  typed cells, the lookup of a field by name through embedded structs, and reading and writing the place a lookup finds.
  Types are finite trees: a struct that reaches itself through a pointer is not represented.  A panic is \<^const>\<open>None\<close>.
\<close>

section \<open>Types and values\<close>

text \<open>A field has a name, says whether it is embedded, and has a type.\<close>

datatype gtype =
    TBasic string
  | TPtr gtype
  | TStruct string "(string \<times> bool \<times> gtype) list"

type_synonym sfield = "string \<times> bool \<times> gtype"

definition f_name :: "sfield \<Rightarrow> string" where "f_name f = fst f"
definition f_anon :: "sfield \<Rightarrow> bool" where "f_anon f = fst (snd f)"
definition f_type :: "sfield \<Rightarrow> gtype" where "f_type f = snd (snd f)"

fun is_ptr :: "gtype \<Rightarrow> bool" where
  "is_ptr (TPtr t) = True"
| "is_ptr _ = False"

fun is_struct :: "gtype \<Rightarrow> bool" where
  "is_struct (TStruct n fs) = True"
| "is_struct _ = False"

fun fields_of :: "gtype \<Rightarrow> sfield list" where
  "fields_of (TStruct n fs) = fs"
| "fields_of _ = []"

fun strip_ptr :: "gtype \<Rightarrow> gtype" where
  "strip_ptr (TPtr t) = t"
| "strip_ptr t = t"

text \<open>A field is exported when its name starts with an upper-case letter.\<close>

definition exported :: "string \<Rightarrow> bool" where
  "exported n = (n \<noteq> [] \<and> 65 \<le> (of_char (hd n) :: nat) \<and> (of_char (hd n) :: nat) \<le> 90)"

datatype gval =
    VBasic string
  | VPtr "nat option"
  | VStruct "gval list"

type_synonym gheap = "(gtype \<times> gval) list"

section \<open>Looking up a field by name\<close>

text \<open>
  The search goes level by level: the struct, the structs embedded in it (directly or through a pointer), the
  structs embedded in those.  The first level on which the name occurs decides; a name that occurs there twice is
  not found.
\<close>

type_synonym scan = "nat list \<times> sfield list"

definition level_matches :: "string \<Rightarrow> scan list \<Rightarrow> (nat list \<times> sfield) list" where
  "level_matches name scans =
     concat (map (\<lambda>(idx, fs). map (\<lambda>(i, f). (idx @ [i], f)) (filter (\<lambda>(i, f). f_name f = name) (enumerate 0 fs))) scans)"

definition next_level :: "scan list \<Rightarrow> scan list" where
  "next_level scans =
     concat (map (\<lambda>(idx, fs). map (\<lambda>(i, f). (idx @ [i], fields_of (strip_ptr (f_type f))))
       (filter (\<lambda>(i, f). f_anon f \<and> is_struct (strip_ptr (f_type f))) (enumerate 0 fs))) scans)"

fun tsize :: "gtype \<Rightarrow> nat" where
  "tsize (TBasic n) = 1"
| "tsize (TPtr t) = 1 + tsize t"
| "tsize (TStruct n fs) = 1 + sum_list (map (\<lambda>(n, a, t). tsize t) fs)"

definition level_size :: "scan list \<Rightarrow> nat" where
  "level_size scans = sum_list (map (\<lambda>(idx, fs). 1 + sum_list (map (\<lambda>f. tsize (f_type f)) fs)) scans)"

lemma tsize_strip: "is_struct (strip_ptr t) \<Longrightarrow> 1 + sum_list (map (\<lambda>f. tsize (f_type f)) (fields_of (strip_ptr t))) \<le> tsize t"
proof -
  assume "is_struct (strip_ptr t)"
  then obtain n fs where s: "strip_ptr t = TStruct n fs" by (cases "strip_ptr t") auto
  have "tsize (strip_ptr t) \<le> tsize t" by (cases t) auto
  then show ?thesis using s by (simp add: f_type_def split_def)
qed

lemma sum_filter_le: "sum_list (map g (filter P xs)) \<le> (sum_list (map g xs) :: nat)"
  by (induction xs) auto

lemma map_enumerate: "map (\<lambda>(i, f). g f) (enumerate n fs) = map g fs"
  by (induction fs arbitrary: n) auto

lemma level_size_next: "scans \<noteq> [] \<Longrightarrow> level_size (next_level scans) < level_size scans"
proof (induction scans)
  case (Cons s scans)
  obtain idx fs where s: "s = (idx, fs)" by (cases s)
  let ?sub = "map (\<lambda>(i, f). (idx @ [i], fields_of (strip_ptr (f_type f))))
       (filter (\<lambda>(i, f). f_anon f \<and> is_struct (strip_ptr (f_type f))) (enumerate 0 fs))"
  have n: "next_level (s # scans) = ?sub @ next_level scans" by (simp add: next_level_def s)
  have "level_size ?sub = sum_list (map (\<lambda>(i, f). 1 + sum_list (map (\<lambda>f. tsize (f_type f)) (fields_of (strip_ptr (f_type f)))))
       (filter (\<lambda>(i, f). f_anon f \<and> is_struct (strip_ptr (f_type f))) (enumerate 0 fs)))"
    by (simp add: level_size_def split_def comp_def)
  also have "\<dots> \<le> sum_list (map (\<lambda>(i, f). tsize (f_type f)) (filter (\<lambda>(i, f). f_anon f \<and> is_struct (strip_ptr (f_type f))) (enumerate 0 fs)))"
    using tsize_strip by (intro sum_list_mono) auto
  also have "\<dots> \<le> sum_list (map (\<lambda>(i, f). tsize (f_type f)) (enumerate 0 fs))" by (rule sum_filter_le)
  also have "\<dots> = sum_list (map (\<lambda>f. tsize (f_type f)) fs)" by (simp only: map_enumerate)
  finally have "level_size ?sub < level_size [s]" by (simp add: level_size_def s)
  moreover have "level_size (next_level scans) \<le> level_size scans" using Cons.IH by (cases scans) (auto simp: next_level_def)
  ultimately show ?case unfolding n by (simp add: level_size_def)
qed simp

function field_search :: "string \<Rightarrow> scan list \<Rightarrow> (nat list \<times> sfield) option" where
  "field_search name scans =
     (if scans = [] then None
      else case level_matches name scans of
             [] \<Rightarrow> field_search name (next_level scans)
           | [m] \<Rightarrow> Some m
           | _ \<Rightarrow> None)"
  by pat_completeness auto

termination by (relation "measure (level_size \<circ> snd)") (auto simp: level_size_next)

declare field_search.simps [simp del]

definition FieldByName :: "string \<Rightarrow> gtype \<Rightarrow> (nat list \<times> sfield) option" where
  "FieldByName name t = field_search name [([], fields_of t)]"

section \<open>Places\<close>

text \<open>A place is a cell of the heap and the indices of the fields inside it.\<close>

type_synonym loc = "nat \<times> nat list"

fun follow :: "nat list \<Rightarrow> gval \<Rightarrow> gval" where
  "follow [] v = v"
| "follow (i # p) v = (case v of VStruct vs \<Rightarrow> follow p (vs ! i) | _ \<Rightarrow> v)"

fun put :: "nat list \<Rightarrow> gval \<Rightarrow> gval \<Rightarrow> gval" where
  "put [] x v = x"
| "put (i # p) x v = (case v of VStruct vs \<Rightarrow> VStruct (vs[i := put p x (vs ! i)]) | _ \<Rightarrow> v)"

definition read_loc :: "gheap \<Rightarrow> loc \<Rightarrow> gval" where
  "read_loc h l = follow (snd l) (snd (h ! fst l))"

definition write_loc :: "loc \<Rightarrow> gval \<Rightarrow> gheap \<Rightarrow> gheap" where
  "write_loc l x h = h[fst l := (fst (h ! fst l), put (snd l) x (snd (h ! fst l)))]"

text \<open>\<^verbatim>\<open>FieldByIndex\<close>: the way to a field, through embedded pointers; a nil on the way panics.\<close>

fun walk :: "gheap \<Rightarrow> loc \<Rightarrow> nat list \<Rightarrow> loc option" where
  "walk h l [] = Some l"
| "walk h l [i] = Some (fst l, snd l @ [i])"
| "walk h l (i # j # p) =
     (let l1 = (fst l, snd l @ [i])
      in case read_loc h l1 of
           VPtr None \<Rightarrow> None
         | VPtr (Some b) \<Rightarrow> walk h (b, []) (j # p)
         | _ \<Rightarrow> walk h l1 (j # p))"

section \<open>Well-typed heaps\<close>

text \<open>A value has a type relative to the types of the cells it points to.\<close>

function has_type :: "gtype list \<Rightarrow> gval \<Rightarrow> gtype \<Rightarrow> bool" where
  "has_type ts (VBasic s) t = (case t of TBasic n \<Rightarrow> True | _ \<Rightarrow> False)"
| "has_type ts (VPtr None) t = is_ptr t"
| "has_type ts (VPtr (Some a)) t = (is_ptr t \<and> a < length ts \<and> ts ! a = strip_ptr t)"
| "has_type ts (VStruct vs) t =
     (is_struct t \<and> length vs = length (fields_of t) \<and> (\<forall>i<length vs. has_type ts (vs ! i) (f_type (fields_of t ! i))))"
  by pat_completeness auto

termination by (relation "measure (\<lambda>(ts, v, t). size v)") (auto simp: less_Suc_eq_le intro!: size_list_estimation' nth_mem)

definition heap_ok :: "gheap \<Rightarrow> bool" where
  "heap_ok h = (\<forall>a<length h. has_type (map fst h) (snd (h ! a)) (fst (h ! a)))"

fun path_type :: "gtype \<Rightarrow> nat list \<Rightarrow> gtype option" where
  "path_type t [] = Some t"
| "path_type t (i # p) = (if is_struct t \<and> i < length (fields_of t) then path_type (f_type (fields_of t ! i)) p else None)"

definition loc_type :: "gheap \<Rightarrow> loc \<Rightarrow> gtype option" where
  "loc_type h l = (if fst l < length h then path_type (fst (h ! fst l)) (snd l) else None)"

text \<open>The type at the end of a way that goes through embedded pointers.\<close>

fun way_type :: "gtype \<Rightarrow> nat list \<Rightarrow> gtype option" where
  "way_type t [] = None"
| "way_type t [i] = (if is_struct t \<and> i < length (fields_of t) then Some (f_type (fields_of t ! i)) else None)"
| "way_type t (i # j # p) = (if is_struct t \<and> i < length (fields_of t) then way_type (strip_ptr (f_type (fields_of t ! i))) (j # p) else None)"

lemma path_type_append: "path_type t (p @ q) = Option.bind (path_type t p) (\<lambda>u. path_type u q)"
  by (induction t p rule: path_type.induct) auto

lemma has_type_struct: "has_type ts v t \<Longrightarrow> is_struct t \<Longrightarrow> \<exists>vs. v = VStruct vs"
proof (cases v)
  case (VPtr q)
  then show "has_type ts v t \<Longrightarrow> is_struct t \<Longrightarrow> \<exists>vs. v = VStruct vs" by (cases q; cases t) auto
qed (cases t; auto)+

lemma has_type_follow: "has_type ts v t \<Longrightarrow> path_type t p = Some u \<Longrightarrow> has_type ts (follow p v) u"
proof (induction p arbitrary: v t)
  case (Cons i p)
  then obtain vs where v: "v = VStruct vs" using has_type_struct[of ts v t] by (auto split: if_splits)
  with Cons show ?case by (auto split: if_splits)
qed simp

lemma has_type_put:
  "has_type ts v t \<Longrightarrow> path_type t p = Some u \<Longrightarrow> has_type ts x u \<Longrightarrow> has_type ts (put p x v) t"
proof (induction p arbitrary: v t)
  case (Cons i p)
  then obtain vs where v: "v = VStruct vs" using has_type_struct[of ts v t] by (auto split: if_splits)
  with Cons show ?case by (auto simp: nth_list_update split: if_splits)
qed simp

lemma read_loc_typed: "heap_ok h \<Longrightarrow> loc_type h l = Some t \<Longrightarrow> has_type (map fst h) (read_loc h l) t"
  by (auto simp: heap_ok_def loc_type_def read_loc_def intro: has_type_follow split: if_splits)

lemma map_fst_write [simp]: "map fst (write_loc l x h) = map fst h"
  by (cases "fst l < length h") (simp_all add: write_loc_def map_update list_update_same_conv list_update_beyond)

lemma length_write [simp]: "length (write_loc l x h) = length h"
  by (simp add: write_loc_def)

lemma write_loc_ok:
  assumes "heap_ok h" "loc_type h l = Some t" "has_type (map fst h) x t"
  shows "heap_ok (write_loc l x h)"
proof -
  from assms(2) have l: "fst l < length h" "path_type (fst (h ! fst l)) (snd l) = Some t" by (auto simp: loc_type_def split: if_splits)
  have "has_type (map fst h) (snd (write_loc l x h ! a)) (fst (write_loc l x h ! a))" if "a < length h" for a
  proof (cases "a = fst l")
    case True
    with l assms show ?thesis by (auto simp: write_loc_def heap_ok_def intro: has_type_put)
  next
    case False
    with that assms(1) show ?thesis by (simp add: write_loc_def heap_ok_def)
  qed
  then show ?thesis by (simp add: heap_ok_def)
qed

text \<open>What is well typed stays so when cells are added.\<close>

lemma has_type_grow: "has_type ts v t \<Longrightarrow> has_type (ts @ us) v t"
  by (induction ts v t rule: has_type.induct) (auto simp: nth_append)

lemma heap_ok_alloc: "heap_ok h \<Longrightarrow> has_type (map fst h) v t \<Longrightarrow> heap_ok (h @ [(t, v)])"
  by (auto simp: heap_ok_def nth_append less_Suc_eq intro: has_type_grow)

lemma walk_typed:
  assumes "heap_ok h" "loc_type h l = Some t" "way_type t p = Some u" "walk h l p = Some l'"
  shows "loc_type h l' = Some u"
  using assms
proof (induction h l p arbitrary: t rule: walk.induct)
  case (2 h l i)
  then show ?case by (auto simp: loc_type_def path_type_append split: if_splits)
next
  case (3 h l i j p)
  let ?l = "(fst l, snd l @ [i])" and ?ft = "f_type (fields_of t ! i)"
  from "3.prems" have f: "is_struct t" "i < length (fields_of t)" "way_type (strip_ptr ?ft) (j # p) = Some u"
    by (auto split: if_splits)
  have lt: "loc_type h ?l = Some ?ft"
    using "3.prems"(2) f(1,2) by (auto simp: loc_type_def path_type_append split: if_splits)
  have ty: "has_type (map fst h) (read_loc h ?l) ?ft" using "3.prems"(1) lt by (rule read_loc_typed)
  show ?case
  proof (cases "read_loc h ?l")
    case (VPtr q)
    with "3.prems"(4) obtain b where b: "q = Some b" by (cases q) (auto simp: Let_def)
    with ty VPtr have "loc_type h (b, []) = Some (strip_ptr ?ft)" by (auto simp: loc_type_def)
    moreover have "walk h (b, []) (j # p) = Some l'" using "3.prems"(4) VPtr b by (simp add: Let_def)
    ultimately show ?thesis using "3.IH"(2)[OF refl] VPtr b "3.prems"(1) f(3) by blast
  next
    case (VBasic s)
    with ty f(3) show ?thesis by (cases ?ft; cases p) auto
  next
    case (VStruct vs)
    with ty have "strip_ptr ?ft = ?ft" by (cases ?ft) auto
    moreover have "walk h ?l (j # p) = Some l'" using "3.prems"(4) VStruct by (simp add: Let_def)
    ultimately show ?thesis using "3.IH"(3)[OF refl] VStruct "3.prems"(1) f(3) lt by simp
  qed
qed auto

section \<open>What a lookup finds\<close>

text \<open>Every struct the search scans lies at the end of a way of embedded fields.\<close>

definition scans_ok :: "gtype \<Rightarrow> scan list \<Rightarrow> bool" where
  "scans_ok t scans = (\<forall>(idx, fs)\<in>set scans. \<forall>i p. i < length fs \<longrightarrow>
     way_type t (idx @ i # p) = (if p = [] then Some (f_type (fs ! i)) else way_type (strip_ptr (f_type (fs ! i))) p))"

lemma way_type_Cons: "is_struct t \<Longrightarrow> i < length (fields_of t) \<Longrightarrow>
    way_type t (i # p) = (if p = [] then Some (f_type (fields_of t ! i)) else way_type (strip_ptr (f_type (fields_of t ! i))) p)"
  by (cases p) auto

lemma scans_ok_start: "is_struct t \<Longrightarrow> scans_ok t [([], fields_of t)]"
  by (simp add: scans_ok_def way_type_Cons)

lemma scans_ok_next: "scans_ok t scans \<Longrightarrow> scans_ok t (next_level scans)"
  unfolding scans_ok_def next_level_def by (fastforce simp: in_set_enumerate_eq way_type_Cons)

lemma level_matches_ok:
  "scans_ok t scans \<Longrightarrow> (p, f) \<in> set (level_matches name scans) \<Longrightarrow> way_type t p = Some (f_type f) \<and> f_name f = name"
  unfolding scans_ok_def level_matches_def by (fastforce simp: in_set_enumerate_eq)

lemma field_search_ok:
  "scans_ok t scans \<Longrightarrow> field_search name scans = Some (p, f) \<Longrightarrow> way_type t p = Some (f_type f) \<and> f_name f = name"
proof (induction name scans rule: field_search.induct)
  case (1 name scans)
  show ?case
  proof (cases "level_matches name scans")
    case Nil
    with "1.prems"(2) have "scans \<noteq> []" "field_search name (next_level scans) = Some (p, f)" by (auto simp: field_search.simps[of name scans] split: if_splits)
    with "1.IH" Nil scans_ok_next[OF "1.prems"(1)] show ?thesis by blast
  next
    case (Cons m ms)
    with "1.prems"(2) have "m = (p, f)" by (cases ms) (auto simp: field_search.simps[of name scans] split: if_splits)
    with Cons level_matches_ok[OF "1.prems"(1), of p f name] show ?thesis by simp
  qed
qed

lemma FieldByName_ok:
  "is_struct t \<Longrightarrow> FieldByName name t = Some (p, f) \<Longrightarrow> way_type t p = Some (f_type f) \<and> f_name f = name"
  unfolding FieldByName_def by (rule field_search_ok[OF scans_ok_start])

text \<open>In a struct without embedded fields the lookup is the search of the list.\<close>

lemma FieldByName_flat:
  assumes "list_all (\<lambda>f. \<not> f_anon f) fs" "distinct (map f_name fs)" "i < length fs"
  shows "FieldByName (f_name (fs ! i)) (TStruct n fs) = Some ([i], fs ! i)"
proof -
  have "filter (\<lambda>(j, f). f_name f = f_name (fs ! i)) (enumerate k fs) = [(k + i, fs ! i)]" for k
    using assms(2,3)
  proof (induction fs arbitrary: i k)
    case (Cons f fs)
    show ?case
    proof (cases i)
      case 0
      have "filter (\<lambda>(j, g). f_name g = f_name f) (enumerate (Suc k) fs) = []"
      proof -
        have "g \<in> set fs" if "(j, g) \<in> set (enumerate (Suc k) fs)" for j g
          using that unfolding enumerate_eq_zip by (rule set_zip_rightD)
        then have "f_name g \<noteq> f_name f" if "(j, g) \<in> set (enumerate (Suc k) fs)" for j g
          using that Cons.prems(1) by (fastforce simp: image_iff)
        then show ?thesis by (auto simp: filter_empty_conv)
      qed
      with 0 show ?thesis by simp
    next
      case (Suc j)
      with Cons.prems have "f_name f \<noteq> f_name (fs ! j)" by (auto simp: image_iff)
      with Suc Cons.IH[of j "Suc k"] Cons.prems show ?thesis by simp
    qed
  qed simp
  from this[of 0] show ?thesis by (simp add: FieldByName_def field_search.simps level_matches_def)
qed

end
