(* ===== verification/Comm_Copy.thy ===== *)
theory Comm_Copy
  imports Go_Reflect "HOL-Library.Sublist"
begin

text \<open>
  \<^verbatim>\<open>DeepFields\<close> and \<^verbatim>\<open>StructCopy\<close> of \<^verbatim>\<open>util/comm/def.go\<close>: copying the fields of one struct to the fields of the same name of
  another, through embedded structs and across one level of pointers.
\<close>

section \<open>The operations\<close>

text \<open>\<^verbatim>\<open>NumField\<close> panics on a type that is not a struct.\<close>

fun deep :: "gtype \<Rightarrow> sfield list" where
  "deep (TStruct n fs) = concat (map (\<lambda>(nm, a, t). if a \<and> is_struct t then deep t else [(nm, a, t)]) fs)"
| "deep _ = []"

definition DeepFields :: "gtype \<Rightarrow> sfield list option" where
  "DeepFields t = (if is_struct t then Some (deep t) else None)"

fun zero_val :: "gtype \<Rightarrow> gval" where
  "zero_val (TBasic n) = VBasic []"
| "zero_val (TPtr t) = VPtr None"
| "zero_val (TStruct n fs) = VStruct (map (\<lambda>(nm, a, t). zero_val t) fs)"

text \<open>
  A field found by name: nothing when there is no such field (the invalid value), a panic when the way to it has a nil
  pointer or the value is not a struct.
\<close>

definition value_field :: "gheap \<Rightarrow> nat \<Rightarrow> gtype \<Rightarrow> string \<Rightarrow> (loc \<times> gtype) option option" where
  "value_field h a t name =
     (if \<not> is_struct t then None
      else case FieldByName name t of
             None \<Rightarrow> Some None
           | Some (p, f) \<Rightarrow> (case walk h (a, []) p of None \<Rightarrow> None | Some l \<Rightarrow> Some (Some (l, f_type f))))"

definition set_field :: "string \<Rightarrow> loc \<Rightarrow> gval \<Rightarrow> gheap \<Rightarrow> gheap option" where
  "set_field name l x h = (if exported name then Some (write_loc l x h) else None)"

text \<open>\<^verbatim>\<open>reflect.New\<close>: a new cell with the zero value, which the field then points to and which gets the value.\<close>

definition copy_to_new :: "string \<Rightarrow> loc \<Rightarrow> loc \<times> gtype \<Rightarrow> gheap \<Rightarrow> gheap option" where
  "copy_to_new name dl = (\<lambda>(sl, st) h.
     case set_field name dl (VPtr (Some (length h))) (h @ [(st, zero_val st)]) of
       None \<Rightarrow> None
     | Some h1 \<Rightarrow> Some (write_loc (length h, []) (read_loc h1 sl) h1))"

text \<open>The three rules for a pair of fields: same type, from a pointer, to a new pointer.\<close>

definition copy_value :: "string \<Rightarrow> loc \<times> gtype \<Rightarrow> loc \<times> gtype \<Rightarrow> gheap \<Rightarrow> gheap option" where
  "copy_value name = (\<lambda>(dl, dt) (sl, st) h.
     if st = dt \<and> exported name then Some (write_loc dl (read_loc h sl) h)
     else case read_loc h sl of
            VPtr (Some b) \<Rightarrow>
              if st = TPtr dt then set_field name dl (snd (h ! b)) h
              else if dt = TPtr st then copy_to_new name dl (sl, st) h
              else Some h
          | _ \<Rightarrow> if dt = TPtr st then copy_to_new name dl (sl, st) h else Some h)"

definition copy_field :: "nat \<times> gtype \<Rightarrow> nat \<times> gtype \<Rightarrow> sfield \<Rightarrow> gheap \<Rightarrow> gheap option" where
  "copy_field d s f h =
     (if f_anon f then Some h
      else case value_field h (fst d) (snd d) (f_name f) of
             None \<Rightarrow> None
           | Some dst \<Rightarrow>
               (case value_field h (fst s) (snd s) (f_name f) of
                  None \<Rightarrow> None
                | Some src \<Rightarrow>
                    (case dst of
                       None \<Rightarrow> Some h
                     | Some dv \<Rightarrow> (case src of None \<Rightarrow> None | Some sv \<Rightarrow> copy_value (f_name f) dv sv h))))"

fun copy_fields :: "nat \<times> gtype \<Rightarrow> nat \<times> gtype \<Rightarrow> sfield list \<Rightarrow> gheap \<Rightarrow> gheap option" where
  "copy_fields d s [] h = Some h"
| "copy_fields d s (f # fs) h = (case copy_field d s f h of None \<Rightarrow> None | Some h1 \<Rightarrow> copy_fields d s fs h1)"

text \<open>The arguments are interface values: nil, or a dynamic type with a value.\<close>

definition StructCopy :: "(gtype \<times> gval) option \<Rightarrow> (gtype \<times> gval) option \<Rightarrow> gheap \<Rightarrow> gheap option" where
  "StructCopy dst src h =
     (case (dst, src) of
        (Some (dt, dv), Some (st, sv)) \<Rightarrow>
          if \<not> is_ptr st \<or> \<not> is_ptr dt \<or> is_ptr (strip_ptr st) \<or> is_ptr (strip_ptr dt) then None
          else (case (dv, sv) of
                  (VPtr (Some d), VPtr (Some s)) \<Rightarrow>
                    (case DeepFields (strip_ptr st) of
                       None \<Rightarrow> None
                     | Some fs \<Rightarrow> copy_fields (d, strip_ptr dt) (s, strip_ptr st) fs h)
                | _ \<Rightarrow> None)
      | _ \<Rightarrow> None)"

section \<open>Types are kept\<close>

text \<open>The heap after an operation: well typed, and the cells there were before have the types they had.\<close>

definition extends :: "gheap \<Rightarrow> gheap \<Rightarrow> bool" where
  "extends h h' = (heap_ok h' \<and> prefix (map fst h) (map fst h'))"

lemma extends_refl: "heap_ok h \<Longrightarrow> extends h h"
  by (simp add: extends_def)

lemma extends_trans: "extends h h' \<Longrightarrow> extends h' h'' \<Longrightarrow> extends h h''"
  by (auto simp: extends_def intro: prefix_order.trans)

lemma extends_cell: "extends h h' \<Longrightarrow> a < length h \<Longrightarrow> a < length h' \<and> fst (h' ! a) = fst (h ! a)"
  unfolding extends_def prefix_def by (metis length_append length_map nth_append nth_map trans_less_add1)

lemma extends_loc: "extends h h' \<Longrightarrow> loc_type h l = Some t \<Longrightarrow> loc_type h' l = Some t"
  using extends_cell[of h h' "fst l"] by (auto simp: loc_type_def split: if_splits)

lemma extends_write:
  assumes "heap_ok h" "loc_type h l = Some t" "has_type (map fst h) x t"
  shows "extends h (write_loc l x h)"
  using write_loc_ok[OF assms] by (simp add: extends_def)

lemma zero_val_typed: "has_type ts (zero_val t) t"
proof (induction t rule: zero_val.induct)
  case (3 n fs)
  have "has_type ts (case fs ! i of (nm, a, t) \<Rightarrow> zero_val t) (snd (snd (fs ! i)))" if "i < length fs" for i
  proof -
    obtain nm a t where f: "fs ! i = (nm, a, t)" by (metis prod_cases3)
    with nth_mem[OF that] have "(nm, a, t) \<in> set fs" by simp
    with 3 f show ?thesis by simp
  qed
  then show ?case by (simp add: f_type_def)
qed simp_all

lemma extends_alloc: "heap_ok h \<Longrightarrow> extends h (h @ [(t, zero_val t)])"
  using heap_ok_alloc[OF _ zero_val_typed] by (simp add: extends_def)

lemma value_field_typed:
  assumes "heap_ok h" "a < length h" "fst (h ! a) = t" "value_field h a t name = Some (Some (l, u))"
  shows "loc_type h l = Some u"
proof -
  from assms(4) obtain p f where f: "is_struct t" "FieldByName name t = Some (p, f)" "walk h (a, []) p = Some l" "u = f_type f"
    by (auto simp: value_field_def split: if_splits option.splits)
  have "loc_type h (a, []) = Some t" using assms(2,3) by (simp add: loc_type_def)
  from walk_typed[OF assms(1) this _ f(3)] FieldByName_ok[OF f(1,2)] f(4) show ?thesis by blast
qed

lemma copy_to_new_typed:
  assumes "heap_ok h" "loc_type h dl = Some (TPtr st)" "loc_type h sl = Some st" "copy_to_new name dl (sl, st) h = Some h'"
  shows "extends h h'"
proof -
  let ?h = "h @ [(st, zero_val st)]"
  from assms(4) have n: "exported name" and h': "h' = write_loc (length h, []) (read_loc (write_loc dl (VPtr (Some (length h))) ?h) sl) (write_loc dl (VPtr (Some (length h))) ?h)"
    by (auto simp: copy_to_new_def set_field_def split: if_splits)
  have e0: "extends h ?h" using assms(1) by (rule extends_alloc)
  have e1: "extends ?h (write_loc dl (VPtr (Some (length h))) ?h)" (is "extends _ ?h1")
    using e0 extends_loc[OF e0 assms(2)] by (intro extends_write) (auto simp: extends_def nth_append)
  note e = extends_trans[OF e0 e1]
  have ok1: "heap_ok ?h1" using e1 by (simp add: extends_def)
  have "loc_type ?h (length h, []) = Some st" by (simp add: loc_type_def)
  from extends_loc[OF e1 this] have "extends ?h1 h'"
    unfolding h' using ok1 read_loc_typed[OF ok1 extends_loc[OF e assms(3)]] by (intro extends_write)
  with e show ?thesis by (rule extends_trans)
qed

lemma copy_value_typed:
  assumes "heap_ok h" "loc_type h dl = Some dt" "loc_type h sl = Some st" "copy_value name (dl, dt) (sl, st) h = Some h'"
  shows "extends h h'"
proof (cases "st = dt \<and> exported name")
  case True
  with assms show ?thesis using read_loc_typed[OF assms(1,3)] by (auto simp: copy_value_def intro: extends_write)
next
  case no1: False
  have new: "extends h h'" if "dt = TPtr st" "copy_to_new name dl (sl, st) h = Some h'"
    using copy_to_new_typed[OF assms(1) _ assms(3) that(2)] assms(2) that(1) by simp
  show ?thesis
  proof (cases "\<exists>b. read_loc h sl = VPtr (Some b) \<and> st = TPtr dt")
    case True
    then obtain b where b: "read_loc h sl = VPtr (Some b)" "st = TPtr dt" by blast
    have "b < length h" "fst (h ! b) = dt" using read_loc_typed[OF assms(1,3)] b by auto
    then have "has_type (map fst h) (snd (h ! b)) dt" using assms(1) by (auto simp: heap_ok_def)
    moreover have "h' = write_loc dl (snd (h ! b)) h" using assms(4) no1 b by (auto simp: copy_value_def set_field_def split: if_splits)
    ultimately show ?thesis using assms(1,2) by (auto intro: extends_write)
  next
    case False
    then have "(dt = TPtr st \<and> copy_to_new name dl (sl, st) h = Some h') \<or> h' = h"
      using assms(4) no1 by (auto simp: copy_value_def split: gval.splits option.splits if_splits)
    with new assms(1) extends_refl show ?thesis by blast
  qed
qed

lemma copy_field_typed:
  assumes "heap_ok h" "fst d < length h" "fst (h ! fst d) = snd d" "fst s < length h" "fst (h ! fst s) = snd s" "copy_field d s f h = Some h'"
  shows "extends h h'"
proof (cases "f_anon f")
  case True
  with assms show ?thesis by (simp add: copy_field_def extends_refl)
next
  case False
  with assms(6) obtain dst src where v: "value_field h (fst d) (snd d) (f_name f) = Some dst" "value_field h (fst s) (snd s) (f_name f) = Some src"
    by (auto simp: copy_field_def split: option.splits)
  show ?thesis
  proof (cases dst)
    case None
    with False v assms show ?thesis by (simp add: copy_field_def extends_refl)
  next
    case (Some dv)
    with False v assms(6) obtain sv where sv: "src = Some sv" "copy_value (f_name f) dv sv h = Some h'"
      by (auto simp: copy_field_def split: option.splits)
    obtain dl dt sl st where "dv = (dl, dt)" "sv = (sl, st)" by (cases dv; cases sv)
    with v Some sv value_field_typed[OF assms(1-3), of "f_name f" dl dt] value_field_typed[OF assms(1,4,5), of "f_name f" sl st]
    show ?thesis using copy_value_typed[OF assms(1), of dl dt sl st] by blast
  qed
qed

lemma copy_fields_typed:
  assumes "heap_ok h" "fst d < length h" "fst (h ! fst d) = snd d" "fst s < length h" "fst (h ! fst s) = snd s" "copy_fields d s fs h = Some h'"
  shows "extends h h'"
  using assms
proof (induction fs arbitrary: h)
  case Nil
  then show ?case by (simp add: extends_refl)
next
  case (Cons f fs)
  then obtain h1 where h1: "copy_field d s f h = Some h1" "copy_fields d s fs h1 = Some h'" by (auto split: option.splits)
  have e: "extends h h1" using copy_field_typed[OF Cons.prems(1-5) h1(1)] .
  then have "extends h1 h'"
    using Cons.IH[OF _ _ _ _ _ h1(2)] extends_cell[OF e Cons.prems(2)] extends_cell[OF e Cons.prems(4)] Cons.prems(3,5) by (simp add: extends_def)
  with e show ?case by (rule extends_trans)
qed

text \<open>The arguments of a call that does not panic at once: two pointers to structs.\<close>

lemma StructCopy_args:
  assumes "StructCopy (Some (dt, dv)) (Some (st, sv)) h = Some h'"
  obtains d s where "dv = VPtr (Some d)" "sv = VPtr (Some s)" "is_ptr dt" "is_ptr st" "is_struct (strip_ptr st)"
    "copy_fields (d, strip_ptr dt) (s, strip_ptr st) (deep (strip_ptr st)) h = Some h'"
  using assms by (auto simp: StructCopy_def DeepFields_def split: if_splits gval.splits option.splits)


section \<open>Copying between structs of one type\<close>

lemma value_field_flat:
  assumes "list_all (\<lambda>f. \<not> f_anon f) fs" "distinct (map f_name fs)" "i < length fs"
  shows "value_field h a (TStruct n fs) (f_name (fs ! i)) = Some (Some ((a, [i]), f_type (fs ! i)))"
  by (simp add: value_field_def FieldByName_flat[OF assms])

lemma copy_field_flat:
  assumes "list_all (\<lambda>f. \<not> f_anon f) fs" "distinct (map f_name fs)" "i < length fs"
  shows "copy_field (d, TStruct n fs) (s, TStruct n fs) (fs ! i) h =
    Some (if exported (f_name (fs ! i)) then write_loc (d, [i]) (read_loc h (s, [i])) h else h)"
proof -
  have "\<not> f_anon (fs ! i)" using assms(1,3) by (simp add: list_all_length)
  moreover have "f_type (fs ! i) \<noteq> TPtr (f_type (fs ! i))" by (metis add_cancel_left_right gtype.size(5) n_not_Suc_n)
  ultimately show ?thesis
    by (simp add: copy_field_def value_field_flat[OF assms] copy_value_def split: gval.split option.split)
qed

text \<open>The values of the exported fields come from the source, the others stay.\<close>

definition merge_fields :: "sfield list \<Rightarrow> gval list \<Rightarrow> gval list \<Rightarrow> gval list" where
  "merge_fields fs dvs svs = map (\<lambda>i. if exported (f_name (fs ! i)) then svs ! i else dvs ! i) [0..<length fs]"

lemma deep_flat: "list_all (\<lambda>f. \<not> f_anon f) fs \<Longrightarrow> deep (TStruct n fs) = fs"
  by (induction fs) (auto simp: f_anon_def)

lemma copy_fields_append: "copy_fields d s (xs @ ys) h = (case copy_fields d s xs h of None \<Rightarrow> None | Some h1 \<Rightarrow> copy_fields d s ys h1)"
  by (induction xs arbitrary: h) (auto split: option.splits)

lemma copy_fields_flat:
  assumes "list_all (\<lambda>f. \<not> f_anon f) fs" "distinct (map f_name fs)" "d \<noteq> s" "d < length h"
    "h ! d = (TStruct n fs, VStruct dvs)" "h ! s = (TStruct n fs, VStruct svs)" "length dvs = length fs" "k \<le> length fs"
  shows "copy_fields (d, TStruct n fs) (s, TStruct n fs) (take k fs) h =
    Some (h[d := (TStruct n fs, VStruct (map (\<lambda>i. if i < k \<and> exported (f_name (fs ! i)) then svs ! i else dvs ! i) [0..<length fs]))])"
  using assms(8)
proof (induction k)
  case 0
  have "map ((!) dvs) [0..<length fs] = dvs" using assms(7) by (metis map_nth)
  with assms(5) list_update_id[of h d] show ?case by simp
next
  case (Suc k)
  define v where "v = (\<lambda>k. map (\<lambda>i. if i < k \<and> exported (f_name (fs ! i)) then svs ! i else dvs ! i) [0..<length fs])"
  let ?h = "h[d := (TStruct n fs, VStruct (v k))]"
  have k: "k < length fs" "take (Suc k) fs = take k fs @ [fs ! k]" using Suc.prems by (simp_all add: take_Suc_conv_app_nth)
  have "read_loc ?h (s, [k]) = svs ! k" using assms(3,6) by (simp add: read_loc_def)
  moreover have "write_loc (d, [k]) x ?h = h[d := (TStruct n fs, VStruct ((v k)[k := x]))]" for x
    using assms(4) by (simp add: write_loc_def)
  moreover have "(v k)[k := svs ! k] = v (Suc k)" if "exported (f_name (fs ! k))"
    unfolding v_def using that k(1) by (intro nth_equalityI) (auto simp: nth_list_update less_Suc_eq)
  moreover have "v (Suc k) = v k" if "\<not> exported (f_name (fs ! k))" unfolding v_def using that by (auto simp: less_Suc_eq)
  ultimately have "copy_field (d, TStruct n fs) (s, TStruct n fs) (fs ! k) ?h = Some (h[d := (TStruct n fs, VStruct (v (Suc k)))])"
    using copy_field_flat[OF assms(1,2) k(1), of d n s ?h] by (cases "exported (f_name (fs ! k))") simp_all
  moreover have "copy_fields (d, TStruct n fs) (s, TStruct n fs) (take k fs) h = Some ?h" unfolding v_def using Suc by simp
  ultimately show ?case unfolding k(2) copy_fields_append v_def[symmetric] by (simp add: v_def)
qed

text \<open>
  Between two structs of the same type without embedded fields, \<^verbatim>\<open>StructCopy\<close> copies exactly the exported fields: it never
  panics, the destination gets the source's value in every exported field and keeps its own in every other, and
  nothing else on the heap changes.
\<close>

theorem StructCopy_same_type:
  assumes "list_all (\<lambda>f. \<not> f_anon f) fs" "distinct (map f_name fs)" "d \<noteq> s" "d < length h"
    "h ! d = (TStruct n fs, VStruct dvs)" "h ! s = (TStruct n fs, VStruct svs)" "length dvs = length fs"
  shows "StructCopy (Some (TPtr (TStruct n fs), VPtr (Some d))) (Some (TPtr (TStruct n fs), VPtr (Some s))) h =
    Some (h[d := (TStruct n fs, VStruct (merge_fields fs dvs svs))])"
proof -
  have "map (\<lambda>i. if i < length fs \<and> exported (f_name (fs ! i)) then svs ! i else dvs ! i) [0..<length fs] = merge_fields fs dvs svs"
    by (simp add: merge_fields_def)
  with copy_fields_flat[OF assms, of "length fs"] show ?thesis
    by (simp add: StructCopy_def DeepFields_def deep_flat[OF assms(1)] del: deep.simps)
qed

text \<open>The type of the program's \<^verbatim>\<open>RedisServer\<close> with one exported field added, as an instance.\<close>

definition copy_example :: "gheap" where
  "copy_example = (let t = TStruct ''conf'' [(''Host'', False, TBasic ''string''), (''auth'', False, TBasic ''string'')]
     in [(t, VStruct [VBasic ''a'', VBasic ''b'']), (t, VStruct [VBasic ''c'', VBasic ''d''])])"

theorem StructCopy_same_type_witness:
  "StructCopy (Some (TPtr (TStruct ''conf'' [(''Host'', False, TBasic ''string''), (''auth'', False, TBasic ''string'')]), VPtr (Some 0)))
     (Some (TPtr (TStruct ''conf'' [(''Host'', False, TBasic ''string''), (''auth'', False, TBasic ''string'')]), VPtr (Some 1))) copy_example =
   Some (copy_example[0 := (TStruct ''conf'' [(''Host'', False, TBasic ''string''), (''auth'', False, TBasic ''string'')],
     VStruct [VBasic ''c'', VBasic ''b''])])"
  using StructCopy_same_type[of "[(''Host'', False, TBasic ''string''), (''auth'', False, TBasic ''string'')]" 0 1 copy_example "''conf''"
      "[VBasic ''a'', VBasic ''b'']" "[VBasic ''c'', VBasic ''d'']"]
  by (simp add: f_anon_def f_name_def copy_example_def Let_def merge_fields_def exported_def)


text \<open>A copy through an embedded struct, from a pointer and to a new pointer.\<close>

definition mixed_heap :: gheap where
  "mixed_heap = [
     (TStruct ''D'' [(''A'', False, TBasic ''int''), (''B'', False, TBasic ''int''), (''C'', False, TPtr (TBasic ''int''))],
        VStruct [VBasic ''0'', VBasic ''0'', VPtr None]),
     (TStruct ''S'' [(''E'', True, TStruct ''E'' [(''A'', False, TBasic ''int'')]), (''B'', False, TPtr (TBasic ''int'')), (''C'', False, TBasic ''int'')],
        VStruct [VStruct [VBasic ''1''], VPtr (Some 2), VBasic ''3'']),
     (TBasic ''int'', VBasic ''2'')]"

definition mixed_result :: gheap where
  "mixed_result = mixed_heap[0 := (fst (mixed_heap ! 0), VStruct [VBasic ''1'', VBasic ''2'', VPtr (Some 3)])] @ [(TBasic ''int'', VBasic ''3'')]"

lemma mixed_copy:
  "StructCopy (Some (TPtr (fst (mixed_heap ! 0)), VPtr (Some 0))) (Some (TPtr (fst (mixed_heap ! 1)), VPtr (Some 1))) mixed_heap = Some mixed_result"
  by code_simp

lemma less_three: "(\<forall>a<3. P a) = (P 0 \<and> P 1 \<and> P (2::nat))"
  by (auto simp: numeral_3_eq_3 numeral_2_eq_2 less_Suc_eq)


section \<open>Ambiguous fields\<close>

lemma copy_fields_panic:
  assumes "f \<in> set fs" "\<And>h. copy_field d s f h = None"
  shows "copy_fields d s fs h = None"
  using assms(1)
proof (induction fs arbitrary: h)
  case (Cons g fs)
  then show ?case using assms(2) by (cases "copy_field d s g h") auto
qed simp

text \<open>
  A field that the source has in two embedded structs, so that its name is ambiguous there, makes \<^verbatim>\<open>StructCopy\<close> panic
  as soon as the destination has a field of that name: \<^verbatim>\<open>DeepFields\<close> lists the field, the lookup by name does not find it, and the
  code asks the invalid value for its type.
\<close>

theorem ambiguous_field_panics:
  assumes "f \<in> set (deep srcT)" "\<not> f_anon f" "FieldByName (f_name f) srcT = None" "FieldByName (f_name f) dstT \<noteq> None"
  shows "StructCopy (Some (TPtr dstT, dv)) (Some (TPtr srcT, sv)) h = None"
proof -
  have "copy_field (d, dstT) (s, srcT) f h = None" for d s h
  proof (cases "value_field h d dstT (f_name f)")
    case (Some dst)
    with assms(4) obtain x where "dst = Some x" by (auto simp: value_field_def split: option.splits if_splits)
    moreover have "value_field h s srcT (f_name f) \<in> {None, Some None}" using assms(3) by (simp add: value_field_def)
    ultimately show ?thesis using Some assms(2) by (auto simp: copy_field_def)
  qed (simp add: copy_field_def assms(2))
  from copy_fields_panic[OF assms(1) this] show ?thesis
    by (auto simp: StructCopy_def DeepFields_def split: gval.splits option.splits)
qed

definition ambiguous_type :: gtype where
  "ambiguous_type = TStruct ''S'' [(''A'', True, TStruct ''A'' [(''Id'', False, TBasic ''int'')]),
     (''B'', True, TStruct ''B'' [(''Id'', False, TBasic ''int'')])]"

theorem ambiguous_field_panics_witness:
  "StructCopy (Some (TPtr (TStruct ''D'' [(''Id'', False, TBasic ''int'')]), VPtr (Some 0))) (Some (TPtr ambiguous_type, VPtr (Some 1)))
     [(TStruct ''D'' [(''Id'', False, TBasic ''int'')], VStruct [VBasic ''1'']),
      (ambiguous_type, VStruct [VStruct [VBasic ''2''], VStruct [VBasic ''3'']])] = None"
proof -
  have "FieldByName ''Id'' ambiguous_type = None"
    by (simp add: FieldByName_def field_search.simps level_matches_def next_level_def ambiguous_type_def f_name_def f_anon_def f_type_def)
  moreover have "FieldByName ''Id'' (TStruct ''D'' [(''Id'', False, TBasic ''int'')]) \<noteq> None"
    by (simp add: FieldByName_def field_search.simps level_matches_def f_name_def)
  ultimately show ?thesis
    by (intro ambiguous_field_panics[of "(''Id'', False, TBasic ''int'')"]) (simp_all add: ambiguous_type_def f_name_def f_anon_def)
qed

end
