(* ===== verification/Comm_Types.thy ===== *)
theory Comm_Types
  imports Go_World
begin

text \<open>
  The data of package \<^verbatim>\<open>util/comm\<close> (\<^verbatim>\<open>def.go\<close>): process-table entries, the agent's
  configuration, and the policies that the console sends, with their JSON form.  Go promotes
  the fields of the embedded \<^verbatim>\<open>BasePolicy\<close>, so the JSON objects of the policies that embed it
  list its fields first.  Every struct is an interpretation of \<open>json_struct\<close>: what the agent
  marshals, it unmarshals to the same value.
\<close>

section \<open>Structs\<close>

record Pid =
  p_Name :: string
  p_Id :: int
  p_Result :: string
  p_Mode :: string

record AgentConf =
  StrategyAddr :: string
  StrategyPass :: string
  Version :: string
  HeartbeatChannel :: string
  SshKeyUploadUrl :: string
  HoneyPublicIp :: string

record SshKeyBody =
  SshKey :: string
  ssh_AgentId :: string

record BasePolicy =
  TaskId :: string
  AgentId :: string
  Status :: int
  Type :: string
  Data :: string

record FileBaitPolicy =
  fb_base :: BasePolicy
  Md5 :: string

record ProxyStrategy =
  px_base :: BasePolicy
  ListenPort :: int
  ServerType :: string
  HoneyIP :: string
  HoneyPort :: int
  px_Pid :: int
  Path :: string
  Date :: string
  SecCenter :: string

record HisBaitItem =
  h_Enabled :: bool
  User :: string
  Pass :: string
  Addr :: string
  Port :: string
  Url :: string
  RemotePath :: string
  LocalPath :: string
  Command :: string
  Htype :: string
  DbName :: string
  Accesskeyid :: string
  RegionId :: string
  Secretaccesskey :: string

record HisBaitPolicy =
  BashHistoryPath :: string
  RandomLine :: string
  Enabled :: bool
  Honeybits :: "HisBaitItem list"

section \<open>Zero values\<close>

definition Pid_zero :: Pid where
  "Pid_zero = \<lparr>p_Name = [], p_Id = 0, p_Result = [], p_Mode = []\<rparr>"

definition AgentConf_zero :: AgentConf where
  "AgentConf_zero = \<lparr>StrategyAddr = [], StrategyPass = [], Version = [], HeartbeatChannel = [],
                     SshKeyUploadUrl = [], HoneyPublicIp = []\<rparr>"

definition BasePolicy_zero :: BasePolicy where
  "BasePolicy_zero = \<lparr>TaskId = [], AgentId = [], Status = 0, Type = [], Data = []\<rparr>"

definition FileBaitPolicy_zero :: FileBaitPolicy where
  "FileBaitPolicy_zero = \<lparr>fb_base = BasePolicy_zero, Md5 = []\<rparr>"

definition ProxyStrategy_zero :: ProxyStrategy where
  "ProxyStrategy_zero = \<lparr>px_base = BasePolicy_zero, ListenPort = 0, ServerType = [], HoneyIP = [],
     HoneyPort = 0, px_Pid = 0, Path = [], Date = [], SecCenter = []\<rparr>"

section \<open>JSON form\<close>

definition Pid_json :: "Pid \<Rightarrow> json" where
  "Pid_json p = JObj [(''Name'', JStr (p_Name p)), (''Id'', JNum (Itoa (p_Id p))),
                      (''Result'', JStr (p_Result p)), (''Mode'', JStr (p_Mode p))]"

definition Pid_fields :: "Pid field list" where
  "Pid_fields = [(''Name'', str_field (\<lambda>s. p_Name_update (\<lambda>_. s))),
                 (''Id'', int_field (\<lambda>i. p_Id_update (\<lambda>_. i))),
                 (''Result'', str_field (\<lambda>s. p_Result_update (\<lambda>_. s))),
                 (''Mode'', str_field (\<lambda>s. p_Mode_update (\<lambda>_. s)))]"

definition Pid_ok :: "Pid \<Rightarrow> bool" where
  "Pid_ok p = (valid_utf8 (p_Name p) \<and> in_int64 (p_Id p) \<and> valid_utf8 (p_Result p) \<and> valid_utf8 (p_Mode p))"

definition AgentConf_fields :: "AgentConf field list" where
  "AgentConf_fields =
     [(''strategyAddr'', str_field (\<lambda>s. StrategyAddr_update (\<lambda>_. s))),
      (''strategyPass'', str_field (\<lambda>s. StrategyPass_update (\<lambda>_. s))),
      (''version'', str_field (\<lambda>s. Version_update (\<lambda>_. s))),
      (''heartbeatChannel'', str_field (\<lambda>s. HeartbeatChannel_update (\<lambda>_. s))),
      (''sshKeyUploadUrl'', str_field (\<lambda>s. SshKeyUploadUrl_update (\<lambda>_. s))),
      (''honeyPublicIp'', str_field (\<lambda>s. HoneyPublicIp_update (\<lambda>_. s)))]"

definition AgentConf_json :: "AgentConf \<Rightarrow> json" where
  "AgentConf_json c = JObj
     [(''strategyAddr'', JStr (StrategyAddr c)), (''strategyPass'', JStr (StrategyPass c)),
      (''version'', JStr (Version c)), (''heartbeatChannel'', JStr (HeartbeatChannel c)),
      (''sshKeyUploadUrl'', JStr (SshKeyUploadUrl c)), (''honeyPublicIp'', JStr (HoneyPublicIp c))]"

definition AgentConf_ok :: "AgentConf \<Rightarrow> bool" where
  "AgentConf_ok c = (valid_utf8 (StrategyAddr c) \<and> valid_utf8 (StrategyPass c) \<and> valid_utf8 (Version c) \<and>
     valid_utf8 (HeartbeatChannel c) \<and> valid_utf8 (SshKeyUploadUrl c) \<and> valid_utf8 (HoneyPublicIp c))"

definition SshKeyBody_json :: "SshKeyBody \<Rightarrow> json" where
  "SshKeyBody_json b = JObj [(''ssh_key'', JStr (SshKey b)), (''agentid'', JStr (ssh_AgentId b))]"

definition BasePolicy_members :: "BasePolicy \<Rightarrow> (string \<times> json) list" where
  "BasePolicy_members b =
     [(''TaskId'', JStr (TaskId b)), (''AgentId'', JStr (AgentId b)), (''Status'', JNum (Itoa (Status b))),
      (''Type'', JStr (Type b)), (''Data'', JStr (Data b))]"

text \<open>The fields of the embedded struct, lifted to the struct that embeds it.\<close>

definition base_fields :: "((BasePolicy \<Rightarrow> BasePolicy) \<Rightarrow> 'r \<Rightarrow> 'r) \<Rightarrow> 'r field list" where
  "base_fields up =
     [(''TaskId'', str_field (\<lambda>s. up (TaskId_update (\<lambda>_. s)))),
      (''AgentId'', str_field (\<lambda>s. up (AgentId_update (\<lambda>_. s)))),
      (''Status'', int_field (\<lambda>i. up (Status_update (\<lambda>_. i)))),
      (''Type'', str_field (\<lambda>s. up (Type_update (\<lambda>_. s)))),
      (''Data'', str_field (\<lambda>s. up (Data_update (\<lambda>_. s))))]"

definition BasePolicy_ok :: "BasePolicy \<Rightarrow> bool" where
  "BasePolicy_ok b = (valid_utf8 (TaskId b) \<and> valid_utf8 (AgentId b) \<and> in_int64 (Status b) \<and>
                      valid_utf8 (Type b) \<and> valid_utf8 (Data b))"

definition BasePolicy_json :: "BasePolicy \<Rightarrow> json" where
  "BasePolicy_json b = JObj (BasePolicy_members b)"

definition BasePolicy_fields :: "BasePolicy field list" where
  "BasePolicy_fields = base_fields (\<lambda>f. f)"

definition FileBaitPolicy_json :: "FileBaitPolicy \<Rightarrow> json" where
  "FileBaitPolicy_json p = JObj (BasePolicy_members (fb_base p) @ [(''Md5'', JStr (Md5 p))])"

definition FileBaitPolicy_fields :: "FileBaitPolicy field list" where
  "FileBaitPolicy_fields = base_fields fb_base_update @ [(''Md5'', str_field (\<lambda>s. Md5_update (\<lambda>_. s)))]"

definition FileBaitPolicy_ok :: "FileBaitPolicy \<Rightarrow> bool" where
  "FileBaitPolicy_ok p = (BasePolicy_ok (fb_base p) \<and> valid_utf8 (Md5 p))"

definition ProxyStrategy_json :: "ProxyStrategy \<Rightarrow> json" where
  "ProxyStrategy_json p = JObj (BasePolicy_members (px_base p) @
     [(''ListenPort'', JNum (Itoa (ListenPort p))), (''ServerType'', JStr (ServerType p)),
      (''HoneyIP'', JStr (HoneyIP p)), (''HoneyPort'', JNum (Itoa (HoneyPort p))),
      (''Pid'', JNum (Itoa (px_Pid p))), (''Path'', JStr (Path p)), (''Date'', JStr (Date p)),
      (''SecCenter'', JStr (SecCenter p))])"

definition ProxyStrategy_fields :: "ProxyStrategy field list" where
  "ProxyStrategy_fields = base_fields px_base_update @
     [(''ListenPort'', int_field (\<lambda>i. ListenPort_update (\<lambda>_. i))),
      (''ServerType'', str_field (\<lambda>s. ServerType_update (\<lambda>_. s))),
      (''HoneyIP'', str_field (\<lambda>s. HoneyIP_update (\<lambda>_. s))),
      (''HoneyPort'', int_field (\<lambda>i. HoneyPort_update (\<lambda>_. i))),
      (''Pid'', int_field (\<lambda>i. px_Pid_update (\<lambda>_. i))),
      (''Path'', str_field (\<lambda>s. Path_update (\<lambda>_. s))),
      (''Date'', str_field (\<lambda>s. Date_update (\<lambda>_. s))),
      (''SecCenter'', str_field (\<lambda>s. SecCenter_update (\<lambda>_. s)))]"

definition ProxyStrategy_ok :: "ProxyStrategy \<Rightarrow> bool" where
  "ProxyStrategy_ok p = (BasePolicy_ok (px_base p) \<and> in_int64 (ListenPort p) \<and> valid_utf8 (ServerType p) \<and>
     valid_utf8 (HoneyIP p) \<and> in_int64 (HoneyPort p) \<and> in_int64 (px_Pid p) \<and> valid_utf8 (Path p) \<and>
     valid_utf8 (Date p) \<and> valid_utf8 (SecCenter p))"

section \<open>Round trips\<close>

lemma Pid_from_to:
  "Pid_ok p \<Longrightarrow> dec_struct Pid_fields (Pid_json p) Pid_zero = (p, True)"
  by (simp add: dec_struct_def Pid_json_def Pid_fields_def Pid_zero_def Pid_ok_def find_field_tl)

interpretation pid_struct: json_struct Pid_json "dec_struct Pid_fields" Pid_zero Pid_ok
proof unfold_locales
  fix p assume ok: "Pid_ok p"
  then show "dec_struct Pid_fields (Pid_json p) Pid_zero = (p, True)" by (rule Pid_from_to)
  from ok show "json_ok (Pid_json p)"
    by (auto simp: Pid_json_def Pid_ok_def intro!: valid_utf8_ascii simp: byte_of_def)
qed

interpretation conf_struct: json_struct AgentConf_json "dec_struct AgentConf_fields" AgentConf_zero AgentConf_ok
proof unfold_locales
  fix c assume ok: "AgentConf_ok c"
  then show "dec_struct AgentConf_fields (AgentConf_json c) AgentConf_zero = (c, True)"
    by (simp add: dec_struct_def AgentConf_json_def AgentConf_fields_def AgentConf_zero_def find_field_tl)
  from ok show "json_ok (AgentConf_json c)"
    by (auto simp: AgentConf_json_def AgentConf_ok_def byte_of_def)
qed

interpretation base_struct: json_struct BasePolicy_json "dec_struct BasePolicy_fields" BasePolicy_zero BasePolicy_ok
proof unfold_locales
  fix b assume ok: "BasePolicy_ok b"
  then show "dec_struct BasePolicy_fields (BasePolicy_json b) BasePolicy_zero = (b, True)"
    by (simp add: dec_struct_def BasePolicy_json_def BasePolicy_members_def BasePolicy_fields_def
        base_fields_def BasePolicy_zero_def BasePolicy_ok_def find_field_tl)
  from ok show "json_ok (BasePolicy_json b)"
    by (auto simp: BasePolicy_json_def BasePolicy_members_def BasePolicy_ok_def byte_of_def)
qed

interpretation file_bait_struct: json_struct FileBaitPolicy_json "dec_struct FileBaitPolicy_fields" FileBaitPolicy_zero FileBaitPolicy_ok
proof unfold_locales
  fix p assume ok: "FileBaitPolicy_ok p"
  then show "dec_struct FileBaitPolicy_fields (FileBaitPolicy_json p) FileBaitPolicy_zero = (p, True)"
    by (simp add: dec_struct_def FileBaitPolicy_json_def BasePolicy_members_def FileBaitPolicy_fields_def
        base_fields_def BasePolicy_zero_def FileBaitPolicy_zero_def BasePolicy_ok_def FileBaitPolicy_ok_def find_field_tl)
  from ok show "json_ok (FileBaitPolicy_json p)"
    by (auto simp: FileBaitPolicy_json_def BasePolicy_members_def BasePolicy_ok_def FileBaitPolicy_ok_def byte_of_def)
qed

interpretation proxy_struct: json_struct ProxyStrategy_json "dec_struct ProxyStrategy_fields" ProxyStrategy_zero ProxyStrategy_ok
proof unfold_locales
  fix p assume ok: "ProxyStrategy_ok p"
  then show "dec_struct ProxyStrategy_fields (ProxyStrategy_json p) ProxyStrategy_zero = (p, True)"
    by (simp add: dec_struct_def ProxyStrategy_json_def BasePolicy_members_def ProxyStrategy_fields_def
        base_fields_def BasePolicy_zero_def ProxyStrategy_zero_def BasePolicy_ok_def ProxyStrategy_ok_def find_field_tl)
  from ok show "json_ok (ProxyStrategy_json p)"
    by (auto simp: ProxyStrategy_json_def BasePolicy_members_def BasePolicy_ok_def ProxyStrategy_ok_def byte_of_def)
qed

end
