(* ===== verification/Comm_Msgs.thy ===== *)
theory Comm_Msgs
  imports Comm_Types
begin

text \<open>
  The structs of \<^verbatim>\<open>util/comm/def.go\<close> and \<^verbatim>\<open>msg.go\<close> that describe what the agent and its console exchange beyond the
  policies: plug-in policies, engine versions, audit records and the agent's own load.  They contain other structs and
  slices; a nil slice is \<^const>\<open>None\<close> and is written as null.  Every struct is an interpretation of \<open>json_struct\<close>.
\<close>

section \<open>Nested structs and slices\<close>

definition obj_field :: "(json \<Rightarrow> 'x \<Rightarrow> 'x \<times> bool) \<Rightarrow> ('r \<Rightarrow> 'x) \<Rightarrow> ('x \<Rightarrow> 'r \<Rightarrow> 'r) \<Rightarrow> json \<Rightarrow> 'r \<Rightarrow> 'r \<times> bool" where
  "obj_field dec get upd j r = (let (x, ok) = dec j (get r) in (upd x r, ok))"

fun dec_elems :: "(json \<Rightarrow> 'x \<Rightarrow> 'x \<times> bool) \<Rightarrow> 'x \<Rightarrow> json list \<Rightarrow> 'x list \<times> bool" where
  "dec_elems elem zero [] = ([], True)"
| "dec_elems elem zero (j # js) =
     (let (x, ok1) = elem j zero; (xs, ok2) = dec_elems elem zero js in (x # xs, ok1 \<and> ok2))"

definition list_field :: "(json \<Rightarrow> 'x \<Rightarrow> 'x \<times> bool) \<Rightarrow> 'x \<Rightarrow> ('x list option \<Rightarrow> 'r \<Rightarrow> 'r) \<Rightarrow> json \<Rightarrow> 'r \<Rightarrow> 'r \<times> bool" where
  "list_field elem zero upd j r =
     (case j of
        JArr js \<Rightarrow> (let (xs, ok) = dec_elems elem zero js in (upd (Some xs) r, ok))
      | JNull \<Rightarrow> (upd None r, True)
      | _ \<Rightarrow> (r, False))"

definition enc_list :: "('x \<Rightarrow> json) \<Rightarrow> 'x list option \<Rightarrow> json" where
  "enc_list enc l = (case l of None \<Rightarrow> JNull | Some xs \<Rightarrow> JArr (map enc xs))"

definition list_ok :: "('x \<Rightarrow> bool) \<Rightarrow> 'x list option \<Rightarrow> bool" where
  "list_ok ok l = (case l of None \<Rightarrow> True | Some xs \<Rightarrow> list_all ok xs)"

lemma dec_elems_enc: "list_all ok xs \<Longrightarrow> (\<And>x. ok x \<Longrightarrow> elem (enc x) zero = (x, True)) \<Longrightarrow> dec_elems elem zero (map enc xs) = (xs, True)"
  by (induction xs) auto

lemma list_field_enc:
  "list_ok ok l \<Longrightarrow> (\<And>x. ok x \<Longrightarrow> elem (enc x) zero = (x, True)) \<Longrightarrow> list_field elem zero upd (enc_list enc l) r = (upd l r, True)"
  by (cases l) (simp_all add: list_field_def enc_list_def list_ok_def dec_elems_enc)

lemma enc_list_ok: "list_ok ok l \<Longrightarrow> (\<And>x. ok x \<Longrightarrow> json_ok (enc x)) \<Longrightarrow> json_ok (enc_list enc l)"
  by (cases l) (auto simp: enc_list_def list_ok_def list_all_iff)

lemma dec_struct_JObj: "dec_struct fs (JObj kvs) r = dec_members fs kvs r"
  by (simp add: dec_struct_def)

text \<open>A slice of structs and a struct in a field survive like the struct itself.\<close>

context json_struct begin

lemma list_roundtrip: "list_ok ok l \<Longrightarrow> list_field from_json zero upd (enc_list to_json l) r = (upd l r, True)"
  by (rule list_field_enc[of ok l from_json to_json zero]) (auto intro: from_to)

lemma list_json_ok: "list_ok ok l \<Longrightarrow> json_ok (enc_list to_json l)"
  by (rule enc_list_ok[of ok l to_json]) (auto intro: to_ok)

lemma obj_roundtrip: "ok x \<Longrightarrow> get r = zero \<Longrightarrow> obj_field from_json get upd (to_json x) r = (upd x r, True)"
  by (simp add: obj_field_def from_to)

end

lemma strings_roundtrip: "list_field (str_field (\<lambda>s _. s)) [] upd (enc_list JStr l) r = (upd l r, True)"
  by (rule list_field_enc[where ok = "\<lambda>_. True"]) (auto simp: list_ok_def list_all_iff split: option.splits)

section \<open>Structs\<close>

record Plugin =
  pl_Modname :: string
  pl_Enable :: string
  pl_Updatetime :: string
  pl_Data :: string

record Policy =
  po_Agentid :: string
  po_Policyid :: string
  po_Md5sum :: string
  po_Plugins :: "Plugin list option"

record FileConf =
  fc_Debug :: bool
  fc_CertFile :: string
  fc_KeyFile :: string
  fc_CaFile :: string
  fc_AuthAddr :: string
  fc_CommAddr :: string
  fc_PolicyAddr :: string
  fc_PolicyPass :: string

record EngineStrategy =
  es_LatestVersion :: string
  es_Md5 :: string

record EngineStrategyResp =
  er_Code :: int
  er_Msg :: string
  er_Data :: EngineStrategy

record AuditReport =
  ar_Eventtype :: int
  ar_Createtime :: string

record AuditProcess =
  ap_Pid :: string
  ap_Ppid :: string
  ap_Title :: string
  ap_Name :: string
  ap_Exe :: string
  ap_Cwd :: string

record AuditFile =
  af_Path :: string
  af_Device :: string
  af_Inode :: string
  af_Mode :: string
  af_Uid :: string
  af_Gid :: string

record AuditData =
  ad_A0 :: string
  ad_A1 :: string
  ad_A2 :: string
  ad_A3 :: string
  ad_Arch :: string
  ad_Argc :: string
  ad_Exit :: string
  ad_Syscall :: string
  ad_Tty :: string

record AuditPath =
  au_CapFe :: string
  au_CapFi :: string
  au_CapFp :: string
  au_CapFrootid :: string
  au_CapFver :: string
  au_Dev :: string
  au_Inode :: string
  au_Item :: string
  au_Mode :: string
  au_Name :: string
  au_Nametype :: string
  au_Ogid :: string
  au_Ouid :: string
  au_Rdev :: string

record AuditMsg =
  am_Timestamp :: string
  am_Sequence :: int
  am_Category :: string
  am_Record_type :: string
  am_Result :: string
  am_Session :: string
  am_Tags :: "string list option"
  am_Process :: AuditProcess
  am_File :: AuditFile
  am_Data :: AuditData
  am_Paths :: "AuditPath list option"

record AgentMonitorMsg =
  mo_CPU :: string
  mo_Mem :: string
  mo_Plugins :: string
  mo_NetInRate :: string
  mo_NetOutRate :: string

section \<open>Zero values and JSON form\<close>

definition Plugin_zero :: Plugin where
  "Plugin_zero = \<lparr>pl_Modname = [], pl_Enable = [], pl_Updatetime = [], pl_Data = []\<rparr>"

definition Plugin_json :: "Plugin \<Rightarrow> json" where
  "Plugin_json x = JObj
     [(''modname'', JStr (pl_Modname x)), (''enable'', JStr (pl_Enable x)),
      (''updatetime'', JStr (pl_Updatetime x)), (''data'', JStr (pl_Data x))]"

definition Plugin_fields :: "Plugin field list" where
  "Plugin_fields =
     [(''modname'', str_field (\<lambda>s. pl_Modname_update (\<lambda>_. s))),
      (''enable'', str_field (\<lambda>s. pl_Enable_update (\<lambda>_. s))),
      (''updatetime'', str_field (\<lambda>s. pl_Updatetime_update (\<lambda>_. s))),
      (''data'', str_field (\<lambda>s. pl_Data_update (\<lambda>_. s)))]"

definition Plugin_ok :: "Plugin \<Rightarrow> bool" where
  "Plugin_ok x = (valid_utf8 (pl_Modname x) \<and> valid_utf8 (pl_Enable x) \<and> valid_utf8 (pl_Updatetime x) \<and>
     valid_utf8 (pl_Data x))"

definition Policy_zero :: Policy where
  "Policy_zero = \<lparr>po_Agentid = [], po_Policyid = [], po_Md5sum = [], po_Plugins = None\<rparr>"

definition Policy_json :: "Policy \<Rightarrow> json" where
  "Policy_json x = JObj
     [(''agentid'', JStr (po_Agentid x)), (''policyid'', JStr (po_Policyid x)), (''md5sum'', JStr (po_Md5sum x)),
      (''plugins'', enc_list Plugin_json (po_Plugins x))]"

definition Policy_fields :: "Policy field list" where
  "Policy_fields =
     [(''agentid'', str_field (\<lambda>s. po_Agentid_update (\<lambda>_. s))),
      (''policyid'', str_field (\<lambda>s. po_Policyid_update (\<lambda>_. s))),
      (''md5sum'', str_field (\<lambda>s. po_Md5sum_update (\<lambda>_. s))),
      (''plugins'', list_field (dec_struct Plugin_fields) Plugin_zero (\<lambda>l. po_Plugins_update (\<lambda>_. l)))]"

definition Policy_ok :: "Policy \<Rightarrow> bool" where
  "Policy_ok x = (valid_utf8 (po_Agentid x) \<and> valid_utf8 (po_Policyid x) \<and> valid_utf8 (po_Md5sum x) \<and>
     list_ok Plugin_ok (po_Plugins x))"

definition FileConf_zero :: FileConf where
  "FileConf_zero = \<lparr>fc_Debug = False, fc_CertFile = [], fc_KeyFile = [], fc_CaFile = [], fc_AuthAddr = [], fc_CommAddr = [],
     fc_PolicyAddr = [], fc_PolicyPass = []\<rparr>"

definition FileConf_json :: "FileConf \<Rightarrow> json" where
  "FileConf_json x = JObj
     [(''debug'', JBool (fc_Debug x)), (''certFile'', JStr (fc_CertFile x)), (''keyFile'', JStr (fc_KeyFile x)),
      (''caFile'', JStr (fc_CaFile x)), (''authAddr'', JStr (fc_AuthAddr x)),
      (''commAddr'', JStr (fc_CommAddr x)), (''policyAddr'', JStr (fc_PolicyAddr x)),
      (''policyPass'', JStr (fc_PolicyPass x))]"

definition FileConf_fields :: "FileConf field list" where
  "FileConf_fields =
     [(''debug'', bool_field (\<lambda>b. fc_Debug_update (\<lambda>_. b))),
      (''certFile'', str_field (\<lambda>s. fc_CertFile_update (\<lambda>_. s))),
      (''keyFile'', str_field (\<lambda>s. fc_KeyFile_update (\<lambda>_. s))),
      (''caFile'', str_field (\<lambda>s. fc_CaFile_update (\<lambda>_. s))),
      (''authAddr'', str_field (\<lambda>s. fc_AuthAddr_update (\<lambda>_. s))),
      (''commAddr'', str_field (\<lambda>s. fc_CommAddr_update (\<lambda>_. s))),
      (''policyAddr'', str_field (\<lambda>s. fc_PolicyAddr_update (\<lambda>_. s))),
      (''policyPass'', str_field (\<lambda>s. fc_PolicyPass_update (\<lambda>_. s)))]"

definition FileConf_ok :: "FileConf \<Rightarrow> bool" where
  "FileConf_ok x = (valid_utf8 (fc_CertFile x) \<and> valid_utf8 (fc_KeyFile x) \<and> valid_utf8 (fc_CaFile x) \<and>
     valid_utf8 (fc_AuthAddr x) \<and> valid_utf8 (fc_CommAddr x) \<and> valid_utf8 (fc_PolicyAddr x) \<and>
     valid_utf8 (fc_PolicyPass x))"

definition EngineStrategy_zero :: EngineStrategy where
  "EngineStrategy_zero = \<lparr>es_LatestVersion = [], es_Md5 = []\<rparr>"

definition EngineStrategy_json :: "EngineStrategy \<Rightarrow> json" where
  "EngineStrategy_json x = JObj
     [(''LatestVersion'', JStr (es_LatestVersion x)), (''Md5'', JStr (es_Md5 x))]"

definition EngineStrategy_fields :: "EngineStrategy field list" where
  "EngineStrategy_fields =
     [(''LatestVersion'', str_field (\<lambda>s. es_LatestVersion_update (\<lambda>_. s))),
      (''Md5'', str_field (\<lambda>s. es_Md5_update (\<lambda>_. s)))]"

definition EngineStrategy_ok :: "EngineStrategy \<Rightarrow> bool" where
  "EngineStrategy_ok x = (valid_utf8 (es_LatestVersion x) \<and> valid_utf8 (es_Md5 x))"

definition EngineStrategyResp_zero :: EngineStrategyResp where
  "EngineStrategyResp_zero = \<lparr>er_Code = 0, er_Msg = [], er_Data = EngineStrategy_zero\<rparr>"

definition EngineStrategyResp_json :: "EngineStrategyResp \<Rightarrow> json" where
  "EngineStrategyResp_json x = JObj
     [(''Code'', JNum (Itoa (er_Code x))), (''Msg'', JStr (er_Msg x)), (''Data'', EngineStrategy_json (er_Data x))]"

definition EngineStrategyResp_fields :: "EngineStrategyResp field list" where
  "EngineStrategyResp_fields =
     [(''Code'', int_field (\<lambda>i. er_Code_update (\<lambda>_. i))),
      (''Msg'', str_field (\<lambda>s. er_Msg_update (\<lambda>_. s))),
      (''Data'', obj_field (dec_struct EngineStrategy_fields) er_Data (\<lambda>x. er_Data_update (\<lambda>_. x)))]"

definition EngineStrategyResp_ok :: "EngineStrategyResp \<Rightarrow> bool" where
  "EngineStrategyResp_ok x = (in_int64 (er_Code x) \<and> valid_utf8 (er_Msg x) \<and> EngineStrategy_ok (er_Data x))"

definition AuditReport_zero :: AuditReport where
  "AuditReport_zero = \<lparr>ar_Eventtype = 0, ar_Createtime = []\<rparr>"

definition AuditReport_json :: "AuditReport \<Rightarrow> json" where
  "AuditReport_json x = JObj
     [(''eventtype'', JNum (Itoa (ar_Eventtype x))), (''createtime'', JStr (ar_Createtime x))]"

definition AuditReport_fields :: "AuditReport field list" where
  "AuditReport_fields =
     [(''eventtype'', int_field (\<lambda>i. ar_Eventtype_update (\<lambda>_. i))),
      (''createtime'', str_field (\<lambda>s. ar_Createtime_update (\<lambda>_. s)))]"

definition AuditReport_ok :: "AuditReport \<Rightarrow> bool" where
  "AuditReport_ok x = (in_int64 (ar_Eventtype x) \<and> valid_utf8 (ar_Createtime x))"

definition AuditProcess_zero :: AuditProcess where
  "AuditProcess_zero = \<lparr>ap_Pid = [], ap_Ppid = [], ap_Title = [], ap_Name = [], ap_Exe = [], ap_Cwd = []\<rparr>"

definition AuditProcess_json :: "AuditProcess \<Rightarrow> json" where
  "AuditProcess_json x = JObj
     [(''pid'', JStr (ap_Pid x)), (''ppid'', JStr (ap_Ppid x)), (''title'', JStr (ap_Title x)),
      (''name'', JStr (ap_Name x)), (''exe'', JStr (ap_Exe x)), (''cwd'', JStr (ap_Cwd x))]"

definition AuditProcess_fields :: "AuditProcess field list" where
  "AuditProcess_fields =
     [(''pid'', str_field (\<lambda>s. ap_Pid_update (\<lambda>_. s))),
      (''ppid'', str_field (\<lambda>s. ap_Ppid_update (\<lambda>_. s))),
      (''title'', str_field (\<lambda>s. ap_Title_update (\<lambda>_. s))),
      (''name'', str_field (\<lambda>s. ap_Name_update (\<lambda>_. s))),
      (''exe'', str_field (\<lambda>s. ap_Exe_update (\<lambda>_. s))),
      (''cwd'', str_field (\<lambda>s. ap_Cwd_update (\<lambda>_. s)))]"

definition AuditProcess_ok :: "AuditProcess \<Rightarrow> bool" where
  "AuditProcess_ok x = (valid_utf8 (ap_Pid x) \<and> valid_utf8 (ap_Ppid x) \<and> valid_utf8 (ap_Title x) \<and>
     valid_utf8 (ap_Name x) \<and> valid_utf8 (ap_Exe x) \<and> valid_utf8 (ap_Cwd x))"

definition AuditFile_zero :: AuditFile where
  "AuditFile_zero = \<lparr>af_Path = [], af_Device = [], af_Inode = [], af_Mode = [], af_Uid = [], af_Gid = []\<rparr>"

definition AuditFile_json :: "AuditFile \<Rightarrow> json" where
  "AuditFile_json x = JObj
     [(''path'', JStr (af_Path x)), (''device'', JStr (af_Device x)), (''inode'', JStr (af_Inode x)),
      (''mode'', JStr (af_Mode x)), (''uid'', JStr (af_Uid x)), (''gid'', JStr (af_Gid x))]"

definition AuditFile_fields :: "AuditFile field list" where
  "AuditFile_fields =
     [(''path'', str_field (\<lambda>s. af_Path_update (\<lambda>_. s))),
      (''device'', str_field (\<lambda>s. af_Device_update (\<lambda>_. s))),
      (''inode'', str_field (\<lambda>s. af_Inode_update (\<lambda>_. s))),
      (''mode'', str_field (\<lambda>s. af_Mode_update (\<lambda>_. s))),
      (''uid'', str_field (\<lambda>s. af_Uid_update (\<lambda>_. s))),
      (''gid'', str_field (\<lambda>s. af_Gid_update (\<lambda>_. s)))]"

definition AuditFile_ok :: "AuditFile \<Rightarrow> bool" where
  "AuditFile_ok x = (valid_utf8 (af_Path x) \<and> valid_utf8 (af_Device x) \<and> valid_utf8 (af_Inode x) \<and>
     valid_utf8 (af_Mode x) \<and> valid_utf8 (af_Uid x) \<and> valid_utf8 (af_Gid x))"

definition AuditData_zero :: AuditData where
  "AuditData_zero = \<lparr>ad_A0 = [], ad_A1 = [], ad_A2 = [], ad_A3 = [], ad_Arch = [], ad_Argc = [], ad_Exit = [], ad_Syscall = [],
     ad_Tty = []\<rparr>"

definition AuditData_json :: "AuditData \<Rightarrow> json" where
  "AuditData_json x = JObj
     [(''a0'', JStr (ad_A0 x)), (''a1'', JStr (ad_A1 x)), (''a2'', JStr (ad_A2 x)), (''a3'', JStr (ad_A3 x)),
      (''arch'', JStr (ad_Arch x)), (''argc'', JStr (ad_Argc x)), (''exit'', JStr (ad_Exit x)),
      (''syscall'', JStr (ad_Syscall x)), (''tty'', JStr (ad_Tty x))]"

definition AuditData_fields :: "AuditData field list" where
  "AuditData_fields =
     [(''a0'', str_field (\<lambda>s. ad_A0_update (\<lambda>_. s))),
      (''a1'', str_field (\<lambda>s. ad_A1_update (\<lambda>_. s))),
      (''a2'', str_field (\<lambda>s. ad_A2_update (\<lambda>_. s))),
      (''a3'', str_field (\<lambda>s. ad_A3_update (\<lambda>_. s))),
      (''arch'', str_field (\<lambda>s. ad_Arch_update (\<lambda>_. s))),
      (''argc'', str_field (\<lambda>s. ad_Argc_update (\<lambda>_. s))),
      (''exit'', str_field (\<lambda>s. ad_Exit_update (\<lambda>_. s))),
      (''syscall'', str_field (\<lambda>s. ad_Syscall_update (\<lambda>_. s))),
      (''tty'', str_field (\<lambda>s. ad_Tty_update (\<lambda>_. s)))]"

definition AuditData_ok :: "AuditData \<Rightarrow> bool" where
  "AuditData_ok x = (valid_utf8 (ad_A0 x) \<and> valid_utf8 (ad_A1 x) \<and> valid_utf8 (ad_A2 x) \<and>
     valid_utf8 (ad_A3 x) \<and> valid_utf8 (ad_Arch x) \<and> valid_utf8 (ad_Argc x) \<and>
     valid_utf8 (ad_Exit x) \<and> valid_utf8 (ad_Syscall x) \<and> valid_utf8 (ad_Tty x))"

definition AuditPath_zero :: AuditPath where
  "AuditPath_zero = \<lparr>au_CapFe = [], au_CapFi = [], au_CapFp = [], au_CapFrootid = [], au_CapFver = [], au_Dev = [],
     au_Inode = [], au_Item = [], au_Mode = [], au_Name = [], au_Nametype = [], au_Ogid = [], au_Ouid = [],
     au_Rdev = []\<rparr>"

definition AuditPath_json :: "AuditPath \<Rightarrow> json" where
  "AuditPath_json x = JObj
     [(''cap_fe'', JStr (au_CapFe x)), (''cap_fi'', JStr (au_CapFi x)), (''cap_fp'', JStr (au_CapFp x)),
      (''cap_frootid'', JStr (au_CapFrootid x)), (''cap_fver'', JStr (au_CapFver x)), (''dev'', JStr (au_Dev x)),
      (''inode'', JStr (au_Inode x)), (''item'', JStr (au_Item x)), (''mode'', JStr (au_Mode x)),
      (''name'', JStr (au_Name x)), (''nametype'', JStr (au_Nametype x)), (''ogid'', JStr (au_Ogid x)),
      (''ouid'', JStr (au_Ouid x)), (''rdev'', JStr (au_Rdev x))]"

definition AuditPath_fields :: "AuditPath field list" where
  "AuditPath_fields =
     [(''cap_fe'', str_field (\<lambda>s. au_CapFe_update (\<lambda>_. s))),
      (''cap_fi'', str_field (\<lambda>s. au_CapFi_update (\<lambda>_. s))),
      (''cap_fp'', str_field (\<lambda>s. au_CapFp_update (\<lambda>_. s))),
      (''cap_frootid'', str_field (\<lambda>s. au_CapFrootid_update (\<lambda>_. s))),
      (''cap_fver'', str_field (\<lambda>s. au_CapFver_update (\<lambda>_. s))),
      (''dev'', str_field (\<lambda>s. au_Dev_update (\<lambda>_. s))),
      (''inode'', str_field (\<lambda>s. au_Inode_update (\<lambda>_. s))),
      (''item'', str_field (\<lambda>s. au_Item_update (\<lambda>_. s))),
      (''mode'', str_field (\<lambda>s. au_Mode_update (\<lambda>_. s))),
      (''name'', str_field (\<lambda>s. au_Name_update (\<lambda>_. s))),
      (''nametype'', str_field (\<lambda>s. au_Nametype_update (\<lambda>_. s))),
      (''ogid'', str_field (\<lambda>s. au_Ogid_update (\<lambda>_. s))),
      (''ouid'', str_field (\<lambda>s. au_Ouid_update (\<lambda>_. s))),
      (''rdev'', str_field (\<lambda>s. au_Rdev_update (\<lambda>_. s)))]"

definition AuditPath_ok :: "AuditPath \<Rightarrow> bool" where
  "AuditPath_ok x = (valid_utf8 (au_CapFe x) \<and> valid_utf8 (au_CapFi x) \<and> valid_utf8 (au_CapFp x) \<and>
     valid_utf8 (au_CapFrootid x) \<and> valid_utf8 (au_CapFver x) \<and> valid_utf8 (au_Dev x) \<and>
     valid_utf8 (au_Inode x) \<and> valid_utf8 (au_Item x) \<and> valid_utf8 (au_Mode x) \<and>
     valid_utf8 (au_Name x) \<and> valid_utf8 (au_Nametype x) \<and> valid_utf8 (au_Ogid x) \<and>
     valid_utf8 (au_Ouid x) \<and> valid_utf8 (au_Rdev x))"

definition AuditMsg_zero :: AuditMsg where
  "AuditMsg_zero = \<lparr>am_Timestamp = [], am_Sequence = 0, am_Category = [], am_Record_type = [], am_Result = [], am_Session = [],
     am_Tags = None, am_Process = AuditProcess_zero, am_File = AuditFile_zero, am_Data = AuditData_zero,
     am_Paths = None\<rparr>"

definition AuditMsg_json :: "AuditMsg \<Rightarrow> json" where
  "AuditMsg_json x = JObj
     [(''@timestamp'', JStr (am_Timestamp x)), (''sequence'', JNum (Itoa (am_Sequence x))),
      (''category'', JStr (am_Category x)), (''record_type'', JStr (am_Record_type x)),
      (''result'', JStr (am_Result x)), (''session'', JStr (am_Session x)), (''tags'', enc_list JStr (am_Tags x)),
      (''process'', AuditProcess_json (am_Process x)), (''file'', AuditFile_json (am_File x)),
      (''data'', AuditData_json (am_Data x)), (''paths'', enc_list AuditPath_json (am_Paths x))]"

definition AuditMsg_fields :: "AuditMsg field list" where
  "AuditMsg_fields =
     [(''@timestamp'', str_field (\<lambda>s. am_Timestamp_update (\<lambda>_. s))),
      (''sequence'', int_field (\<lambda>i. am_Sequence_update (\<lambda>_. i))),
      (''category'', str_field (\<lambda>s. am_Category_update (\<lambda>_. s))),
      (''record_type'', str_field (\<lambda>s. am_Record_type_update (\<lambda>_. s))),
      (''result'', str_field (\<lambda>s. am_Result_update (\<lambda>_. s))),
      (''session'', str_field (\<lambda>s. am_Session_update (\<lambda>_. s))),
      (''tags'', list_field (str_field (\<lambda>s _. s)) [] (\<lambda>l. am_Tags_update (\<lambda>_. l))),
      (''process'', obj_field (dec_struct AuditProcess_fields) am_Process (\<lambda>x. am_Process_update (\<lambda>_. x))),
      (''file'', obj_field (dec_struct AuditFile_fields) am_File (\<lambda>x. am_File_update (\<lambda>_. x))),
      (''data'', obj_field (dec_struct AuditData_fields) am_Data (\<lambda>x. am_Data_update (\<lambda>_. x))),
      (''paths'', list_field (dec_struct AuditPath_fields) AuditPath_zero (\<lambda>l. am_Paths_update (\<lambda>_. l)))]"

definition AuditMsg_ok :: "AuditMsg \<Rightarrow> bool" where
  "AuditMsg_ok x = (valid_utf8 (am_Timestamp x) \<and> in_int64 (am_Sequence x) \<and> valid_utf8 (am_Category x) \<and>
     valid_utf8 (am_Record_type x) \<and> valid_utf8 (am_Result x) \<and> valid_utf8 (am_Session x) \<and>
     list_ok valid_utf8 (am_Tags x) \<and> AuditProcess_ok (am_Process x) \<and> AuditFile_ok (am_File x) \<and>
     AuditData_ok (am_Data x) \<and> list_ok AuditPath_ok (am_Paths x))"

definition AgentMonitorMsg_zero :: AgentMonitorMsg where
  "AgentMonitorMsg_zero = \<lparr>mo_CPU = [], mo_Mem = [], mo_Plugins = [], mo_NetInRate = [], mo_NetOutRate = []\<rparr>"

definition AgentMonitorMsg_json :: "AgentMonitorMsg \<Rightarrow> json" where
  "AgentMonitorMsg_json x = JObj
     [(''cpu'', JStr (mo_CPU x)), (''mem'', JStr (mo_Mem x)), (''plugins'', JStr (mo_Plugins x)),
      (''netInRate'', JStr (mo_NetInRate x)), (''netOutRate'', JStr (mo_NetOutRate x))]"

definition AgentMonitorMsg_fields :: "AgentMonitorMsg field list" where
  "AgentMonitorMsg_fields =
     [(''cpu'', str_field (\<lambda>s. mo_CPU_update (\<lambda>_. s))),
      (''mem'', str_field (\<lambda>s. mo_Mem_update (\<lambda>_. s))),
      (''plugins'', str_field (\<lambda>s. mo_Plugins_update (\<lambda>_. s))),
      (''netInRate'', str_field (\<lambda>s. mo_NetInRate_update (\<lambda>_. s))),
      (''netOutRate'', str_field (\<lambda>s. mo_NetOutRate_update (\<lambda>_. s)))]"

definition AgentMonitorMsg_ok :: "AgentMonitorMsg \<Rightarrow> bool" where
  "AgentMonitorMsg_ok x = (valid_utf8 (mo_CPU x) \<and> valid_utf8 (mo_Mem x) \<and> valid_utf8 (mo_Plugins x) \<and>
     valid_utf8 (mo_NetInRate x) \<and> valid_utf8 (mo_NetOutRate x))"

section \<open>Round trips\<close>

interpretation js_Plugin: json_struct Plugin_json "dec_struct Plugin_fields" Plugin_zero Plugin_ok
proof unfold_locales
  fix x assume ok: "Plugin_ok x"
  then show "dec_struct Plugin_fields (Plugin_json x) Plugin_zero = (x, True)"
    by (simp add: dec_struct_JObj Plugin_json_def Plugin_fields_def Plugin_zero_def Plugin_ok_def find_field_tl)
  from ok show "json_ok (Plugin_json x)"
    by (auto simp: Plugin_json_def Plugin_ok_def byte_of_def)
qed

interpretation js_Policy: json_struct Policy_json "dec_struct Policy_fields" Policy_zero Policy_ok
proof unfold_locales
  fix x assume ok: "Policy_ok x"
  then show "dec_struct Policy_fields (Policy_json x) Policy_zero = (x, True)"
    by (simp add: dec_struct_JObj Policy_json_def Policy_fields_def Policy_zero_def Policy_ok_def find_field_tl
        strings_roundtrip js_Plugin.list_roundtrip)
  from ok show "json_ok (Policy_json x)"
    by (auto simp: Policy_json_def Policy_ok_def byte_of_def intro!: enc_list_ok[where ok = valid_utf8] js_Plugin.list_json_ok)
qed

interpretation js_FileConf: json_struct FileConf_json "dec_struct FileConf_fields" FileConf_zero FileConf_ok
proof unfold_locales
  fix x assume ok: "FileConf_ok x"
  then show "dec_struct FileConf_fields (FileConf_json x) FileConf_zero = (x, True)"
    by (simp add: dec_struct_JObj FileConf_json_def FileConf_fields_def FileConf_zero_def FileConf_ok_def find_field_tl)
  from ok show "json_ok (FileConf_json x)"
    by (auto simp: FileConf_json_def FileConf_ok_def byte_of_def)
qed

interpretation js_EngineStrategy: json_struct EngineStrategy_json "dec_struct EngineStrategy_fields" EngineStrategy_zero EngineStrategy_ok
proof unfold_locales
  fix x assume ok: "EngineStrategy_ok x"
  then show "dec_struct EngineStrategy_fields (EngineStrategy_json x) EngineStrategy_zero = (x, True)"
    by (simp add: dec_struct_JObj EngineStrategy_json_def EngineStrategy_fields_def EngineStrategy_zero_def EngineStrategy_ok_def find_field_tl)
  from ok show "json_ok (EngineStrategy_json x)"
    by (auto simp: EngineStrategy_json_def EngineStrategy_ok_def byte_of_def)
qed

interpretation js_EngineStrategyResp: json_struct EngineStrategyResp_json "dec_struct EngineStrategyResp_fields" EngineStrategyResp_zero EngineStrategyResp_ok
proof unfold_locales
  fix x assume ok: "EngineStrategyResp_ok x"
  then show "dec_struct EngineStrategyResp_fields (EngineStrategyResp_json x) EngineStrategyResp_zero = (x, True)"
    by (simp add: dec_struct_JObj EngineStrategyResp_json_def EngineStrategyResp_fields_def EngineStrategyResp_zero_def EngineStrategyResp_ok_def find_field_tl
        strings_roundtrip js_EngineStrategy.obj_roundtrip)
  from ok show "json_ok (EngineStrategyResp_json x)"
    by (auto simp: EngineStrategyResp_json_def EngineStrategyResp_ok_def byte_of_def intro!: enc_list_ok[where ok = valid_utf8] js_EngineStrategy.to_ok)
qed

interpretation js_AuditReport: json_struct AuditReport_json "dec_struct AuditReport_fields" AuditReport_zero AuditReport_ok
proof unfold_locales
  fix x assume ok: "AuditReport_ok x"
  then show "dec_struct AuditReport_fields (AuditReport_json x) AuditReport_zero = (x, True)"
    by (simp add: dec_struct_JObj AuditReport_json_def AuditReport_fields_def AuditReport_zero_def AuditReport_ok_def find_field_tl)
  from ok show "json_ok (AuditReport_json x)"
    by (auto simp: AuditReport_json_def AuditReport_ok_def byte_of_def)
qed

interpretation js_AuditProcess: json_struct AuditProcess_json "dec_struct AuditProcess_fields" AuditProcess_zero AuditProcess_ok
proof unfold_locales
  fix x assume ok: "AuditProcess_ok x"
  then show "dec_struct AuditProcess_fields (AuditProcess_json x) AuditProcess_zero = (x, True)"
    by (simp add: dec_struct_JObj AuditProcess_json_def AuditProcess_fields_def AuditProcess_zero_def AuditProcess_ok_def find_field_tl)
  from ok show "json_ok (AuditProcess_json x)"
    by (auto simp: AuditProcess_json_def AuditProcess_ok_def byte_of_def)
qed

interpretation js_AuditFile: json_struct AuditFile_json "dec_struct AuditFile_fields" AuditFile_zero AuditFile_ok
proof unfold_locales
  fix x assume ok: "AuditFile_ok x"
  then show "dec_struct AuditFile_fields (AuditFile_json x) AuditFile_zero = (x, True)"
    by (simp add: dec_struct_JObj AuditFile_json_def AuditFile_fields_def AuditFile_zero_def AuditFile_ok_def find_field_tl)
  from ok show "json_ok (AuditFile_json x)"
    by (auto simp: AuditFile_json_def AuditFile_ok_def byte_of_def)
qed

interpretation js_AuditData: json_struct AuditData_json "dec_struct AuditData_fields" AuditData_zero AuditData_ok
proof unfold_locales
  fix x assume ok: "AuditData_ok x"
  then show "dec_struct AuditData_fields (AuditData_json x) AuditData_zero = (x, True)"
    by (simp add: dec_struct_JObj AuditData_json_def AuditData_fields_def AuditData_zero_def AuditData_ok_def find_field_tl)
  from ok show "json_ok (AuditData_json x)"
    by (auto simp: AuditData_json_def AuditData_ok_def byte_of_def)
qed

interpretation js_AuditPath: json_struct AuditPath_json "dec_struct AuditPath_fields" AuditPath_zero AuditPath_ok
proof unfold_locales
  fix x assume ok: "AuditPath_ok x"
  then show "dec_struct AuditPath_fields (AuditPath_json x) AuditPath_zero = (x, True)"
    by (simp add: dec_struct_JObj AuditPath_json_def AuditPath_fields_def AuditPath_zero_def AuditPath_ok_def find_field_tl)
  from ok show "json_ok (AuditPath_json x)"
    by (auto simp: AuditPath_json_def AuditPath_ok_def byte_of_def)
qed

interpretation js_AuditMsg: json_struct AuditMsg_json "dec_struct AuditMsg_fields" AuditMsg_zero AuditMsg_ok
proof unfold_locales
  fix x assume ok: "AuditMsg_ok x"
  then show "dec_struct AuditMsg_fields (AuditMsg_json x) AuditMsg_zero = (x, True)"
    by (simp add: dec_struct_JObj AuditMsg_json_def AuditMsg_fields_def AuditMsg_zero_def AuditMsg_ok_def find_field_tl
        strings_roundtrip js_AuditProcess.obj_roundtrip js_AuditFile.obj_roundtrip js_AuditData.obj_roundtrip js_AuditPath.list_roundtrip)
  from ok show "json_ok (AuditMsg_json x)"
    by (auto simp: AuditMsg_json_def AuditMsg_ok_def byte_of_def intro!: enc_list_ok[where ok = valid_utf8] js_AuditProcess.to_ok js_AuditFile.to_ok js_AuditData.to_ok js_AuditPath.list_json_ok)
qed

interpretation js_AgentMonitorMsg: json_struct AgentMonitorMsg_json "dec_struct AgentMonitorMsg_fields" AgentMonitorMsg_zero AgentMonitorMsg_ok
proof unfold_locales
  fix x assume ok: "AgentMonitorMsg_ok x"
  then show "dec_struct AgentMonitorMsg_fields (AgentMonitorMsg_json x) AgentMonitorMsg_zero = (x, True)"
    by (simp add: dec_struct_JObj AgentMonitorMsg_json_def AgentMonitorMsg_fields_def AgentMonitorMsg_zero_def AgentMonitorMsg_ok_def find_field_tl)
  from ok show "json_ok (AgentMonitorMsg_json x)"
    by (auto simp: AgentMonitorMsg_json_def AgentMonitorMsg_ok_def byte_of_def)
qed

text \<open>
  An audit record survives the wire: marshalled and unmarshalled again it is the same record, with its nested process,
  file and system-call structs, its tags and its paths, for every content that is valid text, and nil slices stay nil.
\<close>

theorem audit_record_survives:
  assumes "AuditMsg_ok m"
  shows "unmarshal (dec_struct AuditMsg_fields) (json_print (AuditMsg_json m)) AuditMsg_zero = (m, True)"
  using assms by (rule js_AuditMsg.unmarshal_marshal)

theorem audit_record_survives_witness:
  "unmarshal (dec_struct AuditMsg_fields)
     (json_print (AuditMsg_json (AuditMsg_zero\<lparr>am_Sequence := 7, am_Tags := Some [''a'', ''b''], am_Paths := Some [AuditPath_zero]\<rparr>))) AuditMsg_zero =
   (AuditMsg_zero\<lparr>am_Sequence := 7, am_Tags := Some [''a'', ''b''], am_Paths := Some [AuditPath_zero]\<rparr>, True)"
  by (rule audit_record_survives)
    (simp add: AuditMsg_ok_def AuditMsg_zero_def AuditProcess_ok_def AuditProcess_zero_def AuditFile_ok_def AuditFile_zero_def
      AuditData_ok_def AuditData_zero_def AuditPath_ok_def AuditPath_zero_def list_ok_def in_int64_def byte_of_def)

end
