(* ===== verification/Comm_Tables.thy ===== *)
theory Comm_Tables
  imports Comm_Types
begin

text \<open>
  The tables and configuration that the agent's processes share through files: \<^verbatim>\<open>def.go\<close>
  (\<^verbatim>\<open>ReadFile\<close>, \<^verbatim>\<open>ReadProxyTable\<close>, \<^verbatim>\<open>clearProcessTable\<close>, \<^verbatim>\<open>QueryEngineId\<close>, \<^verbatim>\<open>LoadAgentConf\<close>)
  and \<^verbatim>\<open>service.go\<close> (\<^verbatim>\<open>Exists\<close>, \<^verbatim>\<open>ReadProcessTable\<close>, \<^verbatim>\<open>UpdateProcessTable\<close>,
  \<^verbatim>\<open>FlushData2File\<close>, \<^verbatim>\<open>FlushAgentConfig\<close>).  A table function returns the pair of Go's results
  and the new world, or \<^const>\<open>None\<close> where the code panics.  The abstract view of the
  process-table file is a finite map; the operations are shown to act on it as on a map.
\<close>

section \<open>Reading a file through a fixed buffer\<close>

definition Exists :: "world \<Rightarrow> string \<Rightarrow> bool" where
  "Exists w path = stat_ok w path"

text \<open>
  The loop of \<^verbatim>\<open>ReadFile\<close> and \<^verbatim>\<open>ReadProxyTable\<close>: each \<^verbatim>\<open>Read\<close> fills the same buffer of 10000
  bytes from its start and adds to the count; \<open>limit\<close> is the bound on \<^verbatim>\<open>readTime\<close>, which only
  \<^verbatim>\<open>ReadFile\<close> has.
\<close>

function read_loop :: "nat option \<Rightarrow> string \<Rightarrow> nat \<Rightarrow> nat \<Rightarrow> string \<Rightarrow> nat \<times> string" where
  "read_loop limit rem readCount readTime context =
     (let readTime' = readTime + 1; readNum = min (length context) (length rem);
          context' = take readNum rem @ drop readNum context; readCount' = readCount + readNum
      in if readNum = 0 \<or> (case limit of None \<Rightarrow> False | Some n \<Rightarrow> n < readTime')
         then (readCount', context')
         else read_loop limit (drop readNum rem) readCount' readTime' context')"
  by pat_completeness auto
termination
  by (relation "measure (\<lambda>(limit, rem, c, t, ctx). length rem)") auto

declare read_loop.simps [simp del]

definition slice_to :: "string \<Rightarrow> nat \<Rightarrow> string option" where
  "slice_to buf n = (if n \<le> length buf then Some (take n buf) else None)"

definition read_all :: "nat option \<Rightarrow> string \<Rightarrow> string option" where
  "read_all limit content =
     (let (readCount, context) = read_loop limit content 0 0 (replicate 10000 (CHR 0x00))
      in slice_to context readCount)"

definition ReadFile :: "world \<Rightarrow> string \<Rightarrow> (bool \<times> string) option" where
  "ReadFile w filePath =
     (case os_open_read w filePath of
        Inl e \<Rightarrow> Some (False, [])
      | Inr content \<Rightarrow> do { s \<leftarrow> read_all (Some 100) content; Some (True, s) })"

section \<open>Tables\<close>

definition ProcessTablePath :: "world \<Rightarrow> string" where
  "ProcessTablePath w = cwd w @ ''/conf/process-table.json''"

definition ProxyTablePath :: "world \<Rightarrow> string" where
  "ProxyTablePath w = cwd w @ ''/proxy/proxy-table.json''"

text \<open>The code both table readers start with: create the file with an empty object.\<close>

definition ensure_table :: "string \<Rightarrow> world \<Rightarrow> bool \<times> world" where
  "ensure_table path w =
     (if Exists w path then (True, w)
      else case os_create path w of
             (Some e, w1) \<Rightarrow> (False, w1)
           | (None, w1) \<Rightarrow>
               (case os_write path ''{}'' w1 of
                  (Some e, w2) \<Rightarrow> (False, w2)
                | (None, w2) \<Rightarrow> (True, w2)))"

definition decode_pids :: "string \<Rightarrow> Pid gomap \<times> bool" where
  "decode_pids s = unmarshal (\<lambda>j _. dec_map (dec_struct Pid_fields) Pid_zero j) s None"

definition decode_proxies :: "string \<Rightarrow> ProxyStrategy gomap \<times> bool" where
  "decode_proxies s = unmarshal (\<lambda>j _. dec_map (dec_struct ProxyStrategy_fields) ProxyStrategy_zero j) s None"

definition ReadProcessTable :: "(bool \<times> Pid gomap) go" where
  "ReadProcessTable w =
     (case ensure_table (ProcessTablePath w) w of
        (False, w1) \<Rightarrow> Some ((False, None), w1)
      | (True, w1) \<Rightarrow> do {
          (success, result) \<leftarrow> ReadFile w1 (ProcessTablePath w1);
          if \<not> success then Some ((False, None), w1)
          else let (processTable, ok) = decode_pids result in Some ((ok, processTable), w1)
        })"

definition ReadProxyTable :: "(bool \<times> ProxyStrategy gomap) go" where
  "ReadProxyTable w =
     (case ensure_table (ProxyTablePath w) w of
        (False, w1) \<Rightarrow> Some ((False, None), w1)
      | (True, w1) \<Rightarrow>
          (case os_open_read w1 ''proxy/proxy-table.json'' of
             Inl e \<Rightarrow> Some ((False, None), w1)
           | Inr content \<Rightarrow> do {
               result \<leftarrow> read_all None content;
               let (proxyTable, ok) = decode_proxies result in Some ((ok, proxyTable), w1)
             }))"

definition FlushData2File :: "json \<Rightarrow> string \<Rightarrow> world \<Rightarrow> world" where
  "FlushData2File data filePath w =
     (case os_truncate filePath w of
        (Some e, w1) \<Rightarrow> w1
      | (None, w1) \<Rightarrow> snd (os_write filePath (json_print data) w1))"

definition UpdateProcessTable :: "Pid gomap \<Rightarrow> world \<Rightarrow> world" where
  "UpdateProcessTable processTable w = FlushData2File (enc_map Pid_json processTable) (ProcessTablePath w) w"

definition clearProcessTable :: "string \<Rightarrow> world \<Rightarrow> world option" where
  "clearProcessTable name w = do {
     ((success, processTable), w1) \<leftarrow> ReadProcessTable w;
     if \<not> success then Some w1
     else Some (UpdateProcessTable (if mget processTable name \<noteq> None then mdel name processTable
                                    else processTable) w1)
   }"

section \<open>Configuration\<close>

definition QueryEngineId :: "world \<Rightarrow> string" where
  "QueryEngineId w =
     (case os_open_read w ''conf/agent'' of
        Inl e \<Rightarrow> []
      | Inr contents \<Rightarrow> Replace contents [CHR 0x0A] [] 1)"

datatype itf = ItfAgentConf | ItfOther

definition LoadFileForObj :: "world \<Rightarrow> string \<Rightarrow> itf \<Rightarrow> AgentConf option \<times> bool" where
  "LoadFileForObj w filename itf =
     (case itf of
        ItfOther \<Rightarrow> (None, False)
      | ItfAgentConf \<Rightarrow>
          (case os_open_read w filename of
             Inl e \<Rightarrow> (None, False)
           | Inr contents \<Rightarrow>
               (let result = Replace contents [CHR 0x0A] [] 1;
                    (conf, ok) = unmarshal (dec_struct AgentConf_fields) result AgentConf_zero
                in (Some conf, ok))))"

definition LoadAgentConf :: "world \<Rightarrow> string \<Rightarrow> AgentConf" where
  "LoadAgentConf w agentHome =
     (case LoadFileForObj w (agentHome @ ''/conf/agent.json'') ItfAgentConf of
        (Some conf, True) \<Rightarrow> conf
      | _ \<Rightarrow> AgentConf_zero)"

definition FlushAgentConfig :: "AgentConf \<Rightarrow> string \<Rightarrow> world \<Rightarrow> world" where
  "FlushAgentConfig agentConf agentConfPath w = FlushData2File (AgentConf_json agentConf) agentConfPath w"

section \<open>What the buffered read returns\<close>

lemma read_loop_Nil [simp]: "read_loop limit [] c t ctx = (c, ctx)"
  by (simp add: read_loop.simps)

lemma min_nat_0: "min (m :: nat) n = 0 \<longleftrightarrow> m = 0 \<or> n = 0"
  by (auto simp: min_def)

lemma read_loop_count: "c \<le> fst (read_loop limit rem c t ctx)"
proof (induction limit rem c t ctx rule: read_loop.induct)
  case (1 limit rem c t ctx)
  let ?n = "min (length ctx) (length rem)"
  show ?case
  proof (cases "?n = 0 \<or> (case limit of None \<Rightarrow> False | Some n \<Rightarrow> n < t + 1)")
    case True
    then show ?thesis by (auto simp: read_loop.simps[of limit rem c t ctx] Let_def min_nat_0 split: option.splits)
  next
    case False
    from 1[OF refl refl refl refl False] False show ?thesis
      by (simp add: read_loop.simps[of limit rem c t ctx] Let_def)
  qed
qed

lemma read_loop_buffer: "length (snd (read_loop limit rem c t ctx)) = length ctx"
proof (induction limit rem c t ctx rule: read_loop.induct)
  case (1 limit rem c t ctx)
  let ?n = "min (length ctx) (length rem)"
  show ?case
  proof (cases "?n = 0 \<or> (case limit of None \<Rightarrow> False | Some n \<Rightarrow> n < t + 1)")
    case True
    then show ?thesis by (auto simp: read_loop.simps[of limit rem c t ctx] Let_def min_nat_0 split: option.splits)
  next
    case False
    from 1[OF refl refl refl refl False] False show ?thesis
      by (simp add: read_loop.simps[of limit rem c t ctx] Let_def)
  qed
qed

lemma read_loop_step:
  assumes "ctx \<noteq> []" "rem \<noteq> []" "\<forall>n. limit = Some n \<longrightarrow> t + 1 \<le> n"
  shows "read_loop limit rem c t ctx =
    (let k = min (length ctx) (length rem)
     in read_loop limit (drop k rem) (c + k) (t + 1) (take k rem @ drop k ctx))"
  using assms by (cases limit) (simp_all add: read_loop.simps[of _ rem c t ctx] Let_def min_nat_0)

lemma read_all_fits:
  assumes "length s \<le> 10000" "\<forall>n. limit = Some n \<longrightarrow> 1 \<le> n"
  shows "read_all limit s = Some s"
proof (cases "s = []")
  case True
  then show ?thesis by (simp add: read_all_def slice_to_def)
next
  case False
  have "\<not> (case limit of None \<Rightarrow> False | Some n \<Rightarrow> n < 1)" using assms(2) by (cases limit) auto
  then have "read_loop limit s 0 0 (replicate 10000 (CHR 0x00)) =
      (length s, s @ replicate (10000 - length s) (CHR 0x00))"
    using assms(1) False by (simp add: read_loop.simps[of limit s] Let_def min_def)
  then show ?thesis using assms(1) by (simp add: read_all_def slice_to_def)
qed

lemma read_loop_big:
  assumes big: "10000 < length s" and lim: "\<forall>n. limit = Some n \<longrightarrow> 2 \<le> n"
  shows "10000 < fst (read_loop limit s 0 0 (replicate 10000 z))"
proof -
  let ?r = "drop 10000 s" and ?c = "take 10000 s"
  let ?k = "min (length ?c) (length ?r)"
  have ne: "?r \<noteq> []" "?c \<noteq> []" "s \<noteq> []" using big by auto
  have "read_loop limit s 0 0 (replicate 10000 z) = read_loop limit ?r 10000 1 ?c"
    using big lim ne by (subst read_loop_step) (auto simp: Let_def min_def)
  also have "\<dots> = read_loop limit (drop ?k ?r) (10000 + ?k) (1 + 1) (take ?k ?r @ drop ?k ?c)"
    using lim ne by (subst read_loop_step) (auto simp: Let_def)
  finally have "10000 + ?k \<le> fst (read_loop limit s 0 0 (replicate 10000 z))"
    using read_loop_count by metis
  moreover have "0 < ?k" using ne by simp
  ultimately show ?thesis by linarith
qed

lemma read_all_panics:
  assumes "10000 < length s" "\<forall>n. limit = Some n \<longrightarrow> 2 \<le> n"
  shows "read_all limit s = None"
  using read_loop_big[OF assms, of "CHR 0x00"] read_loop_buffer[of limit s 0 0 "replicate 10000 (CHR 0x00)"]
  by (auto simp: read_all_def slice_to_def split: prod.splits)

lemma read_all_eq:
  "\<forall>n. limit = Some n \<longrightarrow> 2 \<le> n \<Longrightarrow> read_all limit s = (if length s \<le> 10000 then Some s else None)"
  using read_all_fits[of s limit] read_all_panics[of s limit] by force

text \<open>
  \<^verbatim>\<open>ReadFile\<close> returns the whole content of a file of at most 10000 bytes and panics (a slice
  beyond the buffer's capacity) on every longer one; a file that cannot be opened gives
  \<^verbatim>\<open>false\<close>.
\<close>

theorem ReadFile_spec:
  "ReadFile w path =
     (case os_open_read w path of
        Inl e \<Rightarrow> Some (False, [])
      | Inr content \<Rightarrow> if length content \<le> 10000 then Some (True, content) else None)"
  by (simp add: ReadFile_def read_all_eq split: sum.splits)

section \<open>The process table as a map\<close>

text \<open>
  The abstract state is the finite map the file denotes.  \<open>table_file w xs\<close>: the file holds the
  text that \<^verbatim>\<open>json.Marshal\<close> writes for \<open>xs\<close>; \<open>table_access w\<close>: the file can be opened both ways.
\<close>

definition table_ok :: "(string \<times> Pid) list \<Rightarrow> bool" where
  "table_ok xs = (keys_distinct xs \<and> (\<forall>(k, v)\<in>set xs. valid_utf8 k \<and> Pid_ok v))"

definition table_text :: "(string \<times> Pid) list \<Rightarrow> string" where
  "table_text xs = json_print (enc_map Pid_json (Some xs))"

definition table_path :: "world \<Rightarrow> string" where
  "table_path w = abs_path w (ProcessTablePath w)"

definition table_file :: "world \<Rightarrow> (string \<times> Pid) list \<Rightarrow> bool" where
  "table_file w xs = (files w (table_path w) = Some (table_text xs))"

definition table_access :: "world \<Rightarrow> bool" where
  "table_access w = (files w (table_path w) \<noteq> None \<and> \<not> rd_denied w (table_path w) \<and> \<not> wr_denied w (table_path w))"

lemma ProcessTablePath_set_file [world_simps]: "ProcessTablePath (set_file p c w) = ProcessTablePath w"
  by (simp add: ProcessTablePath_def world_simps)

lemma table_path_set_file [world_simps]: "table_path (set_file p c w) = table_path w"
  by (simp add: table_path_def world_simps)

lemma decode_pids_text: "table_ok xs \<Longrightarrow> decode_pids (table_text xs) = (Some (sort_key fst xs), True)"
  unfolding decode_pids_def table_text_def by (rule pid_struct.table_roundtrip) (auto simp: table_ok_def)

lemma ReadProcessTable_existing:
  "table_access w \<Longrightarrow> files w (table_path w) = Some s \<Longrightarrow> length s \<le> 10000 \<Longrightarrow>
   ReadProcessTable w = Some ((snd (decode_pids s), fst (decode_pids s)), w)"
  by (simp add: ReadProcessTable_def ensure_table_def Exists_def stat_ok_def table_path_def table_access_def
      ReadFile_def os_open_read_def read_all_eq split: prod.splits)

lemma ReadProcessTable_file:
  assumes "table_access w" "table_file w xs" "table_ok xs" "length (table_text xs) \<le> 10000"
  shows "ReadProcessTable w = Some ((True, Some (sort_key fst xs)), w)"
  using ReadProcessTable_existing[OF assms(1) _ assms(4)] assms(2) decode_pids_text[OF assms(3)]
  by (simp add: table_file_def)

lemma UpdateProcessTable_eq:
  "UpdateProcessTable m w =
     (if files w (table_path w) = None \<or> wr_denied w (table_path w) then w
      else set_file (ProcessTablePath w)
             (Some (if disk_full w then [] else json_print (enc_map Pid_json m))) w)"
  by (simp add: UpdateProcessTable_def FlushData2File_def os_truncate_def os_write_def table_path_def
      world_simps)

lemma table_path_Update: "table_path (UpdateProcessTable m w) = table_path w"
  by (simp add: UpdateProcessTable_eq world_simps)

lemma UpdateProcessTable_access: "table_access w \<Longrightarrow> table_access (UpdateProcessTable m w)"
  by (auto simp: table_access_def UpdateProcessTable_eq world_simps table_path_def)

lemma UpdateProcessTable_file:
  "table_access w \<Longrightarrow> \<not> disk_full w \<Longrightarrow> table_file (UpdateProcessTable (Some xs) w) xs"
  by (simp add: table_access_def UpdateProcessTable_eq table_file_def world_simps table_path_def table_text_def)

lemma table_ok_sort: "table_ok xs \<Longrightarrow> table_ok (sort_key fst xs)"
  by (auto simp: table_ok_def) (metis mset_map mset_sort mset_eq_imp_distinct_iff)

lemma table_ok_delete: "table_ok xs \<Longrightarrow> table_ok (AList.delete k xs)"
  using set_delete_sub[of k xs] by (auto simp: table_ok_def keys_distinct_delete)

lemma table_ok_update: "table_ok xs \<Longrightarrow> valid_utf8 k \<Longrightarrow> Pid_ok v \<Longrightarrow> table_ok (AList.update k v xs)"
  using set_update_sub[of k v xs] by (auto simp: table_ok_def keys_distinct_update)

lemma map_of_sort_table: "table_ok xs \<Longrightarrow> map_of (sort_key fst xs) = map_of xs"
  by (simp add: table_ok_def map_of_sort_key)

text \<open>Sorting does not change the text, and deleting an entry does not make it longer.\<close>

lemma table_text_sort: "table_text (sort_key fst xs) = table_text xs"
  by (simp add: table_text_def enc_map_def sort_key_id_if_sorted)

lemma sum_list_sort: "sum_list (map g (sort_key f xs)) = sum_list (map (g :: _ \<Rightarrow> nat) xs)"
  unfolding sum_mset_sum_list[symmetric] mset_map mset_sort ..

lemma length_Join_char: "length (Join zs [c]) = sum_list (map length zs) + (length zs - 1)"
  by (induction zs "[c]" rule: Join.induct) auto

lemma length_enc_text:
  "length (json_print (enc_map enc (Some xs))) =
     2 + sum_list (map (\<lambda>(k, v). length (json_quote k) + 1 + length (json_print (enc v))) xs) + (length xs - 1)"
  by (simp add: enc_map_def comma_sep_def length_Join_char o_def case_prod_unfold sum_list_sort)

lemma enc_text_delete:
  "length (json_print (enc_map enc (Some (AList.delete k xs)))) \<le> length (json_print (enc_map enc (Some xs)))"
proof -
  have "sum_list (map f (AList.delete k xs)) \<le> sum_list (map f xs)" for f :: "string \<times> 'a \<Rightarrow> nat"
    by (induction xs) auto
  moreover have "length (AList.delete k xs) \<le> length xs" by (induction xs) auto
  ultimately show ?thesis unfolding length_enc_text by (meson add_le_mono diff_le_mono le_refl)
qed

lemma table_text_delete: "length (table_text (AList.delete k xs)) \<le> length (table_text xs)"
  unfolding table_text_def by (rule enc_text_delete)

text \<open>
  C31. Writing a process table and reading it back gives the same map: after
  \<^verbatim>\<open>UpdateProcessTable\<close>, \<^verbatim>\<open>ReadProcessTable\<close> succeeds, changes nothing, and its table has
  exactly the entries written (for an existing, accessible file, a disk with room and a text
  that fits the reader's buffer).
\<close>

theorem ReadProcessTable_after_Update:
  assumes "table_access w" "\<not> disk_full w" "table_ok xs" "length (table_text xs) \<le> 10000"
  shows "\<exists>ys. ReadProcessTable (UpdateProcessTable (Some xs) w) =
                Some ((True, Some ys), UpdateProcessTable (Some xs) w) \<and> table_ok ys \<and> map_of ys = map_of xs"
  using ReadProcessTable_file[OF UpdateProcessTable_access[OF assms(1)] UpdateProcessTable_file[OF assms(1,2)] assms(3,4)]
    table_ok_sort[OF assms(3)] map_of_sort_table[OF assms(3)] by blast

definition sample_table :: "(string \<times> Pid) list" where
  "sample_table = [(''proxy'', \<lparr>p_Name = ''proxy'', p_Id = 7, p_Result = [], p_Mode = []\<rparr>),
                   (''bait'', \<lparr>p_Name = ''bait'', p_Id = 9, p_Result = [], p_Mode = []\<rparr>),
                   (''ssh-22'', \<lparr>p_Name = ''ssh-22'', p_Id = 11, p_Result = [], p_Mode = []\<rparr>)]"

definition table_world :: "world" where
  "table_world = set_file ''/agent/conf/process-table.json'' (Some (table_text sample_table)) blank_world"

lemma sample_table_ok: "table_ok sample_table"
  by (simp add: table_ok_def sample_table_def Pid_ok_def byte_of_def in_int64_def)

lemma table_path_table_world: "table_path table_world = ''/agent/conf/process-table.json''"
  by (simp add: table_path_def table_world_def world_simps)
     (simp add: ProcessTablePath_def blank_world_def abs_path_def HasPrefix_def)

lemma table_world_file: "files table_world (table_path table_world) = Some (table_text sample_table)"
  unfolding table_path_table_world by (simp add: table_world_def world_simps abs_path_def HasPrefix_def)

lemma table_world_access: "table_access table_world" "\<not> disk_full table_world" "table_file table_world sample_table"
  using table_world_file by (auto simp: table_access_def table_file_def)
    (simp_all add: table_world_def world_simps blank_world_def)

lemma sample_table_short: "length (table_text sample_table) \<le> 10000"
  by code_simp

theorem ReadProcessTable_after_Update_witness:
  "\<exists>ys. ReadProcessTable (UpdateProcessTable (Some sample_table) table_world) =
          Some ((True, Some ys), UpdateProcessTable (Some sample_table) table_world) \<and> table_ok ys \<and>
        map_of ys = map_of sample_table"
  by (rule ReadProcessTable_after_Update[OF table_world_access(1,2) sample_table_ok sample_table_short])

text \<open>
  \<^verbatim>\<open>clearProcessTable\<close> implements deletion from the map: whatever well-formed table the file
  holds, afterwards it holds that table without the key, and no other file changes.
\<close>

theorem clearProcessTable_deletes:
  assumes "table_access w" "\<not> disk_full w" "table_file w xs" "table_ok xs" "length (table_text xs) \<le> 10000"
  shows "\<exists>w' ys. clearProcessTable name w = Some w' \<and> table_access w' \<and> table_file w' ys \<and> table_ok ys \<and>
           map_of ys = (map_of xs)(name := None) \<and> (\<forall>p. p \<noteq> table_path w \<longrightarrow> files w' p = files w p)"
proof -
  define ys where "ys = AList.delete name (sort_key fst xs)"
  have ys: "table_ok ys" "map_of ys = (map_of xs)(name := None)"
    using table_ok_delete[OF table_ok_sort[OF assms(4)]] map_of_sort_table[OF assms(4)]
    by (simp_all add: ys_def delete_conv')
  have "map_of (sort_key fst xs) name = None \<Longrightarrow> ys = sort_key fst xs"
    unfolding ys_def by (rule delete_absent)
  then have "clearProcessTable name w = Some (UpdateProcessTable (Some ys) w)"
    using ReadProcessTable_file[OF assms(1,3,4,5)] by (simp add: clearProcessTable_def mdel_def ys_def)
  moreover have "p \<noteq> table_path w \<Longrightarrow> files (UpdateProcessTable (Some ys) w) p = files w p" for p
    by (simp add: UpdateProcessTable_eq world_simps table_path_def)
  ultimately show ?thesis
    using ys UpdateProcessTable_access[OF assms(1)] UpdateProcessTable_file[OF assms(1,2)] by blast
qed

theorem clearProcessTable_deletes_witness:
  "\<exists>w' ys. clearProcessTable ''proxy'' table_world = Some w' \<and> table_access w' \<and> table_file w' ys \<and> table_ok ys \<and>
     map_of ys = (map_of sample_table)(''proxy'' := None) \<and>
     (\<forall>p. p \<noteq> table_path table_world \<longrightarrow> files w' p = files table_world p)"
  by (rule clearProcessTable_deletes[OF table_world_access sample_table_ok sample_table_short])

text \<open>
  The table file is cut before it is rewritten: when the disk is full the update loses every
  entry, and every later \<^verbatim>\<open>ReadProcessTable\<close> reports failure.
\<close>

theorem UpdateProcessTable_disk_full:
  assumes "table_access w" "disk_full w"
  shows "files (UpdateProcessTable m w) (table_path w) = Some [] \<and>
         ReadProcessTable (UpdateProcessTable m w) = Some ((False, None), UpdateProcessTable m w)"
proof -
  have f: "files (UpdateProcessTable m w) (table_path (UpdateProcessTable m w)) = Some []"
    using assms by (simp add: table_access_def UpdateProcessTable_eq world_simps table_path_def)
  have "decode_pids [] = (None, False)" by (simp add: decode_pids_def unmarshal_def json_parse_def)
  with f ReadProcessTable_existing[OF UpdateProcessTable_access[OF assms(1)] f]
  show ?thesis by (simp add: table_path_Update)
qed

lemma table_world_full: "table_access (table_world\<lparr>disk_full := True\<rparr>)" "disk_full (table_world\<lparr>disk_full := True\<rparr>)"
  using table_world_access(1)
  by (auto simp: table_access_def table_path_def ProcessTablePath_def abs_path_def split: if_splits)

theorem UpdateProcessTable_disk_full_witness:
  "let w = table_world\<lparr>disk_full := True\<rparr> in
   files (UpdateProcessTable None w) (table_path w) = Some [] \<and>
   ReadProcessTable (UpdateProcessTable None w) = Some ((False, None), UpdateProcessTable None w)"
  unfolding Let_def by (rule UpdateProcessTable_disk_full[OF table_world_full])

section \<open>Configuration files\<close>

lemma json_conf_no_newline: "CHR 0x0A \<notin> set (json_print (AgentConf_json c))"
  using json_quote_no_newline by (simp add: AgentConf_json_def comma_sep_def)

text \<open>
  The configuration survives being flushed and loaded again: \<^verbatim>\<open>LoadAgentConf\<close> returns exactly
  the configuration that \<^verbatim>\<open>FlushAgentConfig\<close> wrote to \<^verbatim>\<open>conf/agent.json\<close>, although the loader
  drops a line feed from the text.
\<close>

theorem LoadAgentConf_after_Flush:
  assumes "AgentConf_ok conf" "files w (abs_path w path) \<noteq> None" "path = home @ ''/conf/agent.json''"
    "\<not> wr_denied w (abs_path w path)" "\<not> rd_denied w (abs_path w path)" "\<not> disk_full w"
  shows "LoadAgentConf (FlushAgentConfig conf path w) home = conf"
proof -
  have "os_open_read (FlushAgentConfig conf path w) path = Inr (json_print (AgentConf_json conf))"
    using assms by (auto simp: FlushAgentConfig_def FlushData2File_def os_truncate_def os_write_def
        os_open_read_def world_simps)
  moreover have "Replace (json_print (AgentConf_json conf)) [CHR 0x0A] [] 1 = json_print (AgentConf_json conf)"
    by (rule Replace_absent) (simp add: Contains_char json_conf_no_newline)
  ultimately show ?thesis
    using conf_struct.unmarshal_marshal[OF assms(1)] assms(3)
    by (simp add: LoadAgentConf_def LoadFileForObj_def)
qed

theorem LoadAgentConf_after_Flush_witness:
  "LoadAgentConf (FlushAgentConfig (AgentConf_zero\<lparr>Version := ''1.0''\<rparr>) ''/agent/conf/agent.json''
     (set_file ''/agent/conf/agent.json'' (Some []) blank_world)) ''/agent'' = AgentConf_zero\<lparr>Version := ''1.0''\<rparr>"
  by (rule LoadAgentConf_after_Flush)
     (simp_all add: AgentConf_ok_def AgentConf_zero_def byte_of_def world_simps blank_world_def)

end
