(* ===== verification/Comm_Process.thy ===== *)
theory Comm_Process
  imports Comm_Tables
begin

text \<open>
  Processes (package \<^verbatim>\<open>util/comm\<close>: \<^verbatim>\<open>ProcessIsExist\<close>, \<^verbatim>\<open>IsZombie\<close>, \<^verbatim>\<open>StartProject\<close>,
  \<^verbatim>\<open>MonitForKillSelfTask\<close>, \<^verbatim>\<open>StartMemCpuMonitor\<close>, \<^verbatim>\<open>CheckPort\<close>, \<^verbatim>\<open>IsIpConnect\<close> of \<^verbatim>\<open>service.go\<close> and
  \<^verbatim>\<open>KillSelf\<close>, \<^verbatim>\<open>KillProcess\<close> of \<^verbatim>\<open>def.go\<close>).  CPU percentages are rationals, exact where Go
  has \<^verbatim>\<open>float64\<close>.  The endless loops of the two monitors are given by the function for one round.
\<close>

section \<open>Signals\<close>

definition ProcessIsExist :: "world \<Rightarrow> int \<Rightarrow> bool" where
  "ProcessIsExist w pid = kill0 w pid"

definition KillProcess :: "int \<Rightarrow> world \<Rightarrow> go_error option \<times> world" where
  "KillProcess pid w =
     (case signal_kill pid w of
        (Some err, w1) \<Rightarrow> (Some err, w1)
      | (None, w1) \<Rightarrow> (None, os_wait pid w1))"

definition KillSelf :: "Pid \<Rightarrow> go_error option go" where
  "KillSelf p w = do {
     w1 \<leftarrow> clearProcessTable (p_Name p) w;
     if \<not> ProcessIsExist w1 (p_Id p) then Some (None, w1)
     else case KillProcess (p_Id p) w1 of
            (Some err, w2) \<Rightarrow> Some (Some err, w2)
          | (None, w2) \<Rightarrow>
              if p_Name p \<noteq> ''hosteye_engine'' \<and> ProcessIsExist w2 (p_Id p + 1)
              then Some (KillProcess (p_Id p + 1) w2)
              else Some (None, w2)
   }"

text \<open>\<^verbatim>\<open>NewProcess\<close> and \<^verbatim>\<open>Status\<close> look the id up as an \<^verbatim>\<open>int32\<close>.\<close>

definition IsZombie :: "world \<Rightarrow> int \<Rightarrow> bool" where
  "IsZombie w processId =
     (if processId = 0 \<or> \<not> ProcessIsExist w processId then False
      else case procs w (as_int32 processId) of
             None \<Rightarrow> False
           | Some p \<Rightarrow> p_status p = ''Z'')"

section \<open>Starting a program\<close>

definition argv_of :: "string \<Rightarrow> string list" where
  "argv_of nickName =
     (if nickName \<noteq> [] then
        (let index = Index nickName ''-'' in
         if index > -1 then [take (nat index) nickName] else [nickName])
      else [])"

definition start_command :: "string \<Rightarrow> string \<Rightarrow> string list \<Rightarrow> world \<Rightarrow> (go_error + int) \<times> world" where
  "start_command projectPath mode argv w =
     (if mode = ''bash'' then
        (if sh_startable w then (let (pid, w1) = spawn ''sh'' [''sh'', ''-c'', projectPath] w in (Inr pid, w1))
         else (Inl (EOther ''sh''), w))
      else if startable w projectPath then (let (pid, w1) = spawn projectPath argv w in (Inr pid, w1))
      else (Inl (EOther projectPath), w))"

definition StartProject :: "string \<Rightarrow> string \<Rightarrow> string \<Rightarrow> (Pid \<times> go_error option) go" where
  "StartProject projectPath mode nickName w = (let startedPid = Pid_zero\<lparr>p_Mode := mode\<rparr> in do {
     ((success, processTable), w1) \<leftarrow> ReadProcessTable w;
     if \<not> success then Some ((startedPid, None), w1)
     else do {
       w2 \<leftarrow> (case mget processTable nickName of
                None \<Rightarrow> Some w1
              | Some pid \<Rightarrow> map_option snd (KillSelf pid w1));
       case start_command projectPath mode (argv_of nickName) w2 of
         (Inl err, w3) \<Rightarrow> Some ((startedPid, Some err), UpdateProcessTable processTable w3)
       | (Inr pid, w3) \<Rightarrow> do {
           let started = \<lparr>p_Name = nickName, p_Id = pid, p_Result = ''start success'', p_Mode = mode\<rparr>;
           processTable' \<leftarrow> mput nickName started processTable;
           Some ((started, None), UpdateProcessTable processTable' w3)
         }
     }
   })"

section \<open>Monitors\<close>

datatype round = Continue | Exit string

text \<open>One round of \<^verbatim>\<open>MonitForKillSelfTask\<close>: the result of the read is used even when it failed.\<close>

definition kill_self_round :: "round go" where
  "kill_self_round w = do {
     ((_, PidTable), w1) \<leftarrow> ReadProcessTable w;
     if list_ex (\<lambda>(_, pid). p_Id pid = self_pid w1) (entries PidTable) then Some (Continue, w1)
     else Some (Exit ''killed by self'', w1)
   }"

definition mem_used :: "proc \<Rightarrow> nat" where
  "mem_used p = p_rss p div 1024 div 1024"

definition avg_cpu :: "world \<Rightarrow> proc \<Rightarrow> rat" where
  "avg_cpu w p = p_cpu p / of_nat (num_cpu w)"

definition cpu_window :: "rat list \<Rightarrow> rat \<Rightarrow> rat list" where
  "cpu_window cpuHis avgCpu =
     (let his = cpuHis @ [avgCpu] in if 6 < length his then tl his else his)"

text \<open>One round of \<^verbatim>\<open>StartMemCpuMonitor\<close> on the history \<^verbatim>\<open>cpuHis\<close>, a variable of the package.\<close>

definition mem_cpu_round :: "rat \<Rightarrow> world \<Rightarrow> rat list \<Rightarrow> round \<times> rat list" where
  "mem_cpu_round cpuLimit w cpuHis =
     (case procs w (as_int32 (self_pid w)) of
        None \<Rightarrow> (Exit ''memory info'', cpuHis)
      | Some p \<Rightarrow>
          if \<not> p_info_ok p then (Exit ''memory info'', cpuHis)
          else if 150 < mem_used p then (Exit ''mem usage'', cpuHis)
          else let cpuHis' = cpu_window cpuHis (avg_cpu w p)
               in if length cpuHis' = 6 \<and> list_all (\<lambda>c. \<not> c < cpuLimit) cpuHis'
                  then (Exit ''cpu usage'', cpuHis') else (Continue, cpuHis'))"

fun StartMemCpuMonitor :: "rat \<Rightarrow> world list \<Rightarrow> rat list \<Rightarrow> round \<times> rat list" where
  "StartMemCpuMonitor cpuLimit [] cpuHis = (Continue, cpuHis)"
| "StartMemCpuMonitor cpuLimit (w # ws) cpuHis =
     (case mem_cpu_round cpuLimit w cpuHis of
        (Continue, cpuHis') \<Rightarrow> StartMemCpuMonitor cpuLimit ws cpuHis'
      | (Exit why, cpuHis') \<Rightarrow> (Exit why, cpuHis'))"

section \<open>Ports and hosts\<close>

definition CheckPort :: "world \<Rightarrow> string \<Rightarrow> bool" where
  "CheckPort w port = (0 < length (lsof w port))"

definition connect :: "world \<Rightarrow> string \<Rightarrow> bool" where
  "connect w ip = pingable w ip"

definition IsIpConnect :: "world \<Rightarrow> string \<Rightarrow> bool" where
  "IsIpConnect w ip = (if connect w ip then True else False)"

section \<open>Killing\<close>

definition alive :: "world \<Rightarrow> int \<Rightarrow> bool" where
  "alive w pid = (case procs w pid of None \<Rightarrow> False | Some p \<Rightarrow> p_status p \<noteq> ''Z'')"

text \<open>The files and settings that signals leave alone.\<close>

definition same_env :: "world \<Rightarrow> world \<Rightarrow> bool" where
  "same_env w w' = (cwd w' = cwd w \<and> wr_denied w' = wr_denied w \<and> rd_denied w' = rd_denied w \<and>
     disk_full w' = disk_full w \<and> startable w' = startable w \<and> sh_startable w' = sh_startable w \<and>
     next_pid w' = next_pid w \<and> kill_denied w' = kill_denied w \<and> self_pid w' = self_pid w \<and> dirs w' = dirs w \<and>
     redis_up w' = redis_up w \<and> published w' = published w)"

lemma same_env_refl [simp]: "same_env w w"
  by (simp add: same_env_def)

lemma same_env_trans: "same_env w w' \<Longrightarrow> same_env w' w'' \<Longrightarrow> same_env w w''"
  by (simp add: same_env_def)

lemma same_env_paths: "same_env w w' \<Longrightarrow> abs_path w' p = abs_path w p \<and> table_path w' = table_path w"
  by (simp add: same_env_def abs_path_def table_path_def ProcessTablePath_def)

lemma KillProcess_cases:
  "KillProcess pid w = (e, w') \<Longrightarrow>
   same_env w w' \<and> files w' = files w \<and> (\<forall>q. q \<noteq> pid \<longrightarrow> procs w' q = procs w q) \<and>
   (e = None \<longrightarrow> \<not> alive w' pid) \<and> (e \<noteq> None \<longrightarrow> w' = w)"
  by (auto simp: KillProcess_def signal_kill_def os_wait_def same_env_def alive_def
      split: if_splits option.splits prod.splits)

lemma KillProcess_None_iff:
  "fst (KillProcess pid w) = None \<longleftrightarrow> pid \<noteq> -1 \<and> pid \<noteq> 0 \<and> procs w pid \<noteq> None \<and> \<not> kill_denied w pid"
  by (auto simp: KillProcess_def signal_kill_def split: option.splits)

text \<open>The table file is readable, writable, well formed and short enough, and it denotes \<open>xs\<close>.\<close>

definition table_ready :: "world \<Rightarrow> (string \<times> Pid) list \<Rightarrow> bool" where
  "table_ready w xs = (table_access w \<and> \<not> disk_full w \<and> table_file w xs \<and> table_ok xs)"

lemma table_ready_env:
  "same_env w w' \<Longrightarrow> files w' = files w \<Longrightarrow> table_ready w xs \<Longrightarrow> table_ready w' xs"
  using same_env_paths[of w w'] by (simp add: table_ready_def table_access_def table_file_def same_env_def)

lemma ReadProcessTable_ready:
  "table_ready w xs \<Longrightarrow> length (table_text xs) \<le> 10000 \<Longrightarrow>
   ReadProcessTable w = Some ((True, Some (sort_key fst xs)), w)"
  by (simp add: table_ready_def ReadProcessTable_file)

lemma UpdateProcessTable_env: "same_env w (UpdateProcessTable m w)" "procs (UpdateProcessTable m w) = procs w"
  by (simp_all add: UpdateProcessTable_eq same_env_def world_simps) (simp_all add: set_file_def)

lemma table_ready_Update: "table_access w \<Longrightarrow> \<not> disk_full w \<Longrightarrow> table_ok xs \<Longrightarrow> table_ready (UpdateProcessTable (Some xs) w) xs"
  using UpdateProcessTable_access[of w "Some xs"] UpdateProcessTable_file[of w xs] UpdateProcessTable_env(1)[of w "Some xs"]
  by (simp add: table_ready_def same_env_def)

lemma clearProcessTable_ready:
  assumes "table_ready w xs" "length (table_text xs) \<le> 10000"
  obtains w' ys where "clearProcessTable name w = Some w'" "same_env w w'" "procs w' = procs w"
    "table_ready w' ys" "map_of ys = (map_of xs)(name := None)" "length (table_text ys) \<le> length (table_text xs)"
proof -
  let ?xs = "sort_key fst xs"
  have ok: "table_ok ?xs" "map_of ?xs = map_of xs" "table_access w" "\<not> disk_full w"
    using assms(1) table_ok_sort map_of_sort_table by (auto simp: table_ready_def)
  have "map_of ?xs name = None \<Longrightarrow> AList.delete name ?xs = ?xs" by (rule delete_absent)
  then have "clearProcessTable name w = Some (UpdateProcessTable (Some (AList.delete name ?xs)) w)"
    using ReadProcessTable_ready[OF assms] by (simp add: clearProcessTable_def mdel_def)
  moreover have "map_of (AList.delete name ?xs) = (map_of xs)(name := None)"
    unfolding map_of_delete ok(2) ..
  moreover have "length (table_text (AList.delete name ?xs)) \<le> length (table_text xs)"
    using table_text_delete[of name ?xs] by (simp add: table_text_sort)
  ultimately show thesis
    using table_ready_Update[OF ok(3,4) table_ok_delete[OF ok(1), of name]] UpdateProcessTable_env
    by (intro that)
qed

lemma KillSelf_ready:
  assumes "table_ready w xs" "length (table_text xs) \<le> 10000"
  shows "\<exists>e w' ys. KillSelf p w = Some (e, w') \<and> same_env w w' \<and> table_ready w' ys \<and>
           length (table_text ys) \<le> length (table_text xs) \<and> (0 < p_Id p \<longrightarrow> e = None) \<and>
           map_of ys = (map_of xs)(p_Name p := None) \<and>
           (e = None \<and> \<not> kill_denied w (p_Id p) \<longrightarrow> \<not> alive w' (p_Id p)) \<and>
           (\<forall>q. q \<noteq> p_Id p \<and> q \<noteq> p_Id p + 1 \<longrightarrow> procs w' q = procs w q)"
proof -
  obtain w1 ys where w1: "clearProcessTable (p_Name p) w = Some w1" "same_env w w1" "procs w1 = procs w"
    "table_ready w1 ys" "map_of ys = (map_of xs)(p_Name p := None)" "length (table_text ys) \<le> length (table_text xs)"
    using clearProcessTable_ready[OF assms] by metis
  obtain e2 w2 where w2: "KillProcess (p_Id p) w1 = (e2, w2)" by fastforce
  obtain e3 w3 where w3: "KillProcess (p_Id p + 1) w2 = (e3, w3)" by fastforce
  note k2 = KillProcess_cases[OF w2] and k3 = KillProcess_cases[OF w3]
  have r2: "table_ready w2 ys" "same_env w w2" using k2 w1(2,4) table_ready_env same_env_trans by blast+
  then have r3: "table_ready w3 ys" "same_env w w3" using k3 table_ready_env same_env_trans by blast+
  have dead: "\<not> ProcessIsExist w1 (p_Id p) \<Longrightarrow> \<not> kill_denied w (p_Id p) \<Longrightarrow> \<not> alive w1 (p_Id p)"
    using w1(2) by (simp add: ProcessIsExist_def kill0_def alive_def same_env_def)
  have dead3: "e2 = None \<Longrightarrow> \<not> alive w3 (p_Id p)"
    using k2 k3 by (auto simp: alive_def)
  have ok: "0 < p_Id p \<Longrightarrow> ProcessIsExist w1 (p_Id p) \<Longrightarrow> e2 = None"
    "0 < p_Id p \<Longrightarrow> ProcessIsExist w2 (p_Id p + 1) \<Longrightarrow> e3 = None"
    using KillProcess_None_iff[of "p_Id p" w1] KillProcess_None_iff[of "p_Id p + 1" w2] w2 w3
    by (auto simp: ProcessIsExist_def kill0_def)
  show ?thesis
    using w1 w2 w3 k2 k3 r2 r3 dead dead3 ok
    by (auto simp: KillSelf_def split: option.splits if_splits)
qed


lemma table_world_ready: "table_ready table_world sample_table"
  using table_world_access sample_table_ok by (simp add: table_ready_def)


text \<open>
  Killing a module also kills whatever process has the next id: for every entry that is not
  \<^verbatim>\<open>hosteye_engine\<close> and whose process can be signalled, a process with id \<^verbatim>\<open>Id+1\<close> that can be
  signalled does not survive \<^verbatim>\<open>KillSelf\<close>, whether or not the agent started it.
\<close>

theorem KillSelf_kills_next_pid:
  assumes "table_ready w xs" "length (table_text xs) \<le> 10000" "p_Name p \<noteq> ''hosteye_engine''" "0 < p_Id p"
    "procs w (p_Id p) \<noteq> None" "\<not> kill_denied w (p_Id p)" "procs w (p_Id p + 1) \<noteq> None" "\<not> kill_denied w (p_Id p + 1)"
  shows "\<exists>w'. KillSelf p w = Some (None, w') \<and> \<not> alive w' (p_Id p + 1)"
proof -
  obtain w1 where w1: "clearProcessTable (p_Name p) w = Some w1" "same_env w w1" "procs w1 = procs w"
    using clearProcessTable_ready[OF assms(1,2)] by metis
  obtain e2 w2 where w2: "KillProcess (p_Id p) w1 = (e2, w2)" by fastforce
  note k2 = KillProcess_cases[OF w2]
  have e2: "e2 = None" using w1 w2 assms KillProcess_None_iff[of "p_Id p" w1] by (simp add: same_env_def)
  have p2: "procs w2 (p_Id p + 1) \<noteq> None" "\<not> kill_denied w2 (p_Id p + 1)"
    using k2 w1 assms by (auto simp: same_env_def)
  obtain e3 w3 where w3: "KillProcess (p_Id p + 1) w2 = (e3, w3)" by fastforce
  have e3: "e3 = None" using w3 p2 assms(4) KillProcess_None_iff[of "p_Id p + 1" w2] by simp
  have "ProcessIsExist w1 (p_Id p)" "ProcessIsExist w2 (p_Id p + 1)"
    using w1 assms p2 by (auto simp: ProcessIsExist_def kill0_def same_env_def)
  then show ?thesis
    using w1(1) w2 w3 e2 e3 assms(3) KillProcess_cases[OF w3] by (simp add: KillSelf_def)
qed

definition shell_proc :: proc where
  "shell_proc = \<lparr>p_path = ''/bin/login'', p_argv = [], p_status = ''S'', p_child = False, p_reaped = True,
                 p_rss = 0, p_cpu = 0, p_info_ok = True\<rparr>"

definition two_procs :: world where
  "two_procs = table_world\<lparr>procs := [7 \<mapsto> shell_proc, 8 \<mapsto> shell_proc]\<rparr>"

lemma two_procs_ready: "table_ready two_procs sample_table"
  using table_world_ready unfolding two_procs_def
  by (auto simp: table_ready_def table_access_def table_file_def table_path_def ProcessTablePath_def abs_path_def)

theorem KillSelf_kills_next_pid_witness:
  "\<exists>w'. KillSelf (snd (hd sample_table)) two_procs = Some (None, w') \<and> \<not> alive w' (p_Id (snd (hd sample_table)) + 1)"
  by (rule KillSelf_kills_next_pid[OF two_procs_ready sample_table_short])
     (simp_all add: sample_table_def two_procs_def table_world_def blank_world_def set_file_def)

section \<open>Starting\<close>

lemma start_command_Inr:
  assumes "start_command path mode argv w = (Inr pid, w')"
  shows "pid = next_pid w \<and> alive w' pid \<and> files w' = files w \<and> cwd w' = cwd w \<and> rd_denied w' = rd_denied w \<and>
         wr_denied w' = wr_denied w \<and> disk_full w' = disk_full w \<and> self_pid w' = self_pid w"
  using assms by (auto simp: start_command_def spawn_def alive_def split: if_splits)

lemma start_command_Inl: "start_command path mode argv w = (Inl e, w') \<Longrightarrow> w' = w"
  by (auto simp: start_command_def spawn_def split: if_splits)

definition can_start :: "world \<Rightarrow> string \<Rightarrow> string \<Rightarrow> bool" where
  "can_start w mode path = (if mode = ''bash'' then sh_startable w else startable w path)"

lemma can_start_env: "same_env w w' \<Longrightarrow> can_start w' mode path = can_start w mode path"
  by (simp add: can_start_def same_env_def)

lemma start_command_starts:
  "can_start w mode path \<Longrightarrow> \<exists>w'. start_command path mode argv w = (Inr (next_pid w), w')"
  by (auto simp: start_command_def spawn_def can_start_def)

lemma start_command_fails:
  "\<not> can_start w mode path \<Longrightarrow> \<exists>e. start_command path mode argv w = (Inl e, w)"
  by (auto simp: start_command_def can_start_def split: if_splits)

text \<open>Replacing the module of a name: the old process is killed first, and cannot make the start panic.\<close>

lemma kill_old_ready:
  assumes "table_ready w xs" "length (table_text xs) \<le> 10000"
  shows "\<exists>w2 ys. (case map_of xs name of None \<Rightarrow> Some w | Some pid \<Rightarrow> map_option snd (KillSelf pid w)) = Some w2 \<and>
           table_ready w2 ys \<and> same_env w w2"
proof (cases "map_of xs name")
  case None
  with assms(1) show ?thesis by auto
next
  case (Some p)
  with KillSelf_ready[OF assms, of p] show ?thesis by force
qed

lemma StartProject_ready:
  assumes "table_ready w xs" "length (table_text xs) \<le> 10000" "valid_utf8 nick" "valid_utf8 mode"
    "in_int64 (next_pid w)" "can_start w mode path"
  shows "\<exists>p w' ys. StartProject path mode nick w = Some ((p, None), w') \<and> p_Name p = nick \<and>
           p_Id p = next_pid w \<and> alive w' (p_Id p) \<and> table_ready w' ys \<and> map_of ys = (map_of xs)(nick \<mapsto> p) \<and> Pid_ok p"
proof -
  let ?p = "\<lparr>p_Name = nick, p_Id = next_pid w, p_Result = ''start success'', p_Mode = mode\<rparr>"
  let ?ys = "AList.update nick ?p (sort_key fst xs)"
  have ok: "table_ok (sort_key fst xs)" "map_of (sort_key fst xs) = map_of xs"
    using assms(1) table_ok_sort map_of_sort_table by (auto simp: table_ready_def)
  obtain w2 zs where w2: "(case map_of xs nick of None \<Rightarrow> Some w | Some pid \<Rightarrow> map_option snd (KillSelf pid w)) = Some w2"
    "table_ready w2 zs" "same_env w w2" using kill_old_ready[OF assms(1,2)] by metis
  have "can_start w2 mode path"
    using assms(6) can_start_env[OF w2(3)] by simp
  then obtain w3 where w3: "start_command path mode (argv_of nick) w2 = (Inr (next_pid w2), w3)"
    using start_command_starts by blast
  note s3 = start_command_Inr[OF w3]
  have "table_path w3 = table_path w2" using s3 by (simp add: table_path_def ProcessTablePath_def abs_path_def)
  then have acc: "table_access w3" "\<not> disk_full w3" using s3 w2(2) by (auto simp: table_ready_def table_access_def)
  have "Pid_ok ?p" using assms by (simp add: Pid_ok_def byte_of_def)
  then have "table_ok ?ys" using ok(1) assms(3) table_ok_update by blast
  then have "table_ready (UpdateProcessTable (Some ?ys) w3) ?ys" using table_ready_Update acc by blast
  moreover have "StartProject path mode nick w = Some ((?p, None), UpdateProcessTable (Some ?ys) w3)"
    using ReadProcessTable_ready[OF assms(1,2)] w2 w3 s3 ok(2)
    by (simp add: StartProject_def same_env_def Let_def)
  moreover have "alive (UpdateProcessTable (Some ?ys) w3) (next_pid w)"
    using s3 w2(3) by (simp add: alive_def UpdateProcessTable_env same_env_def)
  ultimately show ?thesis using ok(2) \<open>Pid_ok ?p\<close> by (auto simp: map_of_update)
qed

text \<open>
  C33. A start that the operating system allows succeeds: the new process runs, its entry under the
  nick name is written to the process table, every other entry of the table is kept, and the
  returned \<^verbatim>\<open>Pid\<close> is the entry written.
\<close>

theorem StartProject_success:
  assumes "table_ready w xs" "length (table_text xs) \<le> 10000" "valid_utf8 nick" "valid_utf8 mode"
    "in_int64 (next_pid w)" "can_start w mode path"
  shows "\<exists>p w' ys. StartProject path mode nick w = Some ((p, None), w') \<and> p_Name p = nick \<and>
           p_Id p = next_pid w \<and> alive w' (p_Id p) \<and> table_ready w' ys \<and> map_of ys = (map_of xs)(nick \<mapsto> p)"
  using StartProject_ready[OF assms] by blast

theorem StartProject_success_witness:
  "\<exists>p w' ys. StartProject ''/agent/proxy/decept-proxy'' [] ''proxy'' two_procs = Some ((p, None), w') \<and> p_Name p = ''proxy'' \<and>
     p_Id p = next_pid two_procs \<and> alive w' (p_Id p) \<and> table_ready w' ys \<and> map_of ys = (map_of sample_table)(''proxy'' \<mapsto> p)"
  by (rule StartProject_success[OF two_procs_ready sample_table_short])
     (simp_all add: byte_of_def in_int64_def can_start_def two_procs_def table_world_def blank_world_def set_file_def)

text \<open>
  A start that fails after the old process was killed leaves the killed process in the table: the
  file again denotes the table from before the call, dead entry included (the deferred update
  writes the copy that was read first).
\<close>

theorem StartProject_failure_keeps_dead_entry:
  assumes "table_ready w xs" "length (table_text xs) \<le> 10000"
    "\<not> can_start w mode path"
  shows "\<exists>e w' ys. StartProject path mode nick w = Some ((Pid_zero\<lparr>p_Mode := mode\<rparr>, Some e), w') \<and>
           table_ready w' ys \<and> map_of ys = map_of xs"
proof -
  let ?ys = "sort_key fst xs"
  have ok: "table_ok ?ys" "map_of ?ys = map_of xs"
    using assms(1) table_ok_sort map_of_sort_table by (auto simp: table_ready_def)
  obtain w2 zs where w2: "(case map_of xs nick of None \<Rightarrow> Some w | Some pid \<Rightarrow> map_option snd (KillSelf pid w)) = Some w2"
    "table_ready w2 zs" "same_env w w2" using kill_old_ready[OF assms(1,2)] by metis
  have "\<not> can_start w2 mode path"
    using assms(3) can_start_env[OF w2(3)] by simp
  then obtain e where e: "start_command path mode (argv_of nick) w2 = (Inl e, w2)"
    using start_command_fails by blast
  have "StartProject path mode nick w = Some ((Pid_zero\<lparr>p_Mode := mode\<rparr>, Some e), UpdateProcessTable (Some ?ys) w2)"
    using ReadProcessTable_ready[OF assms(1,2)] w2(1) e ok(2) by (simp add: StartProject_def)
  moreover have "table_ready (UpdateProcessTable (Some ?ys) w2) ?ys"
    using table_ready_Update w2(2) ok(1) by (simp add: table_ready_def)
  ultimately show ?thesis using ok(2) by blast
qed

theorem StartProject_failure_keeps_dead_entry_witness:
  "\<exists>e w' ys. StartProject ''/agent/proxy/decept-proxy'' [] ''proxy'' (two_procs\<lparr>startable := \<lambda>_. False\<rparr>) =
       Some ((Pid_zero\<lparr>p_Mode := []\<rparr>, Some e), w') \<and> table_ready w' ys \<and> map_of ys = map_of sample_table"
  by (rule StartProject_failure_keeps_dead_entry[OF _ sample_table_short])
     (use table_ready_env[of two_procs "two_procs\<lparr>startable := \<lambda>_. False\<rparr>"] two_procs_ready in
      \<open>auto simp: can_start_def table_ready_def table_access_def table_file_def table_path_def ProcessTablePath_def abs_path_def\<close>)

text \<open>
  When the process table cannot be read, nothing is started and yet \<^verbatim>\<open>StartProject\<close> returns no
  error: the caller gets a \<^verbatim>\<open>Pid\<close> with id 0 and a nil error.
\<close>

theorem StartProject_unreadable_reports_success:
  assumes "ReadProcessTable w = Some ((False, t), w1)"
  shows "StartProject path mode nick w = Some ((Pid_zero\<lparr>p_Mode := mode\<rparr>, None), w1)"
  using assms by (simp add: StartProject_def)

lemma unreadable_table_world: "ReadProcessTable (UpdateProcessTable None (table_world\<lparr>disk_full := True\<rparr>)) =
    Some ((False, None), UpdateProcessTable None (table_world\<lparr>disk_full := True\<rparr>))"
proof -
  let ?w = "UpdateProcessTable None (table_world\<lparr>disk_full := True\<rparr>)"
  have "files ?w (table_path ?w) = Some []"
    using table_world_full by (simp add: table_access_def UpdateProcessTable_eq world_simps table_path_def)
  moreover have "decode_pids [] = (None, False)" by (simp add: decode_pids_def unmarshal_def json_parse_def)
  ultimately show ?thesis using ReadProcessTable_existing[OF UpdateProcessTable_access[OF table_world_full(1)]] by simp
qed

theorem StartProject_unreadable_reports_success_witness:
  "StartProject ''/agent/x'' [] ''x'' (UpdateProcessTable None (table_world\<lparr>disk_full := True\<rparr>)) =
     Some ((Pid_zero\<lparr>p_Mode := []\<rparr>, None), UpdateProcessTable None (table_world\<lparr>disk_full := True\<rparr>))"
  by (rule StartProject_unreadable_reports_success[OF unreadable_table_world])

section \<open>The monitors\<close>

lemma list_ex_sort [simp]: "list_ex P (sort_key f xs) = list_ex P xs"
  by (simp add: list_ex_iff)

text \<open>
  A module that finds its own process id in the table stays alive, and one that does not, or that
  cannot read the table, stops itself: with a readable table \<^verbatim>\<open>MonitForKillSelfTask\<close> exits exactly
  when no entry has its id.
\<close>

theorem kill_self_round_spec:
  assumes "table_ready w xs" "length (table_text xs) \<le> 10000"
  shows "kill_self_round w =
    Some (if \<exists>name p. map_of xs name = Some p \<and> p_Id p = self_pid w then Continue else Exit ''killed by self'', w)"
proof -
  have "keys_distinct xs" using assms(1) by (simp add: table_ready_def table_ok_def)
  then have "list_ex (\<lambda>(_, p). p_Id p = self_pid w) xs \<longleftrightarrow> (\<exists>name p. map_of xs name = Some p \<and> p_Id p = self_pid w)"
    by (auto simp: list_ex_iff)
  then show ?thesis using ReadProcessTable_ready[OF assms] by (simp add: kill_self_round_def)
qed

theorem kill_self_round_spec_witness:
  "kill_self_round table_world =
     Some (if \<exists>name p. map_of sample_table name = Some p \<and> p_Id p = self_pid table_world then Continue
           else Exit ''killed by self'', table_world)"
  by (rule kill_self_round_spec[OF table_world_ready sample_table_short])

lemma length_cpu_window: "length his \<le> 6 \<Longrightarrow> length (cpu_window his c) = min 6 (Suc (length his))"
  by (auto simp: cpu_window_def Let_def)

lemma cpu_window_suffix:
  assumes "his = drop (length all - 6) all"
  shows "cpu_window his c = drop (Suc (length all) - 6) (all @ [c])"
proof (cases "length all < 6")
  case True
  with assms show ?thesis by (simp add: cpu_window_def Let_def)
next
  case False
  then have "Suc (length all) - 6 = Suc (length all - 6)" by simp
  with False assms show ?thesis by (simp add: cpu_window_def Let_def drop_Suc tl_drop tl_append2)
qed

definition healthy :: "world \<Rightarrow> bool" where
  "healthy w = (case procs w (as_int32 (self_pid w)) of None \<Rightarrow> False | Some p \<Rightarrow> p_info_ok p \<and> mem_used p \<le> 150)"

definition own_cpu :: "world \<Rightarrow> rat" where
  "own_cpu w = (case procs w (as_int32 (self_pid w)) of None \<Rightarrow> 0 | Some p \<Rightarrow> avg_cpu w p)"

lemma mem_cpu_round_healthy:
  "healthy w \<Longrightarrow> mem_cpu_round cpuLimit w his =
     (let his' = cpu_window his (own_cpu w)
      in (if length his' = 6 \<and> (\<forall>c\<in>set his'. \<not> c < cpuLimit) then Exit ''cpu usage'' else Continue, his'))"
  by (auto simp: mem_cpu_round_def healthy_def own_cpu_def Let_def list_all_iff split: option.splits)

text \<open>The last six of the samples up to the \<open>n\<close>-th.\<close>

definition last_six :: "rat list \<Rightarrow> nat \<Rightarrow> rat list" where
  "last_six cs n = drop (n - 6) (take n cs)"

lemma last_six_all: "length cs = n \<Longrightarrow> last_six cs n = drop (n - 6) cs"
  by (simp add: last_six_def)

lemma last_six_append: "n \<le> length cs \<Longrightarrow> last_six (cs @ ds) n = last_six cs n"
  by (simp add: last_six_def)

lemma monitor_continues_iff:
  assumes "list_all healthy ws"
  shows "fst (StartMemCpuMonitor cpuLimit ws (last_six pre (length pre))) = Continue \<longleftrightarrow>
    (\<forall>n. length pre < n \<and> n \<le> length pre + length ws \<and> 6 \<le> n \<longrightarrow>
         (\<exists>c\<in>set (last_six (pre @ map own_cpu ws) n). c < cpuLimit))"
  using assms
proof (induction ws arbitrary: pre)
  case Nil
  then show ?case by auto
next
  case (Cons w ws)
  let ?all = "pre @ [own_cpu w]" and ?P = "\<lambda>cs n. \<exists>c\<in>set (last_six cs n). c < cpuLimit"
  have win: "cpu_window (last_six pre (length pre)) (own_cpu w) = last_six ?all (length ?all)"
    using cpu_window_suffix[of "last_six pre (length pre)" pre "own_cpu w"] by (simp add: last_six_all)
  have len: "length (last_six ?all (length ?all)) = 6 \<longleftrightarrow> 6 \<le> length ?all"
    by (auto simp: last_six_all)
  have ih: "fst (StartMemCpuMonitor cpuLimit ws (last_six ?all (length ?all))) = Continue \<longleftrightarrow>
    (\<forall>n. length ?all < n \<and> n \<le> length ?all + length ws \<and> 6 \<le> n \<longrightarrow> ?P (?all @ map own_cpu ws) n)"
    using Cons.IH[of ?all] Cons.prems by simp
  have first: "?P (?all @ map own_cpu ws) (length ?all) = ?P ?all (length ?all)"
    by (simp only: last_six_append)
  have split: "(\<forall>n. length pre < n \<and> n \<le> length pre + length (w # ws) \<and> 6 \<le> n \<longrightarrow> Q n) \<longleftrightarrow>
    (6 \<le> length ?all \<longrightarrow> Q (length ?all)) \<and> (\<forall>n. length ?all < n \<and> n \<le> length ?all + length ws \<and> 6 \<le> n \<longrightarrow> Q n)" for Q
    by (auto simp: less_Suc_eq_le) (metis Suc_leI le_neq_implies_less)
  have "fst (StartMemCpuMonitor cpuLimit (w # ws) (last_six pre (length pre))) = Continue \<longleftrightarrow>
    (6 \<le> length ?all \<longrightarrow> ?P ?all (length ?all)) \<and> fst (StartMemCpuMonitor cpuLimit ws (last_six ?all (length ?all))) = Continue"
    using Cons.prems len by (auto simp: mem_cpu_round_healthy win Let_def)
  then show ?case unfolding ih split[of "?P (pre @ map own_cpu (w # ws))"] using first by simp
qed

text \<open>
  As long as the process has its memory below the limit, the CPU monitor stops it exactly when
  six consecutive samples were at or above the limit: it survives a sequence of rounds if and
  only if every window of six samples in a row has one below the limit.
\<close>

theorem StartMemCpuMonitor_spec:
  assumes "list_all healthy ws"
  shows "fst (StartMemCpuMonitor cpuLimit ws []) = Continue \<longleftrightarrow>
    (\<forall>n. 6 \<le> n \<and> n \<le> length ws \<longrightarrow> (\<exists>c\<in>set (drop (n - 6) (take n (map own_cpu ws))). c < cpuLimit))"
proof -
  have "(0 < n \<and> n \<le> m \<and> 6 \<le> n) = (6 \<le> n \<and> n \<le> m)" for n m :: nat by auto
  then show ?thesis using monitor_continues_iff[OF assms, of cpuLimit "[]"] by (simp add: last_six_def)
qed

definition busy_world :: "rat \<Rightarrow> world" where
  "busy_world c = blank_world\<lparr>procs := [1 \<mapsto> shell_proc\<lparr>p_cpu := c\<rparr>]\<rparr>"

theorem StartMemCpuMonitor_spec_witness:
  "fst (StartMemCpuMonitor 5 (replicate 7 (busy_world 9)) []) = Continue \<longleftrightarrow>
    (\<forall>n. 6 \<le> n \<and> n \<le> length (replicate 7 (busy_world 9)) \<longrightarrow>
       (\<exists>c\<in>set (drop (n - 6) (take n (map own_cpu (replicate 7 (busy_world 9))))). c < 5))"
  by (rule StartMemCpuMonitor_spec)
     (simp add: healthy_def busy_world_def blank_world_def as_int32_def shell_proc_def mem_used_def list_all_iff)

section \<open>What process management leaves alone\<close>

text \<open>Every operation on processes and on their table changes no file but the table.\<close>

definition frame :: "world \<Rightarrow> world \<Rightarrow> bool" where
  "frame w w' = (cwd w' = cwd w \<and> wr_denied w' = wr_denied w \<and> rd_denied w' = rd_denied w \<and> disk_full w' = disk_full w \<and>
     dirs w' = dirs w \<and> published w' = published w \<and> redis_up w' = redis_up w \<and>
     (\<forall>q. q \<noteq> table_path w \<longrightarrow> files w' q = files w q))"

lemma frame_refl [simp]: "frame w w"
  by (simp add: frame_def)

lemma frame_table_path: "frame w w' \<Longrightarrow> table_path w' = table_path w"
  by (simp add: frame_def table_path_def ProcessTablePath_def abs_path_def)

lemma frame_trans: "frame w w' \<Longrightarrow> frame w' w'' \<Longrightarrow> frame w w''"
  using frame_table_path[of w w'] by (auto simp: frame_def)

lemma frame_set_table: "frame w (set_file (ProcessTablePath w) c w)"
  by (simp add: frame_def world_simps table_path_def)

lemma frame_ensure: "ensure_table (ProcessTablePath w) w = (ok, w') \<Longrightarrow> frame w w'"
  by (auto simp: ensure_table_def os_create_def os_write_def frame_def world_simps table_path_def
      split: if_splits prod.splits option.splits)

lemma frame_ReadProcessTable: "ReadProcessTable w = Some (r, w') \<Longrightarrow> frame w w'"
  by (auto simp: ReadProcessTable_def dest: frame_ensure split: prod.splits bool.splits option.splits if_splits bind_splits)

lemma frame_UpdateProcessTable: "frame w (UpdateProcessTable m w)"
  by (simp add: UpdateProcessTable_eq frame_set_table)

lemma frame_Update_after: "frame w w' \<Longrightarrow> frame w (UpdateProcessTable m w')"
  using frame_UpdateProcessTable frame_trans by blast

lemma frame_clearProcessTable: "clearProcessTable name w = Some w' \<Longrightarrow> frame w w'"
  by (auto simp: clearProcessTable_def split: bind_splits if_splits
      dest!: frame_ReadProcessTable intro: frame_Update_after)

lemma frame_KillProcess: "KillProcess pid w = (e, w') \<Longrightarrow> frame w w'"
  using KillProcess_cases[of pid w e w'] by (auto simp: frame_def same_env_def)

lemma frame_KillSelf: "KillSelf p w = Some (e, w') \<Longrightarrow> frame w w'"
  by (auto simp: KillSelf_def split: bind_splits if_splits prod.splits option.splits
      dest!: frame_clearProcessTable frame_KillProcess intro: frame_trans)

lemma frame_start_command: "start_command path mode argv w = (r, w') \<Longrightarrow> frame w w'"
  by (auto simp: start_command_def spawn_def frame_def split: if_splits)

lemma frame_StartProject:
  assumes "StartProject path mode nick w = Some (r, w')"
  shows "frame w w'"
proof -
  obtain ok t w1 where r: "ReadProcessTable w = Some ((ok, t), w1)"
    using assms by (auto simp: StartProject_def Let_def split: bind_splits)
  note f1 = frame_ReadProcessTable[OF r]
  show ?thesis
  proof (cases ok)
    case False
    with assms r f1 show ?thesis by (simp add: StartProject_def Let_def)
  next
    case True
    with assms r obtain w2 where w2: "(case mget t nick of None \<Rightarrow> Some w1 | Some pid \<Rightarrow> map_option snd (KillSelf pid w1)) = Some w2"
      by (auto simp: StartProject_def Let_def split: bind_splits)
    then have f2: "frame w w2" using f1 frame_trans frame_KillSelf by (auto split: option.splits)
    obtain x w3 where w3: "start_command path mode (argv_of nick) w2 = (x, w3)" by fastforce
    have f3: "frame w w3" using frame_start_command[OF w3] f2 frame_trans by blast
    show ?thesis
      using assms True r w2 w3 frame_Update_after[OF f3]
      by (auto simp: StartProject_def Let_def split: sum.splits bind_splits)
  qed
qed

section \<open>A full disk\<close>

lemma decode_pids_empty: "decode_pids [] = (None, False)"
  by (simp add: decode_pids_def unmarshal_def json_parse_def)

lemma ReadProcessTable_empty:
  "table_access w \<Longrightarrow> files w (table_path w) = Some [] \<Longrightarrow> ReadProcessTable w = Some ((False, None), w)"
  using ReadProcessTable_existing[of w "[]"] by (simp add: decode_pids_empty)

lemma table_access_env: "same_env w w' \<Longrightarrow> files w' = files w \<Longrightarrow> table_access w' = table_access w"
  using same_env_paths[of w w'] by (simp add: table_access_def same_env_def)

lemma KillSelf_disk_full:
  assumes "table_access w" "table_file w xs" "table_ok xs" "length (table_text xs) \<le> 10000" "disk_full w"
  shows "\<exists>e w'. KillSelf p w = Some (e, w') \<and> same_env w w' \<and> table_access w' \<and> files w' (table_path w') = Some []"
proof -
  obtain m where c: "clearProcessTable (p_Name p) w = Some (UpdateProcessTable m w)"
    using ReadProcessTable_file[OF assms(1-4)] by (simp add: clearProcessTable_def)
  let ?w1 = "UpdateProcessTable m w"
  have w1: "table_access ?w1" "files ?w1 (table_path ?w1) = Some []" "same_env w ?w1"
    using assms(1,5) UpdateProcessTable_access UpdateProcessTable_env(1)
    by (simp_all add: table_path_Update) (simp add: UpdateProcessTable_eq table_access_def world_simps table_path_def)
  have step: "same_env w v' \<and> table_access v' \<and> files v' (table_path v') = Some []"
    if "KillProcess i v = (e, v')" "same_env w v" "table_access v" "files v (table_path v) = Some []" for i v e v'
    using KillProcess_cases[OF that(1)] that(2-4) same_env_trans table_access_env same_env_paths by metis
  obtain e2 w2 where w2: "KillProcess (p_Id p) ?w1 = (e2, w2)" by fastforce
  obtain e3 w3 where w3: "KillProcess (p_Id p + 1) w2 = (e3, w3)" by fastforce
  show ?thesis
    using c w1 w2 w3 step[OF w2 w1(3,1,2)] step[OF w3]
    by (auto simp: KillSelf_def split: option.splits)
qed

end
