(* ===== verification/Go_Hash.thy ===== *)
theory Go_Hash
  imports Go_Encoding
begin

text \<open>
  Package \<^verbatim>\<open>crypto/md5\<close> (RFC 1321), which \<^verbatim>\<open>comm.MD5\<close> uses to check a downloaded package: the four
  32-bit registers, 64 steps per block of 64 bytes, and the padding with the length in bits.
\<close>

unbundle bit_operations_syntax

type_synonym md5_state = "32 word \<times> 32 word \<times> 32 word \<times> 32 word"

definition md5_K :: "32 word list" where
  "md5_K =
    [3614090360, 3905402710, 606105819, 3250441966, 4118548399, 1200080426, 2821735955, 4249261313,
     1770035416, 2336552879, 4294925233, 2304563134, 1804603682, 4254626195, 2792965006, 1236535329,
     4129170786, 3225465664, 643717713, 3921069994, 3593408605, 38016083, 3634488961, 3889429448,
     568446438, 3275163606, 4107603335, 1163531501, 2850285829, 4243563512, 1735328473, 2368359562,
     4294588738, 2272392833, 1839030562, 4259657740, 2763975236, 1272893353, 4139469664, 3200236656,
     681279174, 3936430074, 3572445317, 76029189, 3654602809, 3873151461, 530742520, 3299628645,
     4096336452, 1126891415, 2878612391, 4237533241, 1700485571, 2399980690, 4293915773, 2240044497,
     1873313359, 4264355552, 2734768916, 1309151649, 4149444226, 3174756917, 718787259, 3951481745]"

definition md5_S :: "nat list" where
  "md5_S =
    [7, 12, 17, 22, 7, 12, 17, 22, 7, 12, 17, 22, 7, 12, 17, 22,
     5, 9, 14, 20, 5, 9, 14, 20, 5, 9, 14, 20, 5, 9, 14, 20,
     4, 11, 16, 23, 4, 11, 16, 23, 4, 11, 16, 23, 4, 11, 16, 23,
     6, 10, 15, 21, 6, 10, 15, 21, 6, 10, 15, 21, 6, 10, 15, 21]"

definition md5_mix :: "nat \<Rightarrow> 32 word \<Rightarrow> 32 word \<Rightarrow> 32 word \<Rightarrow> 32 word \<times> nat" where
  "md5_mix i b c d =
     (if i < 16 then ((b AND c) OR (NOT b AND d), i)
      else if i < 32 then ((d AND b) OR (NOT d AND c), (5 * i + 1) mod 16)
      else if i < 48 then (b XOR c XOR d, (3 * i + 5) mod 16)
      else (c XOR (b OR NOT d), 7 * i mod 16))"

definition md5_step :: "32 word list \<Rightarrow> nat \<Rightarrow> md5_state \<Rightarrow> md5_state" where
  "md5_step m i st =
     (case st of (a, b, c, d) \<Rightarrow>
        let (f, g) = md5_mix i b c d
        in (d, b + word_rotl (md5_S ! i) (a + f + md5_K ! i + m ! g), b, c))"

fun md5_words :: "string \<Rightarrow> 32 word list" where
  "md5_words (a # b # c # d # rest) = get_u32 [a, b, c, d] # md5_words rest"
| "md5_words _ = []"

definition md5_block :: "string \<Rightarrow> md5_state \<Rightarrow> md5_state" where
  "md5_block blk st =
     (case (st, fold (md5_step (md5_words blk)) [0..<64] st) of
        ((a, b, c, d), (a', b', c', d')) \<Rightarrow> (a + a', b + b', c + c', d + d'))"

function md5_blocks :: "string \<Rightarrow> md5_state \<Rightarrow> md5_state" where
  "md5_blocks s st = (if length s < 64 then st else md5_blocks (drop 64 s) (md5_block (take 64 s) st))"
  by pat_completeness auto
termination
  by (relation "measure (\<lambda>(s, st). length s)") auto

definition md5_pad :: "string \<Rightarrow> string" where
  "md5_pad s =
     (let n = length s; bits = 8 * n mod 2 ^ 64
      in s @ [CHR 0x80] @ replicate ((119 - n mod 64) mod 64) (CHR 0x00) @
         put_u32 (word_of_nat (bits mod 2 ^ 32)) @ put_u32 (word_of_nat (bits div 2 ^ 32)))"

definition md5_sum :: "string \<Rightarrow> string" where
  "md5_sum s =
     (case md5_blocks (md5_pad s) (1732584193, 4023233417, 2562383102, 271733878) of
        (a, b, c, d) \<Rightarrow> put_u32 a @ put_u32 b @ put_u32 c @ put_u32 d)"

definition md5_hex :: "string \<Rightarrow> string" where
  "md5_hex s = hex_encode (md5_sum s)"

declare md5_blocks.simps [simp del]

lemma length_md5_sum: "length (md5_sum s) = 16"
  by (simp add: md5_sum_def split: prod.splits)

lemma length_md5_hex: "length (md5_hex s) = 32"
  by (simp add: md5_hex_def length_hex_encode length_md5_sum)

lemma md5_hex_not_empty: "md5_hex s \<noteq> []"
  using length_md5_hex[of s] by auto

lemma md5_pad_length: "length (md5_pad s) mod 64 = 0"
proof -
  have "(n + 1 + (119 - n mod 64) mod 64 + 8) mod 64 = 0" for n :: nat
  proof -
    define r where "r = n mod 64"
    have "r < 64" by (simp add: r_def)
    then have "(r + 1 + (119 - r) mod 64 + 8) mod 64 = 0"
      by (cases "r \<le> 55") (auto simp: mod_if)
    moreover have "(n + 1 + (119 - r) mod 64 + 8) mod 64 = (r + 1 + (119 - r) mod 64 + 8) mod 64"
      unfolding r_def by (metis (no_types, lifting) add.assoc mod_add_left_eq)
    ultimately show ?thesis by (simp add: r_def)
  qed
  from this[of "length s"] show ?thesis by (simp add: md5_pad_def Let_def ac_simps)
qed

end
