(* ===== verification/Go_Paths.thy ===== *)
theory Go_Paths
  imports Go_World
begin

text \<open>
  Package \<^verbatim>\<open>path/filepath\<close> on the separator \<^verbatim>\<open>/\<close>, and the directory operations of \<^verbatim>\<open>os\<close> that
  the archive and log code use.
\<close>

section \<open>Paths (path/filepath)\<close>

fun clean_elems :: "bool \<Rightarrow> string list \<Rightarrow> string list \<Rightarrow> string list" where
  "clean_elems rooted [] acc = rev acc"
| "clean_elems rooted (e # es) acc =
     (if e = [] \<or> e = ''.'' then clean_elems rooted es acc
      else if e = ''..'' then
        (case acc of
           [] \<Rightarrow> clean_elems rooted es (if rooted then [] else [''..''])
         | a # ads \<Rightarrow> if a = ''..'' then clean_elems rooted es (''..'' # acc) else clean_elems rooted es ads)
      else clean_elems rooted es (e # acc))"

definition Clean :: "string \<Rightarrow> string" where
  "Clean p =
     (let rooted = HasPrefix p ''/''; out = Join (clean_elems rooted (Split p ''/'') []) ''/''
      in if rooted then CHR ''/'' # out else if out = [] then ''.'' else out)"

definition Join_path :: "string \<Rightarrow> string \<Rightarrow> string" where
  "Join_path a b =
     (let es = filter (\<lambda>e. e \<noteq> []) [a, b] in if es = [] then [] else Clean (Join es ''/''))"

text \<open>\<^verbatim>\<open>filepath.Dir\<close>: everything before the last separator, cleaned.\<close>

definition Dir :: "string \<Rightarrow> string" where
  "Dir p = Clean (rev (dropWhile (\<lambda>c. c \<noteq> CHR ''/'') (rev p)))"

definition dir_key :: "world \<Rightarrow> string \<Rightarrow> string" where
  "dir_key w p = Clean (abs_path w p)"

definition os_mkdir_all :: "string \<Rightarrow> world \<Rightarrow> go_error option \<times> world" where
  "os_mkdir_all p w =
     (let d = dir_key w p in
      if dirs w d then (None, w)
      else if wr_denied w d then (Some EPermission, w)
      else (None, w\<lparr>dirs := \<lambda>q. dirs w q \<or> q = d \<or> HasPrefix d (q @ ''/'')\<rparr>))"

text \<open>\<^verbatim>\<open>filepath.Split\<close>: the path up to and including the last separator, and the rest.\<close>

definition Split_path :: "string \<Rightarrow> string \<times> string" where
  "Split_path p =
     (rev (dropWhile (\<lambda>c. c \<noteq> CHR ''/'') (rev p)), rev (takeWhile (\<lambda>c. c \<noteq> CHR ''/'') (rev p)))"

definition Base :: "string \<Rightarrow> string" where
  "Base p =
     (if p = [] then ''.''
      else let q = rev (dropWhile (\<lambda>c. c = CHR ''/'') (rev p)); b = snd (Split_path q)
           in if b = [] then ''/'' else b)"

text \<open>\<^verbatim>\<open>filepath.Ext\<close>: from the last dot of the last element, or nothing.\<close>

definition Ext :: "string \<Rightarrow> string" where
  "Ext p =
     (let b = snd (Split_path p)
      in if CHR ''.'' \<in> set b then CHR ''.'' # rev (takeWhile (\<lambda>c. c \<noteq> CHR ''.'') (rev b)) else [])"

lemma Split_path_append: "fst (Split_path p) @ snd (Split_path p) = p"
  by (simp add: Split_path_def flip: rev_append)

lemma Ext_suffix: "HasSuffix p (Ext p)"
proof (cases "CHR ''.'' \<in> set (snd (Split_path p))")
  case True
  let ?b = "snd (Split_path p)"
  have "dropWhile (\<lambda>c. c \<noteq> CHR ''.'') (rev ?b) \<noteq> []" using True by (simp add: dropWhile_eq_Nil_conv)
  then obtain t where "dropWhile (\<lambda>c. c \<noteq> CHR ''.'') (rev ?b) = CHR ''.'' # t"
    using hd_dropWhile[of "\<lambda>c. c \<noteq> CHR ''.''" "rev ?b"] by (cases "dropWhile (\<lambda>c. c \<noteq> CHR ''.'') (rev ?b)") simp_all
  then have "rev ?b = takeWhile (\<lambda>c. c \<noteq> CHR ''.'') (rev ?b) @ CHR ''.'' # t"
    using takeWhile_dropWhile_id[of "\<lambda>c. c \<noteq> CHR ''.''" "rev ?b"] by simp
  then have "rev (rev ?b) = rev (takeWhile (\<lambda>c. c \<noteq> CHR ''.'') (rev ?b) @ CHR ''.'' # t)" by (rule arg_cong)
  then have "?b = rev t @ CHR ''.'' # rev (takeWhile (\<lambda>c. c \<noteq> CHR ''.'') (rev ?b))" by simp
  with True Split_path_append[of p] have "p = (fst (Split_path p) @ rev t) @ Ext p" by (simp add: Ext_def Let_def)
  then obtain a e where "p = a @ e" "Ext p = e" by blast
  then show ?thesis by (simp add: HasSuffix_def)
qed (simp add: Ext_def HasSuffix_def)

text \<open>A file name is its stem followed by its extension.\<close>

lemma stem_Ext: "TrimSuffix p (Ext p) @ Ext p = p"
  using Ext_suffix[of p] by (auto simp: TrimSuffix_def HasSuffix_def) (metis append_take_drop_id)

end
