(* ===== verification/Comm_Net.thy ===== *)
theory Comm_Net
  imports Comm_Process Go_Hash Go_Paths
begin

text \<open>
  The rest of \<^verbatim>\<open>util/comm/service.go\<close>: shell commands, downloads, archives, checksums, redis keys and
  addresses; \<^verbatim>\<open>redisUtil.go\<close>; and the messages of \<^verbatim>\<open>msg.go\<close>.  The shell and the decoder of the zip
  format are parameters: \<open>sh prog dir cmd w\<close> is the output (\<^const>\<open>None\<close> for a command that fails)
  and the new state of the machine, \<open>unz bytes\<close> the entries of an archive.
\<close>

type_synonym shell = "string \<Rightarrow> string \<Rightarrow> string \<Rightarrow> world \<Rightarrow> string option \<times> world"

section \<open>Commands and transfers\<close>

definition ExecFileForEcho :: "shell \<Rightarrow> string \<Rightarrow> world \<Rightarrow> (string \<times> bool) \<times> world" where
  "ExecFileForEcho sh projectPath w =
     (case sh ''/bin/bash'' (cwd w) projectPath w of
        (None, w1) \<Rightarrow> ((''0'', False), w1)
      | (Some output, w1) \<Rightarrow> ((output, True), w1))"

text \<open>\<open>http_reply\<close> is \<^const>\<open>None\<close> where the request fails; the text of that error is not modelled
  and stands as \<open>err\<close>.\<close>

definition HttpPost :: "(string \<Rightarrow> string) \<Rightarrow> world \<Rightarrow> string \<Rightarrow> json \<Rightarrow> string" where
  "HttpPost err w url data =
     (case http_reply w url (json_print data) of None \<Rightarrow> err url | Some result \<Rightarrow> result)"

definition HttpDownload :: "string \<Rightarrow> string \<Rightarrow> world \<Rightarrow> bool \<times> world" where
  "HttpDownload url fileName w =
     (case http_body w url of
        None \<Rightarrow> (False, w)
      | Some body \<Rightarrow>
          (case os_create fileName w of
             (Some err, w1) \<Rightarrow> (False, w1)
           | (None, w1) \<Rightarrow>
               (case os_write fileName body w1 of
                  (Some wErr, w2) \<Rightarrow> (False, w2)
                | (None, w2) \<Rightarrow> (True, w2))))"

definition MD5 :: "world \<Rightarrow> string \<Rightarrow> string" where
  "MD5 w filename =
     (let filePath = (if Index filename ''/'' > -1 then filename else ''./'' @ filename)
      in case os_open_read w filePath of Inl err \<Rightarrow> [] | Inr content \<Rightarrow> md5_hex content)"

section \<open>Archives\<close>

record zip_entry =
  z_Name :: string
  z_IsDir :: bool
  z_content :: "string option"

fun extract_entries :: "string \<Rightarrow> zip_entry list \<Rightarrow> world \<Rightarrow> go_error option \<times> world" where
  "extract_entries destDir [] w = (None, w)"
| "extract_entries destDir (f # fs) w =
     (let fpath = Join_path destDir (z_Name f) in
      if z_IsDir f then extract_entries destDir fs (snd (os_mkdir_all fpath w))
      else case os_mkdir_all (Dir fpath) w of
             (Some err, w1) \<Rightarrow> (Some err, w1)
           | (None, w1) \<Rightarrow>
               (case z_content f of
                  None \<Rightarrow> (Some (EOther ''zip''), w1)
                | Some bytes \<Rightarrow>
                    (case os_create fpath w1 of
                       (Some err, w2) \<Rightarrow> (Some err, w2)
                     | (None, w2) \<Rightarrow>
                         (case os_write fpath bytes w2 of
                            (Some err, w3) \<Rightarrow> (Some err, w3)
                          | (None, w3) \<Rightarrow> extract_entries destDir fs w3))))"

definition Unzip :: "shell \<Rightarrow> (string \<Rightarrow> zip_entry list option) \<Rightarrow> string \<Rightarrow> string \<Rightarrow> world \<Rightarrow> go_error option \<times> world" where
  "Unzip sh unz zipFile destDir w =
     (case (if (dirs w (dir_key w destDir) \<or> files w (dir_key w destDir) \<noteq> None) \<and> \<not> rd_denied w (dir_key w destDir) then (None, w)
            else os_mkdir_all destDir w) of
        (Some err, w1) \<Rightarrow> (Some err, w1)
      | (None, w1) \<Rightarrow>
          (let w2 = snd (sh ''/bin/sh'' (cwd w1) (''chmod -R 777 '' @ destDir) w1) in
           if Contains zipFile ''.tar.gz'' then
             (None, snd (sh ''/bin/sh'' destDir (''tar -zxvf '' @ zipFile @ '' -C '' @ destDir) w2))
           else if Contains zipFile ''.zip'' then
             (None, snd (sh ''/bin/sh'' destDir (''unzip -o '' @ zipFile @ '' -d '' @ destDir) w2))
           else case os_open_read w2 zipFile of
                  Inl err \<Rightarrow> (Some err, w2)
                | Inr bytes \<Rightarrow>
                    (case unz bytes of
                       None \<Rightarrow> (Some (EOther ''zip: not a valid zip file''), w2)
                     | Some fs \<Rightarrow> extract_entries destDir fs w2)))"

section \<open>Checksum\<close>

fun sum16 :: "string \<Rightarrow> 32 word \<Rightarrow> 32 word" where
  "sum16 (a # b # rest) acc = sum16 rest (acc + (push_bit 8 (word_of_nat (byte_of a)) + word_of_nat (byte_of b)))"
| "sum16 [a] acc = acc + word_of_nat (byte_of a)"
| "sum16 [] acc = acc"

unbundle bit_operations_syntax

definition CheckSum :: "string \<Rightarrow> 16 word" where
  "CheckSum data = (let s = sum16 data 0; s' = s + drop_bit 16 s in ucast (NOT s'))"

section \<open>Redis (redisUtil.go, service.go)\<close>

record RedisServer =
  redisHost :: string
  redisAuth :: string

definition NewRedis :: "string \<Rightarrow> string \<Rightarrow> RedisServer" where
  "NewRedis host auth = \<lparr>redisHost = host, redisAuth = auth\<rparr>"

definition PublishMsg :: "string \<Rightarrow> string \<Rightarrow> world \<Rightarrow> world" where
  "PublishMsg key value w = (if redis_up w then w\<lparr>published := published w @ [(key, value)]\<rparr> else w)"

text \<open>The key-value store of the redis server: a map, and whether it can be reached.\<close>

type_synonym redis_store = "string \<Rightarrow> string option"

definition RedisGet :: "string \<Rightarrow> world \<Rightarrow> redis_store \<Rightarrow> bool \<times> string" where
  "RedisGet key w store =
     (if \<not> redis_up w then (False, [])
      else case store key of None \<Rightarrow> (False, []) | Some data \<Rightarrow> (True, data))"

definition RedisSet :: "string \<Rightarrow> string \<Rightarrow> world \<Rightarrow> redis_store \<Rightarrow> bool \<times> redis_store" where
  "RedisSet key value w store = (if redis_up w then (True, store(key \<mapsto> value)) else (False, store))"

text \<open>
  What a receive on the subscription returns, and \<^verbatim>\<open>Listen\<close> on a finite sequence of receives: it
  forwards every message to the channel and subscribes again after an error.  \<open>sub\<close> are the
  results of \<^verbatim>\<open>Subscribe\<close>; only the first is looked at.
\<close>

datatype 'm receive = RMessage 'm | RSubscription | RError | ROther

fun listen_loop :: "'m receive list \<Rightarrow> 'm list \<times> nat" where
  "listen_loop [] = ([], 0)"
| "listen_loop (v # vs) =
     (let (ms, k) = listen_loop vs
      in case v of RMessage m \<Rightarrow> (m # ms, k) | RSubscription \<Rightarrow> (ms, k) | ROther \<Rightarrow> (ms, k) | RError \<Rightarrow> (ms, Suc k))"

definition Listen :: "bool \<Rightarrow> 'm receive list \<Rightarrow> bool \<times> 'm list \<times> nat" where
  "Listen sub vs = (if \<not> sub then (False, [], 1) else (case listen_loop vs of (ms, k) \<Rightarrow> (True, ms, Suc k)))"

fun ListenChannel :: "(bool \<times> 'm receive list) list \<Rightarrow> 'm list" where
  "ListenChannel [] = []"
| "ListenChannel ((sub, vs) # rest) =
     (case Listen sub vs of
        (False, _) \<Rightarrow> ListenChannel rest
      | (True, ms, _) \<Rightarrow> ms)"

section \<open>Addresses and messages (service.go, msg.go)\<close>

datatype addr = IPNet string bool bool | OtherAddr

text \<open>The text of the addresses that are IPv4 and not loopback, each followed by a comma.\<close>

fun addr_text :: "addr \<Rightarrow> string" where
  "addr_text (IPNet ip loopback to4) = (if \<not> loopback \<and> to4 then ip @ '','' else [])"
| "addr_text OtherAddr = []"

definition GetIp :: "addr list option \<Rightarrow> string \<times> bool" where
  "GetIp addrs =
     (case addrs of
        None \<Rightarrow> ([], False)
      | Some ads \<Rightarrow> (let ipb = concat (map addr_text ads) in if length ipb \<le> 0 then ([], False) else (butlast ipb, True)))"

record EventMsg =
  Eventtype :: int
  Msg :: string
  Createtime :: string
  Ip :: string
  ev_Port :: int
  Rule :: string

definition EventMsg_json :: "EventMsg \<Rightarrow> json" where
  "EventMsg_json e = JObj [(''eventtype'', JNum (Itoa (Eventtype e))), (''msg'', JStr (Msg e)),
     (''createtime'', JStr (Createtime e)), (''ip'', JStr (Ip e)), (''port'', JNum (Itoa (ev_Port e))),
     (''rule'', JStr (Rule e))]"

definition EventMsg_fields :: "EventMsg field list" where
  "EventMsg_fields = [(''eventtype'', int_field (\<lambda>i. Eventtype_update (\<lambda>_. i))), (''msg'', str_field (\<lambda>s. Msg_update (\<lambda>_. s))),
     (''createtime'', str_field (\<lambda>s. Createtime_update (\<lambda>_. s))), (''ip'', str_field (\<lambda>s. Ip_update (\<lambda>_. s))),
     (''port'', int_field (\<lambda>i. ev_Port_update (\<lambda>_. i))), (''rule'', str_field (\<lambda>s. Rule_update (\<lambda>_. s)))]"

definition EventMsg_zero :: EventMsg where
  "EventMsg_zero = \<lparr>Eventtype = 0, Msg = [], Createtime = [], Ip = [], ev_Port = 0, Rule = []\<rparr>"

definition EventMsg_ok :: "EventMsg \<Rightarrow> bool" where
  "EventMsg_ok e = (in_int64 (Eventtype e) \<and> valid_utf8 (Msg e) \<and> valid_utf8 (Createtime e) \<and> valid_utf8 (Ip e) \<and>
     in_int64 (ev_Port e) \<and> valid_utf8 (Rule e))"

record Message =
  Agentid :: string
  m_Data :: string

definition Message_json :: "Message \<Rightarrow> json" where
  "Message_json m = JObj [(''agentid'', JStr (Agentid m)), (''data'', JStr (m_Data m))]"

definition Message_fields :: "Message field list" where
  "Message_fields = [(''agentid'', str_field (\<lambda>s. Agentid_update (\<lambda>_. s))), (''data'', str_field (\<lambda>s. m_Data_update (\<lambda>_. s)))]"

definition Message_zero :: Message where
  "Message_zero = \<lparr>Agentid = [], m_Data = []\<rparr>"

definition Message_ok :: "Message \<Rightarrow> bool" where
  "Message_ok m = (valid_utf8 (Agentid m) \<and> valid_utf8 (m_Data m))"

definition GetMessage :: "string \<Rightarrow> string \<Rightarrow> string" where
  "GetMessage agentId data = json_print (Message_json \<lparr>Agentid = agentId, m_Data = b64_encode data\<rparr>)"

definition BuildAttackMsg :: "world \<Rightarrow> addr list option \<Rightarrow> string \<Rightarrow> int \<Rightarrow> string \<Rightarrow> string \<Rightarrow> string \<Rightarrow> string option" where
  "BuildAttackMsg w addrs agentId eventType msg ip port =
     (let ip' = (if ip = [] then fst (GetIp addrs) else ip); port' = (if port = [] then ''0'' else port)
      in case Atoi port' of
           None \<Rightarrow> None
         | Some intPort \<Rightarrow>
             Some (GetMessage agentId (json_print (EventMsg_json
               \<lparr>Eventtype = eventType, Msg = msg, Createtime = now w, Ip = ip', ev_Port = intPort, Rule = []\<rparr>))))"

definition AppLogMsg :: "world \<Rightarrow> string \<Rightarrow> int \<Rightarrow> string \<Rightarrow> string \<Rightarrow> string \<Rightarrow> string \<Rightarrow> string option" where
  "AppLogMsg w agentId eventType msg ip port rule =
     (case Atoi port of
        None \<Rightarrow> None
      | Some intPort \<Rightarrow>
          Some (GetMessage agentId (json_print (EventMsg_json
            \<lparr>Eventtype = eventType, Msg = msg, Createtime = now w, Ip = ip, ev_Port = intPort, Rule = rule\<rparr>))))"

section \<open>Messages arrive as they were sent\<close>

interpretation event_struct: json_struct EventMsg_json "dec_struct EventMsg_fields" EventMsg_zero EventMsg_ok
proof unfold_locales
  fix e assume ok: "EventMsg_ok e"
  then show "dec_struct EventMsg_fields (EventMsg_json e) EventMsg_zero = (e, True)"
    by (simp add: dec_struct_def EventMsg_json_def EventMsg_fields_def EventMsg_zero_def EventMsg_ok_def find_field_tl)
  from ok show "json_ok (EventMsg_json e)"
    by (auto simp: EventMsg_json_def EventMsg_ok_def byte_of_def)
qed

interpretation message_struct: json_struct Message_json "dec_struct Message_fields" Message_zero Message_ok
proof unfold_locales
  fix m assume ok: "Message_ok m"
  then show "dec_struct Message_fields (Message_json m) Message_zero = (m, True)"
    by (simp add: dec_struct_def Message_json_def Message_fields_def Message_zero_def find_field_tl)
  from ok show "json_ok (Message_json m)"
    by (auto simp: Message_json_def Message_ok_def byte_of_def)
qed

lemma b64_char_ascii: "n < 64 \<Longrightarrow> byte_of (b64_char n) < 128"
  by (auto simp: b64_char_def byte_of_def)

lemma b64_chars_ascii: "c \<in> set (b64_chars v) \<Longrightarrow> byte_of c < 128"
  by (auto simp: b64_chars_def intro: b64_char_ascii)

lemma b64_encode_ascii: "\<forall>c\<in>set (b64_encode s). byte_of c < 128"
  by (induction s rule: b64_encode.induct)
     (auto dest!: in_set_takeD simp: b64_chars_ascii byte_of_def[of "CHR ''=''"])

lemma b64_encode_utf8: "valid_utf8 (b64_encode s)"
  using b64_encode_ascii by (rule valid_utf8_ascii)

text \<open>What the receiver of a message does: parse the envelope, decode its data, parse the event.\<close>

definition read_message :: "string \<Rightarrow> (string \<times> EventMsg) option" where
  "read_message s =
     (case unmarshal (dec_struct Message_fields) s Message_zero of
        (m, True) \<Rightarrow>
          (case b64_decode (m_Data m) of
             (d, True) \<Rightarrow>
               (case unmarshal (dec_struct EventMsg_fields) d EventMsg_zero of
                  (e, True) \<Rightarrow> Some (Agentid m, e)
                | _ \<Rightarrow> None)
           | _ \<Rightarrow> None)
      | _ \<Rightarrow> None)"

lemma read_GetMessage:
  assumes "valid_utf8 agentId" "EventMsg_ok e"
  shows "read_message (GetMessage agentId (json_print (EventMsg_json e))) = Some (agentId, e)"
proof -
  let ?m = "\<lparr>Agentid = agentId, m_Data = b64_encode (json_print (EventMsg_json e))\<rparr>"
  have "Message_ok ?m" using assms(1) by (simp add: Message_ok_def b64_encode_utf8)
  then show ?thesis
    using message_struct.unmarshal_marshal[of ?m] event_struct.unmarshal_marshal[OF assms(2)]
    by (simp add: read_message_def GetMessage_def)
qed

text \<open>
  An attack message is refused exactly when its port is not a number, an empty port counting as
  0; otherwise a receiver that undoes the envelope gets the agent's id and an event with the
  type, the text, the address and the port that were passed in.
\<close>

theorem BuildAttackMsg_roundtrip:
  assumes "valid_utf8 agentId" "in_int64 eventType" "valid_utf8 msg" "valid_utf8 ip" "valid_utf8 (now w)"
    "ip \<noteq> []" "in_int64 port"
  shows "(BuildAttackMsg w addrs agentId eventType msg ip bad = None \<longleftrightarrow> bad \<noteq> [] \<and> Atoi bad = None) \<and>
    Option.bind (BuildAttackMsg w addrs agentId eventType msg ip (Itoa port)) read_message =
     Some (agentId, \<lparr>Eventtype = eventType, Msg = msg, Createtime = now w, Ip = ip, ev_Port = port, Rule = []\<rparr>)"
proof -
  have "Itoa port \<noteq> []" using Itoa_hd[of port] by auto
  moreover have "Atoi ''0'' = Some 0" by code_simp
  ultimately show ?thesis
    using assms by (auto simp: BuildAttackMsg_def Let_def Atoi_Itoa read_GetMessage EventMsg_ok_def split: option.splits)
qed

theorem BuildAttackMsg_roundtrip_witness:
  "(BuildAttackMsg blank_world None ''a'' 2 ''m'' ''1.2.3.4'' ''x'' = None \<longleftrightarrow> ''x'' \<noteq> [] \<and> Atoi ''x'' = None) \<and>
   Option.bind (BuildAttackMsg blank_world None ''a'' 2 ''m'' ''1.2.3.4'' (Itoa 22)) read_message =
     Some (''a'', \<lparr>Eventtype = 2, Msg = ''m'', Createtime = now blank_world, Ip = ''1.2.3.4'', ev_Port = 22, Rule = []\<rparr>)"
  by (rule BuildAttackMsg_roundtrip) (simp_all add: byte_of_def in_int64_def blank_world_def)

section \<open>Addresses\<close>

definition usable :: "addr \<Rightarrow> bool" where
  "usable a = (case a of IPNet _ loopback to4 \<Rightarrow> \<not> loopback \<and> to4 | OtherAddr \<Rightarrow> False)"

fun ip_of :: "addr \<Rightarrow> string" where
  "ip_of (IPNet ip _ _) = ip"
| "ip_of OtherAddr = []"

lemma addr_text_usable: "addr_text a = (if usable a then ip_of a @ '','' else [])"
  by (cases a) (auto simp: usable_def)

lemma concat_commas: "xs \<noteq> [] \<Longrightarrow> concat (map (\<lambda>x. x @ '','') xs) = Join xs '','' @ '',''"
  by (induction xs "'',''" rule: Join.induct) auto

lemma concat_addr_text: "concat (map addr_text ads) = concat (map (\<lambda>x. x @ '','') (map ip_of (filter usable ads)))"
  by (induction ads) (simp_all add: addr_text_usable)

lemma concat_addr_text_join:
  "concat (map addr_text ads) = (if filter usable ads = [] then [] else Join (map ip_of (filter usable ads)) '','' @ '','')"
  using concat_commas[of "map ip_of (filter usable ads)"] by (simp add: concat_addr_text del: map_map)

text \<open>
  \<^verbatim>\<open>GetIp\<close> returns the addresses of the interfaces that are IPv4 and not loopback, in the order
  of the interfaces and joined by commas, and an error exactly when there is none.
\<close>

theorem GetIp_spec:
  "GetIp (Some ads) =
     (if filter usable ads = [] then ([], False) else (Join (map ip_of (filter usable ads)) '','', True))"
  unfolding GetIp_def by (simp add: concat_addr_text_join)

section \<open>Subscriptions\<close>

fun message_of :: "'m receive \<Rightarrow> 'm option" where
  "message_of (RMessage m) = Some m"
| "message_of _ = None"

lemma listen_loop_messages: "listen_loop vs = (List.map_filter message_of vs, length (filter (\<lambda>v. v = RError) vs))"
  by (induction vs) (auto simp: map_filter_simps split: receive.splits)

text \<open>
  A listener that is subscribed forwards every published message to its channel once and in
  order, whatever errors come in between, and subscribes again after each error.
\<close>

theorem Listen_forwards_all:
  "Listen True vs = (True, List.map_filter message_of vs, Suc (length (filter (\<lambda>v. v = RError) vs)))"
  by (simp add: Listen_def listen_loop_messages)

section \<open>Archives\<close>

definition normal :: "string \<Rightarrow> bool" where
  "normal e = (e \<noteq> [] \<and> e \<noteq> ''.'' \<and> e \<noteq> ''..'' \<and> CHR ''/'' \<notin> set e)"

lemma clean_elems_normal: "list_all normal ds \<Longrightarrow> clean_elems r (ds @ es) acc = clean_elems r es (rev ds @ acc)"
  by (induction ds arbitrary: acc) (auto simp: normal_def)

lemma clean_elems_up:
  "list_all normal acc \<Longrightarrow> clean_elems r (replicate (length acc) ''..'' @ es) acc = clean_elems r es []"
  by (induction acc) (auto simp: normal_def)

lemma Join_Nil_iff: "Join xs ''/'' = [] \<longleftrightarrow> xs = [] \<or> xs = [[]]"
  by (cases "(xs, ''/'')" rule: Join.cases) auto

lemma Join_path_escapes:
  assumes "list_all normal ds" "list_all normal ts" "ds \<noteq> []" "ts \<noteq> []"
  shows "Join_path (''/'' @ Join ds ''/'') (Join (replicate (length ds) ''..'' @ ts) ''/'') = ''/'' @ Join ts ''/''"
proof -
  let ?up = "replicate (length ds) ''..'' @ ts"
  have ne: "?up \<noteq> []" "Join ?up ''/'' \<noteq> []" using assms(3,4) by (auto simp: Join_Nil_iff neq_Nil_conv)
  have j: "Join [''/'' @ Join ds ''/'', Join ?up ''/''] ''/'' = Join ([[]] @ ds @ ?up) ''/''"
    using assms(3,4) Join_append[OF assms(3) ne(1), of "''/''"] Join_append[of "[[]]" "ds @ ?up" "''/''"] by simp
  have "\<forall>e\<in>set ([[]] @ ds @ ?up). CHR ''/'' \<notin> set e"
    using assms(1,2) by (simp add: list_all_iff normal_def ball_Un)
  then have sp: "Split (Join ([[]] @ ds @ ?up) ''/'') ''/'' = [[]] @ ds @ ?up"
    by (intro Split_Join) simp_all
  have c: "clean_elems True ([[]] @ ds @ ?up) [] = ts"
    using clean_elems_normal[OF assms(1), of True ?up "[]"] clean_elems_up[of "rev ds" True ts] assms(1)
      clean_elems_normal[OF assms(2), of True "[]" "[]"] by (simp add: list_all_iff)
  have "HasPrefix (Join ([[]] @ ds @ ?up) ''/'') ''/''"
    using Join_append[of "[[]]" "ds @ ?up" "''/''"] assms(3) by (simp add: HasPrefix_def)
  then have "Clean (Join ([[]] @ ds @ ?up) ''/'') = ''/'' @ Join ts ''/''"
    by (simp add: Clean_def sp c Let_def del: append.simps)
  then show ?thesis using ne(2) j by (simp add: Join_path_def)
qed

text \<open>
  An archive whose name has neither of the two known endings is unpacked entry by entry, and the
  entry's name is not checked: from any destination directory, a name with as many parent
  steps as the directory is deep puts the entry's content into any file of the machine that
  the agent may write.
\<close>

theorem extract_entries_escapes:
  assumes "list_all normal ds" "list_all normal ts" "ds \<noteq> []" "ts \<noteq> []"
    "wr_denied w = (\<lambda>_. False)" "\<not> disk_full w" "z_IsDir f = False" "z_content f = Some bytes"
    "z_Name f = Join (replicate (length ds) ''..'' @ ts) ''/''"
  shows "files (snd (extract_entries (''/'' @ Join ds ''/'') [f] w)) (''/'' @ Join ts ''/'') = Some bytes"
proof -
  let ?p = "''/'' @ Join ts ''/''"
  have p: "Join_path (''/'' @ Join ds ''/'') (z_Name f) = ?p"
    unfolding assms(9) by (rule Join_path_escapes[OF assms(1-4)])
  obtain w1 where w1: "os_mkdir_all (Dir ?p) w = (None, w1)" "wr_denied w1 = (\<lambda>_. False)" "\<not> disk_full w1"
    using assms(5,6) by (cases "dirs w (dir_key w (Dir ?p))") (simp_all add: os_mkdir_all_def Let_def)
  have "abs_path w1 ?p = ?p" by (simp add: abs_path_def HasPrefix_def)
  then show ?thesis
    using w1 assms(7,8) p by (simp add: Let_def os_create_def os_write_def world_simps)
qed

theorem extract_entries_escapes_witness:
  "files (snd (extract_entries (''/'' @ Join [''agent'', ''pkg''] ''/'')
     [\<lparr>z_Name = Join (replicate (length [''agent'', ''pkg'']) ''..'' @ [''etc'', ''passwd'']) ''/'', z_IsDir = False,
       z_content = Some ''x''\<rparr>] blank_world)) (''/'' @ Join [''etc'', ''passwd''] ''/'') = Some ''x''"
  by (rule extract_entries_escapes) (simp_all add: normal_def blank_world_def)

end
