(* ===== verification/Bait.thy ===== *)
theory Bait
  imports Comm_Net
begin

text \<open>
  The bait module (\<^verbatim>\<open>agent/bait/bait.go\<close>): it receives policies, puts file baits in place by running
  a downloaded package, writes history baits into the shells' history files, and reports the
  outcome.  Parameters beside the shell and the zip decoder: \<open>yaml\<close>, the decoder of package
  \<^verbatim>\<open>gopkg.in/yaml.v2\<close>, which returns the policy it filled and whether it succeeded.  The handlers
  return the new world; none of them can panic.
\<close>

definition PkgPath :: "world \<Rightarrow> string" where
  "PkgPath w = cwd w @ ''/bait/pkg/''"

definition SubChannel :: string where
  "SubChannel = ''deception-strategy-sub-channel''"

definition PubChannel :: string where
  "PubChannel = ''deception-strategy-pub-channel''"

section \<open>History baits\<close>

definition rndline :: "world \<Rightarrow> string list \<Rightarrow> nat" where
  "rndline w l = intn w (length l)"

fun contains :: "string list \<Rightarrow> string \<Rightarrow> bool" where
  "contains [] b = False"
| "contains (a # s) b = (if a = b then True else contains s b)"

fun linefinder_from :: "nat \<Rightarrow> nat \<Rightarrow> string list \<Rightarrow> string \<Rightarrow> nat" where
  "linefinder_from i linenum [] k = linenum"
| "linefinder_from i linenum (x # l) k = linefinder_from (i + 1) (if x = k then i else linenum) l k"

definition linefinder :: "string list \<Rightarrow> string \<Rightarrow> nat" where
  "linefinder l k = linefinder_from 0 0 l k + 1"

text \<open>\<^verbatim>\<open>ioutil.WriteFile\<close>: the file is created or cut, then written.\<close>

definition WriteFile :: "string \<Rightarrow> string \<Rightarrow> world \<Rightarrow> world" where
  "WriteFile fp s w =
     (case os_create fp w of (Some e, w1) \<Rightarrow> w1 | (None, w1) \<Rightarrow> snd (os_write fp s w1))"

definition insertBaits :: "string \<Rightarrow> string \<Rightarrow> string \<Rightarrow> string \<Rightarrow> world \<Rightarrow> world" where
  "insertBaits ht fp hb rnd w =
     (case (if stat_ok w fp then (None, w) else os_create fp w) of
        (Some err, w1) \<Rightarrow> w1
      | (None, w1) \<Rightarrow>
          (case os_open_read w1 fp of
             Inl err \<Rightarrow> w1
           | Inr fi \<Rightarrow>
               (let lines = Split fi [CHR 0x0A]; hb_lines = Split hb [CHR 0x0A] in
                if \<not> contains lines (hd hb_lines) then
                  (let lines' = (if rnd = ''yes'' then (let rl = rndline w1 lines in take rl lines @ hb # drop rl lines)
                                 else if rnd = ''no'' then lines @ [hb] else lines)
                   in WriteFile fp (Join lines' [CHR 0x0A]) w1)
                else w1)))"

definition honeybit_text :: "HisBaitItem \<Rightarrow> string list" where
  "honeybit_text i =
     (if Htype i = ''ssh'' then [''ssh -p '' @ Port i @ '' '' @ User i @ ''@'' @ Addr i]
      else if Htype i = ''sshpass'' then
        [''sshpass -p '' @ [CHR 0x27] @ Pass i @ [CHR 0x27] @ '' ssh -p '' @ Port i @ '' '' @ User i @ ''@'' @ Addr i]
      else if Htype i = ''wget'' then [''wget '' @ Url i]
      else if Htype i = ''ftp'' then [''ftp ftp://'' @ User i @ '':'' @ Pass i @ ''@'' @ Addr i @ '':'' @ Port i]
      else if Htype i = ''rsync'' then
        [''rsync -avz -e '' @ [CHR 0x27] @ ''ssh -p '' @ Port i @ [CHR 0x27] @ '' '' @ User i @ ''@'' @ Addr i @ '':'' @
         RemotePath i @ '' '' @ LocalPath i]
      else if Htype i = ''rsyncpass'' then
        [''rsync -rsh='' @ [CHR 0x22] @ ''sshpass -p '' @ [CHR 0x27] @ Pass i @ [CHR 0x27] @ '' ssh -l '' @ User i @ '' -p '' @
         Port i @ [CHR 0x22] @ '' '' @ Addr i @ '':'' @ RemotePath i @ '' '' @ LocalPath i]
      else if Htype i = ''scp'' then
        [''scp -P '' @ Port i @ '' '' @ User i @ ''@'' @ Addr i @ '':'' @ RemotePath i @ '' '' @ LocalPath i]
      else if Htype i = ''mysql'' then
        [''mysql -h '' @ Addr i @ '' -P '' @ Port i @ '' -u '' @ User i @ '' -p'' @ Pass i @ '' -e '' @ [CHR 0x22] @
         Command i @ [CHR 0x22]]
      else if Htype i = ''mysqldb'' then
        [''mysql -h '' @ Addr i @ '' -u '' @ User i @ '' -p'' @ Pass i @ '' -D '' @ DbName i @ '' -e '' @ [CHR 0x22] @
         Command i @ [CHR 0x22]]
      else if Htype i = ''alibaba'' then
        [''export ALIBABA_ACCESS_KEY_ID='' @ Accesskeyid i @ [CHR 0x0A] @ ''export ALIBABA_ACCESS_KEY_SECRET='' @
         Secretaccesskey i @ [CHR 0x0A] @ ''export ALIBABA_REGION_ID='' @ RegionId i @ [CHR 0x0A]]
      else Split (Command i) '','')"

definition honeybit_creator :: "HisBaitItem \<Rightarrow> string \<Rightarrow> string \<Rightarrow> world \<Rightarrow> world" where
  "honeybit_creator hisBaitItem hpath rnd w =
     fold (\<lambda>honeybit. insertBaits (Htype hisBaitItem) hpath honeybit rnd) (honeybit_text hisBaitItem) w"

definition place_baits :: "HisBaitPolicy \<Rightarrow> HisBaitItem \<Rightarrow> world \<Rightarrow> world" where
  "place_baits policy item w =
     (if \<not> h_Enabled item then w
      else fold (\<lambda>value w. if stat_ok w value then honeybit_creator item value (RandomLine policy) w else w)
             (Split (BashHistoryPath policy) '','') w)"

definition handleHistBaitAndCallBack :: "BasePolicy \<Rightarrow> HisBaitPolicy \<Rightarrow> world \<Rightarrow> world" where
  "handleHistBaitAndCallBack basePolicy hisBaitPolicy w =
     (if \<not> Enabled hisBaitPolicy then w
      else let w1 = fold (place_baits hisBaitPolicy) (Honeybits hisBaitPolicy) w;
               result = json_print (BasePolicy_json (basePolicy\<lparr>Status := 1, Data := []\<rparr>))
           in PublishMsg PubChannel (b64_encode result) w1)"

section \<open>File baits\<close>

definition callBackForResult :: "FileBaitPolicy \<Rightarrow> world \<Rightarrow> world" where
  "callBackForResult fileBaitPolicy w =
     PublishMsg PubChannel (b64_encode (json_print (FileBaitPolicy_json fileBaitPolicy))) w"

definition set_status :: "int \<Rightarrow> FileBaitPolicy \<Rightarrow> FileBaitPolicy" where
  "set_status s p = p\<lparr>fb_base := (fb_base p)\<lparr>Status := s\<rparr>\<rparr>"

definition handleBaitAndCallback :: "shell \<Rightarrow> (string \<Rightarrow> zip_entry list option) \<Rightarrow> FileBaitPolicy \<Rightarrow> world \<Rightarrow> world" where
  "handleBaitAndCallback sh unz p w =
     (let zipPath = PkgPath w @ TaskId (fb_base p) @ ''.tar.gz'';
          (urlByte, _) = b64_decode (Data (fb_base p));
          (success, w1) = HttpDownload urlByte zipPath w
      in if \<not> success then callBackForResult (set_status (-1) p) w1
         else if MD5 w1 zipPath \<noteq> Md5 p then callBackForResult (set_status (-1) p) w1
         else let dir = PkgPath w @ TaskId (fb_base p) @ ''/'' in
              case Unzip sh unz zipPath dir w1 of
                (Some err, w2) \<Rightarrow> callBackForResult (set_status (-1) p) w2
              | (None, w2) \<Rightarrow>
                  (case ExecFileForEcho sh (dir @ ''install.sh'') w2 of
                     ((echoVar, False), w3) \<Rightarrow> callBackForResult (set_status (-1) p) w3
                   | ((echoVar, True), w3) \<Rightarrow>
                       callBackForResult (set_status (if echoVar = ''1'' then 1 else -1) p) w3))"

section \<open>The message loop\<close>

definition file_bait_types :: "string list" where
  "file_bait_types = [''Bait_FILE'', ''Bait_UN_FILE'', ''Bait_UN_HIS'', ''Sign_FILE'', ''Sign_UN_FILE'']"

text \<open>One turn of the loop of \<^verbatim>\<open>main\<close>, for the message \<open>strData\<close>.\<close>

definition bait_message ::
  "shell \<Rightarrow> (string \<Rightarrow> zip_entry list option) \<Rightarrow> (string \<Rightarrow> HisBaitPolicy \<times> bool) \<Rightarrow> string \<Rightarrow> world \<Rightarrow> world" where
  "bait_message sh unz yaml strData w =
     (case b64_decode strData of
        (_, False) \<Rightarrow> w
      | (data, True) \<Rightarrow>
          (let baitPolicy = fst (unmarshal (dec_struct BasePolicy_fields) data BasePolicy_zero) in
           if QueryEngineId w = AgentId baitPolicy then
             (if Type baitPolicy \<in> set file_bait_types then
                handleBaitAndCallback sh unz (fst (unmarshal (dec_struct FileBaitPolicy_fields) data FileBaitPolicy_zero)) w
              else if Type baitPolicy = ''Bait_HIS'' then
                handleHistBaitAndCallBack baitPolicy (fst (yaml (fst (b64_decode (Data baitPolicy))))) w
              else w)
           else w))"

section \<open>Inserting a bait into a history file\<close>

lemma contains_iff [simp]: "contains s b \<longleftrightarrow> b \<in> set s"
  by (induction s) auto

text \<open>A file the module can read and rewrite.\<close>

definition editable :: "world \<Rightarrow> string \<Rightarrow> string \<Rightarrow> bool" where
  "editable w fp content = (files w (abs_path w fp) = Some content \<and> \<not> rd_denied w (abs_path w fp) \<and>
     \<not> wr_denied w (abs_path w fp) \<and> \<not> disk_full w)"

lemma WriteFile_editable: "editable w fp c \<Longrightarrow> WriteFile fp s w = set_file fp (Some s) w"
  by (simp add: editable_def WriteFile_def os_create_def os_write_def world_simps)

lemma editable_set_file: "editable w fp c \<Longrightarrow> editable (set_file fp (Some s) w) fp s"
  by (simp add: editable_def world_simps)

definition new_lines :: "world \<Rightarrow> string \<Rightarrow> string \<Rightarrow> string list \<Rightarrow> string list" where
  "new_lines w hb rnd lines =
     (if rnd = ''yes'' then (let rl = intn w (length lines) in take rl lines @ hb # drop rl lines)
      else if rnd = ''no'' then lines @ [hb] else lines)"

lemma insertBaits_editable:
  assumes "editable w fp content"
  shows "insertBaits ht fp hb rnd w =
    (if hd (Split hb [CHR 0x0A]) \<in> set (Split content [CHR 0x0A]) then w
     else set_file fp (Some (Join (new_lines w hb rnd (Split content [CHR 0x0A])) [CHR 0x0A])) w)"
  using assms WriteFile_editable[OF assms]
  by (simp add: insertBaits_def stat_ok_def os_open_read_def editable_def new_lines_def rndline_def Let_def)

lemma Split_append_sep: "Split (a @ [c] @ s) [c] = Split a [c] @ Split s [c]"
proof -
  let ?xs = "Split a [c]" and ?ys = "Split s [c]"
  have ne: "?xs \<noteq> []" "?ys \<noteq> []" by (simp_all add: Split_not_Nil)
  have "a @ [c] @ s = Join (?xs @ ?ys) [c]"
    unfolding Join_append[OF ne] by (simp only: Join_Split)
  moreover have "\<forall>x\<in>set (?xs @ ?ys). c \<notin> set x" using Split_pieces_no_sep by auto
  ultimately show ?thesis using Split_Join[of "?xs @ ?ys" c] ne by simp
qed

lemma Split_Join_lines: "xs \<noteq> [] \<Longrightarrow> Split (Join xs [c]) [c] = concat (map (\<lambda>x. Split x [c]) xs)"
  by (induction xs "[c]" rule: Join.induct) (simp_all add: Split_append_sep[simplified])

lemma lines_flat: "concat (map (\<lambda>x. Split x [c]) (Split s [c])) = Split s [c]"
  using Split_Join_lines[of "Split s [c]" c] by (simp add: Join_Split Split_not_Nil)

lemma lines_flat_take_drop:
  "concat (map (\<lambda>x. Split x [c]) (take k (Split s [c]))) = take k (Split s [c])"
  "concat (map (\<lambda>x. Split x [c]) (drop k (Split s [c]))) = drop k (Split s [c])"
proof -
  have "x \<in> set (Split s [c]) \<Longrightarrow> Split x [c] = [x]" for x
    using Split_pieces_no_sep[of x s c] by (simp add: Split_no_sep)
  then have flat: "set ys \<subseteq> set (Split s [c]) \<Longrightarrow> concat (map (\<lambda>x. Split x [c]) ys) = ys" for ys
    by (induction ys) auto
  show "concat (map (\<lambda>x. Split x [c]) (take k (Split s [c]))) = take k (Split s [c])"
    by (rule flat[OF set_take_subset])
  show "concat (map (\<lambda>x. Split x [c]) (drop k (Split s [c]))) = drop k (Split s [c])"
    by (rule flat[OF set_drop_subset])
qed

lemma new_lines_split:
  assumes "rnd = ''yes'' \<or> rnd = ''no''"
  shows "\<exists>k. Split (Join (new_lines w hb rnd (Split content [CHR 0x0A])) [CHR 0x0A]) [CHR 0x0A] =
     take k (Split content [CHR 0x0A]) @ Split hb [CHR 0x0A] @ drop k (Split content [CHR 0x0A])"
proof -
  let ?ls = "Split content [CHR 0x0A]"
  define k where "k = (if rnd = ''yes'' then intn w (length ?ls) else length ?ls)"
  have "new_lines w hb rnd ?ls = take k ?ls @ hb # drop k ?ls"
    using assms by (auto simp: new_lines_def k_def Let_def)
  then show ?thesis
    by (intro exI[of _ k]) (simp add: Split_Join_lines lines_flat_take_drop)
qed

text \<open>
  C14. Inserting a history bait keeps the user's history: in an editable file that does not have the
  bait's first line yet, the bait's lines end up consecutively between the old lines, which all
  stay in order; nothing else on the machine changes.
\<close>

theorem insertBaits_keeps_history:
  assumes "editable w fp content" "rnd = ''yes'' \<or> rnd = ''no''"
    "hd (Split hb [CHR 0x0A]) \<notin> set (Split content [CHR 0x0A])"
  shows "\<exists>k s. insertBaits ht fp hb rnd w = set_file fp (Some s) w \<and>
     Split s [CHR 0x0A] = take k (Split content [CHR 0x0A]) @ Split hb [CHR 0x0A] @ drop k (Split content [CHR 0x0A])"
  using insertBaits_editable[OF assms(1), of ht hb rnd] new_lines_split[OF assms(2), of w hb content] assms(3) by (metis)

lemma bash_history_editable: "editable (set_file ''/root/.bash_history'' (Some ''ls'') blank_world) ''/root/.bash_history'' ''ls''"
  by (simp add: editable_def world_simps blank_world_def)

lemma split_no_newline: "Split ''ls'' [CHR 0x0A] = [''ls'']" "Split ''ssh x'' [CHR 0x0A] = [''ssh x'']"
  by (simp_all add: Split_no_sep)

theorem insertBaits_keeps_history_witness:
  "\<exists>k s. insertBaits ''ssh'' ''/root/.bash_history'' ''ssh x'' ''no'' (set_file ''/root/.bash_history'' (Some ''ls'') blank_world) =
       set_file ''/root/.bash_history'' (Some s) (set_file ''/root/.bash_history'' (Some ''ls'') blank_world) \<and>
     Split s [CHR 0x0A] = take k (Split ''ls'' [CHR 0x0A]) @ Split ''ssh x'' [CHR 0x0A] @ drop k (Split ''ls'' [CHR 0x0A])"
  by (rule insertBaits_keeps_history[OF bash_history_editable]) (simp_all add: split_no_newline)

text \<open>
  Sending the same history bait again changes nothing: a second insertion leaves the machine as
  the first one did, for both ways of choosing the place.
\<close>

theorem insertBaits_idempotent:
  assumes "editable w fp content" "rnd = ''yes'' \<or> rnd = ''no''"
  shows "insertBaits ht' fp hb rnd' (insertBaits ht fp hb rnd w) = insertBaits ht fp hb rnd w"
proof (cases "hd (Split hb [CHR 0x0A]) \<in> set (Split content [CHR 0x0A])")
  case True
  then show ?thesis using assms(1) by (simp add: insertBaits_editable)
next
  case False
  let ?s = "Join (new_lines w hb rnd (Split content [CHR 0x0A])) [CHR 0x0A]"
  have "insertBaits ht fp hb rnd w = set_file fp (Some ?s) w"
    using False insertBaits_editable[OF assms(1)] by simp
  moreover have "hd (Split hb [CHR 0x0A]) \<in> set (Split ?s [CHR 0x0A])"
    using new_lines_split[OF assms(2), of w hb content] hd_in_set[OF Split_not_Nil] by fastforce
  ultimately show ?thesis using insertBaits_editable[OF editable_set_file[OF assms(1), of ?s]] by simp
qed

theorem insertBaits_idempotent_witness:
  "insertBaits ''a'' ''/root/.bash_history'' ''ssh x'' ''yes''
     (insertBaits ''b'' ''/root/.bash_history'' ''ssh x'' ''no'' (set_file ''/root/.bash_history'' (Some ''ls'') blank_world)) =
   insertBaits ''b'' ''/root/.bash_history'' ''ssh x'' ''no'' (set_file ''/root/.bash_history'' (Some ''ls'') blank_world)"
  by (rule insertBaits_idempotent[OF bash_history_editable]) simp

section \<open>File baits\<close>

text \<open>The commands do not use the agent's connection to redis.\<close>

definition sh_quiet :: "shell \<Rightarrow> bool" where
  "sh_quiet sh = (\<forall>prog dir cmd w. published (snd (sh prog dir cmd w)) = published w \<and>
                                   redis_up (snd (sh prog dir cmd w)) = redis_up w)"

definition quiet :: "world \<Rightarrow> world \<Rightarrow> bool" where
  "quiet w w' = (published w' = published w \<and> redis_up w' = redis_up w)"

lemma quiet_refl [simp]: "quiet w w" and quiet_trans: "quiet w w' \<Longrightarrow> quiet w' w'' \<Longrightarrow> quiet w w''"
  by (simp_all add: quiet_def)

lemma sh_quiet_simps:
  "sh_quiet sh \<Longrightarrow> published (snd (sh prog dir cmd w)) = published w"
  "sh_quiet sh \<Longrightarrow> redis_up (snd (sh prog dir cmd w)) = redis_up w"
  by (simp_all add: sh_quiet_def)

lemma quiet_os:
  "os_create p w = (e, w') \<Longrightarrow> quiet w w'" "os_write p s w = (e, w') \<Longrightarrow> quiet w w'"
  "os_mkdir_all p w = (e, w') \<Longrightarrow> quiet w w'"
  by (auto simp: os_create_def os_write_def os_mkdir_all_def quiet_def world_simps Let_def split: if_splits)

lemma quiet_download: "HttpDownload url f w = (b, w') \<Longrightarrow> quiet w w'"
  by (auto simp: HttpDownload_def split: option.splits prod.splits dest!: quiet_os intro: quiet_trans)

text \<open>The package of a bait is always named \<^verbatim>\<open>.tar.gz\<close>.\<close>

lemma Unzip_targz:
  assumes "sh_quiet sh" "Unzip sh unz (z @ ''.tar.gz'') d w = (e, w')"
  shows "quiet w w' \<and> (e \<noteq> None \<longrightarrow> os_mkdir_all d w = (e, w'))"
proof -
  have tar: "Contains (z @ ''.tar.gz'') ''.tar.gz''" using Contains_iff by fastforce
  show ?thesis
    using assms(2) tar sh_quiet_simps[OF assms(1)] quiet_os(3)[of d w]
    by (auto simp: Unzip_def Let_def quiet_def split: if_splits prod.splits option.splits)
qed

lemma ExecFileForEcho_quiet: "sh_quiet sh \<Longrightarrow> ExecFileForEcho sh f w = (r, w') \<Longrightarrow> quiet w w'"
  using sh_quiet_simps[of sh "''/bin/bash''" "cwd w" f w]
  by (auto simp: ExecFileForEcho_def quiet_def split: prod.splits option.splits)

lemma callBack_published:
  "quiet w w' \<Longrightarrow> redis_up w \<Longrightarrow>
   published (callBackForResult q w') = published w @ [(PubChannel, b64_encode (json_print (FileBaitPolicy_json q)))]"
  by (simp add: quiet_def callBackForResult_def PublishMsg_def)

lemma HttpDownload_True:
  "HttpDownload url f w = (True, w') \<longleftrightarrow>
   (\<exists>body. http_body w url = Some body \<and> \<not> wr_denied w (abs_path w f) \<and> \<not> disk_full w \<and> w' = set_file f (Some body) w)"
  by (auto simp: HttpDownload_def os_create_def os_write_def world_simps split: option.splits)

lemma MD5_slash:
  "CHR ''/'' \<in> set f \<Longrightarrow> MD5 w f = (case os_open_read w f of Inl _ \<Rightarrow> [] | Inr content \<Rightarrow> md5_hex content)"
  using Contains_char[of f "CHR ''/''"] by (simp add: MD5_def Contains_def)

lemma MD5_downloaded:
  assumes "HttpDownload url f w = (True, w')" "CHR ''/'' \<in> set f" "MD5 w' f \<noteq> []"
  shows "\<exists>body. http_body w url = Some body \<and> MD5 w' f = md5_hex body"
  using assms by (auto simp: HttpDownload_True MD5_slash os_open_read_def world_simps split: if_splits)

definition bait_zip :: "FileBaitPolicy \<Rightarrow> world \<Rightarrow> string" where
  "bait_zip p w = PkgPath w @ TaskId (fb_base p) @ ''.tar.gz''"

lemma bait_zip_slash: "CHR ''/'' \<in> set (bait_zip p w)"
  by (simp add: bait_zip_def PkgPath_def)

definition bait_url :: "FileBaitPolicy \<Rightarrow> string" where
  "bait_url p = fst (b64_decode (Data (fb_base p)))"

text \<open>
  C13. Every file bait is answered exactly once on the result channel, with status 1 or -1 and the
  policy otherwise unchanged, and status 1 only for a package whose MD5 is the policy's.
\<close>

theorem handleBaitAndCallback_reports_once:
  assumes "sh_quiet sh" "redis_up w" "Md5 p \<noteq> []"
  shows "\<exists>s. published (handleBaitAndCallback sh unz p w) =
               published w @ [(PubChannel, b64_encode (json_print (FileBaitPolicy_json (set_status s p))))] \<and>
             (s = 1 \<or> s = -1) \<and>
             (s = 1 \<longrightarrow> (\<exists>body. http_body w (bait_url p) = Some body \<and> md5_hex body = Md5 p))"
proof -
  let ?z = "bait_zip p w" and ?d = "PkgPath w @ TaskId (fb_base p) @ ''/''"
  obtain ok w1 where w1: "HttpDownload (bait_url p) ?z w = (ok, w1)" by fastforce
  obtain e w2 where w2: "Unzip sh unz ?z ?d w1 = (e, w2)" by fastforce
  obtain echo ok3 w3 where w3: "ExecFileForEcho sh (?d @ ''install.sh'') w2 = ((echo, ok3), w3)"
    by (metis surj_pair)
  have q1: "quiet w w1" using quiet_download[OF w1] .
  have q2: "quiet w w2"
    using Unzip_targz[OF assms(1), of unz "PkgPath w @ TaskId (fb_base p)" ?d w1 e w2] w2 q1 quiet_trans
    by (simp add: bait_zip_def)
  have q3: "quiet w w3" using ExecFileForEcho_quiet[OF assms(1) w3] q2 quiet_trans by blast
  have body: "ok \<Longrightarrow> MD5 w1 ?z = Md5 p \<Longrightarrow> \<exists>body. http_body w (bait_url p) = Some body \<and> md5_hex body = Md5 p"
    using MD5_downloaded[of "bait_url p" ?z w w1] w1 bait_zip_slash assms(3) by auto
  have eq: "handleBaitAndCallback sh unz p w =
    (if \<not> ok \<or> MD5 w1 ?z \<noteq> Md5 p then callBackForResult (set_status (-1) p) w1
     else if e \<noteq> None then callBackForResult (set_status (-1) p) w2
     else callBackForResult (set_status (if ok3 \<and> echo = ''1'' then 1 else -1) p) w3)"
    using w1 w2 w3 unfolding handleBaitAndCallback_def bait_zip_def bait_url_def
    by (cases "b64_decode (Data (fb_base p))"; cases e; cases ok3) (simp_all add: Let_def del: append.simps append_assoc)
  show ?thesis
    unfolding eq using body callBack_published[OF q1 assms(2)] callBack_published[OF q2 assms(2)]
      callBack_published[OF q3 assms(2)] by auto
qed

theorem handleBaitAndCallback_reports_once_witness:
  "\<exists>s. published (handleBaitAndCallback (\<lambda>_ _ _ w. (Some ''1'', w)) (\<lambda>_. None) (FileBaitPolicy_zero\<lparr>Md5 := ''x''\<rparr>) blank_world) =
         published blank_world @
           [(PubChannel, b64_encode (json_print (FileBaitPolicy_json (set_status s (FileBaitPolicy_zero\<lparr>Md5 := ''x''\<rparr>)))))] \<and>
       (s = 1 \<or> s = -1) \<and>
       (s = 1 \<longrightarrow> (\<exists>body. http_body blank_world (bait_url (FileBaitPolicy_zero\<lparr>Md5 := ''x''\<rparr>)) = Some body \<and>
                          md5_hex body = Md5 (FileBaitPolicy_zero\<lparr>Md5 := ''x''\<rparr>)))"
  by (rule handleBaitAndCallback_reports_once) (simp_all add: sh_quiet_def blank_world_def)

text \<open>
  C3. A package that is not the announced one is never unpacked or run: when the download's MD5
  differs from the policy's, the handler stores the file, reports -1 and stops, and no command
  is executed, whatever the shell would have done.
\<close>

theorem tampered_package_never_runs:
  assumes "http_body w (bait_url p) = Some body" "md5_hex body \<noteq> Md5 p" "Md5 p \<noteq> []"
  shows "handleBaitAndCallback sh unz p w =
    callBackForResult (set_status (-1) p) (snd (HttpDownload (bait_url p) (bait_zip p w) w))"
proof -
  obtain ok w1 where w1: "HttpDownload (bait_url p) (bait_zip p w) w = (ok, w1)" by fastforce
  have "ok \<Longrightarrow> MD5 w1 (bait_zip p w) \<noteq> Md5 p"
    using MD5_downloaded[of "bait_url p" "bait_zip p w" w w1] w1 bait_zip_slash assms by fastforce
  then show ?thesis
    using w1 unfolding handleBaitAndCallback_def bait_zip_def bait_url_def
    by (cases "b64_decode (Data (fb_base p))") (simp add: Let_def del: append.simps append_assoc)
qed

lemma md5_short: "length m < 32 \<Longrightarrow> md5_hex body \<noteq> m"
  using length_md5_hex[of body] by auto

theorem tampered_package_never_runs_witness:
  "handleBaitAndCallback (\<lambda>_ _ _ w. (Some ''1'', w)) (\<lambda>_. None) (FileBaitPolicy_zero\<lparr>Md5 := ''x''\<rparr>)
     (blank_world\<lparr>http_body := \<lambda>_. Some ''evil''\<rparr>) =
   callBackForResult (set_status (-1) (FileBaitPolicy_zero\<lparr>Md5 := ''x''\<rparr>))
     (snd (HttpDownload (bait_url (FileBaitPolicy_zero\<lparr>Md5 := ''x''\<rparr>))
        (bait_zip (FileBaitPolicy_zero\<lparr>Md5 := ''x''\<rparr>) (blank_world\<lparr>http_body := \<lambda>_. Some ''evil''\<rparr>))
        (blank_world\<lparr>http_body := \<lambda>_. Some ''evil''\<rparr>)))"
  by (rule tampered_package_never_runs[where body = "''evil''"]) (simp_all add: md5_short)

end
