(* ===== verification/Proxy.thy ===== *)
theory Proxy
  imports Comm_Net
begin

text \<open>
  The proxy manager (\<^verbatim>\<open>agent/proxy/proxy.go\<close>): it receives strategies, starts and stops the proxy
  processes, keeps the proxy table, and reports.  The manager's global \<^verbatim>\<open>AgentConf\<close> is the argument
  \<open>conf\<close>; a panic is \<^const>\<open>None\<close> (\<^verbatim>\<open>main\<close> recovers from it only to return).
\<close>

definition Proxy :: string where
  "Proxy = ''/proxy/tcpProxy''"

definition ProxySubChannel :: string where
  "ProxySubChannel = ''proxy-strategy-sub-channel''"

definition ProxyPubChannel :: string where
  "ProxyPubChannel = ''proxy-strategy-pub-channel''"

section \<open>Selecting the honeypot\<close>

fun first_connected :: "world \<Rightarrow> string list \<Rightarrow> string option" where
  "first_connected w [] = None"
| "first_connected w (ip # ips) = (if IsIpConnect w ip then Some ip else first_connected w ips)"

definition ipSelect :: "AgentConf \<Rightarrow> world \<Rightarrow> ProxyStrategy \<Rightarrow> string" where
  "ipSelect conf w p =
     (if HoneyPublicIp conf \<noteq> [] \<and> IsIpConnect w (HoneyPublicIp conf) then HoneyPublicIp conf
      else if Index (HoneyIP p) '','' > -1 then
        (case first_connected w (Split (HoneyIP p) '','') of Some ip \<Rightarrow> ip | None \<Rightarrow> HoneyIP p)
      else if IsIpConnect w (HoneyIP p) then HoneyIP p
      else HoneyIP p)"

text \<open>The address that is used: \<^verbatim>\<open>ipSelect\<close>, and the first of a list that is left.\<close>

definition honey_ip :: "AgentConf \<Rightarrow> world \<Rightarrow> ProxyStrategy \<Rightarrow> string" where
  "honey_ip conf w p =
     (let ip = ipSelect conf w p in if Index ip '','' > -1 then hd (Split ip '','') else ip)"

definition checkProxyStrategy :: "world \<Rightarrow> ProxyStrategy \<Rightarrow> bool" where
  "checkProxyStrategy w p =
     (if Type (px_base p) = ''EDGE'' \<or> Type (px_base p) = ''RELAY'' then \<not> CheckPort w (Itoa (ListenPort p)) else True)"

section \<open>Handling a strategy\<close>

definition proxy_key :: "ProxyStrategy \<Rightarrow> string" where
  "proxy_key p = ServerType p @ ''-'' @ Itoa (ListenPort p)"

definition with_status :: "int \<Rightarrow> ProxyStrategy \<Rightarrow> ProxyStrategy" where
  "with_status s p = p\<lparr>px_base := (px_base p)\<lparr>Status := s\<rparr>\<rparr>"

definition report :: "ProxyStrategy \<Rightarrow> world \<Rightarrow> world" where
  "report p w = PublishMsg ProxyPubChannel (b64_encode (json_print (ProxyStrategy_json p))) w"

definition kill_entry :: "string \<Rightarrow> Pid gomap \<Rightarrow> go_error option go" where
  "kill_entry key processTable w =
     (case mget processTable key of None \<Rightarrow> Some (None, w) | Some queryPid \<Rightarrow> KillSelf queryPid w)"

text \<open>The branch for \<^verbatim>\<open>UN_EDGE\<close> and \<^verbatim>\<open>UN_RELAY\<close>.\<close>

definition undeploy :: "ProxyStrategy \<Rightarrow> Pid gomap \<Rightarrow> ProxyStrategy gomap \<Rightarrow> (ProxyStrategy \<times> ProxyStrategy gomap) go" where
  "undeploy p processTable proxyTable w = do {
     (err, w1) \<leftarrow> kill_entry (proxy_key p) processTable w;
     let p1 = (if err \<noteq> None then with_status (-1) p else p);
     Some ((with_status 1 p1, mdel (proxy_key p) proxyTable), w1)
   }"

definition start_cmd :: "world \<Rightarrow> ProxyStrategy \<Rightarrow> string \<times> string" where
  "start_cmd w p =
     (if Type (px_base p) = ''EDGE'' then (cwd w @ Proxy, [])
      else if Type (px_base p) = ''RELAY'' then
        (Path p @ '' -backend '' @ HoneyIP p @ '':'' @ Itoa (HoneyPort p) @ '' -bind :'' @ Itoa (ListenPort p) @
         '' -seccenter '' @ SecCenter p, ''bash'')
      else ([], []))"

text \<open>The branch that starts a proxy.\<close>

definition deploy :: "ProxyStrategy \<Rightarrow> ProxyStrategy gomap \<Rightarrow> (ProxyStrategy \<times> ProxyStrategy gomap) go" where
  "deploy p proxyTable w = do {
     let (startCmd, startMode) = start_cmd w p;
     ((started, err), w1) \<leftarrow> (if Type (px_base p) = ''RELAY'' \<and> \<not> Exists w (Path p)
                              then Some ((Pid_zero, Some (EOther ''file not exist'')), w)
                              else StartProject startCmd startMode (proxy_key p) w);
     let p1 = (if err \<noteq> None then with_status (-1) p else (with_status 1 p)\<lparr>px_Pid := p_Id started\<rparr>);
     proxyTable' \<leftarrow> mput (proxy_key p) p1 proxyTable;
     Some ((p1, proxyTable'), w1)
   }"

definition handleProxyAndCallback :: "AgentConf \<Rightarrow> ProxyStrategy \<Rightarrow> world \<Rightarrow> world option" where
  "handleProxyAndCallback conf p w = do {
     ((ok1, proxyTable), w1) \<leftarrow> ReadProxyTable w;
     ((ok2, processTable), w2) \<leftarrow> ReadProcessTable w1;
     if \<not> ok1 \<or> \<not> ok2 then Some w2
     else if \<not> checkProxyStrategy w2 p then Some (report (with_status (-1) p) w2)
     else do {
       let p1 = p\<lparr>HoneyIP := honey_ip conf w2 p\<rparr>;
       (_, w3) \<leftarrow> kill_entry (proxy_key p1) processTable w2;
       ((p2, proxyTable'), w4) \<leftarrow>
         (if Type (px_base p1) = ''UN_EDGE'' \<or> Type (px_base p1) = ''UN_RELAY'' then undeploy p1 processTable proxyTable w3
          else if Status (px_base p1) = 1 then deploy p1 proxyTable w3
          else Some ((p1, proxyTable), w3));
       let w5 = FlushData2File (enc_map ProxyStrategy_json proxyTable') (ProxyTablePath w4) w4;
       (_, w6) \<leftarrow> ReadProxyTable (report p2 w5);
       Some w6
     }
   }"

section \<open>Loops\<close>

text \<open>One round of \<^verbatim>\<open>zombieProcessClean\<close>; the loop over the table stops at the first error.\<close>

fun clean_zombies :: "(string \<times> ProxyStrategy) list \<Rightarrow> world \<Rightarrow> world" where
  "clean_zombies [] w = w"
| "clean_zombies ((_, p) # rest) w =
     (if IsZombie w (px_Pid p) then
        (case KillProcess (px_Pid p) w of
           (Some err, w1) \<Rightarrow> w1
         | (None, w1) \<Rightarrow> clean_zombies rest w1)
      else clean_zombies rest w)"

definition zombieProcessClean :: "world \<Rightarrow> world option" where
  "zombieProcessClean w = do {
     ((ok, proxyTable), w1) \<leftarrow> ReadProxyTable w;
     if \<not> ok then Some w1 else Some (clean_zombies (entries proxyTable) w1)
   }"

text \<open>One turn of the loop of \<^verbatim>\<open>main\<close>.\<close>

definition proxy_message :: "AgentConf \<Rightarrow> string \<Rightarrow> world \<Rightarrow> world option" where
  "proxy_message conf strData w =
     (case b64_decode strData of
        (_, False) \<Rightarrow> Some w
      | (data, True) \<Rightarrow>
          (let proxyStrategy = (fst (unmarshal (dec_struct ProxyStrategy_fields) data ProxyStrategy_zero))\<lparr>Date := now w\<rparr>
           in if QueryEngineId w = AgentId (px_base proxyStrategy) then handleProxyAndCallback conf proxyStrategy w
              else Some w))"

section \<open>The address a proxy forwards to\<close>

lemma first_connected_Some: "first_connected w ips = Some ip \<Longrightarrow> ip \<in> set ips \<and> IsIpConnect w ip"
  by (induction ips) (auto split: if_splits)

lemma first_connected_None: "first_connected w ips = None \<longleftrightarrow> (\<forall>ip\<in>set ips. \<not> IsIpConnect w ip)"
  by (induction ips) auto

lemma hd_Split_no_sep: "CHR '','' \<notin> set (hd (Split s '',''))"
  using Split_pieces_no_sep[of "hd (Split s '','')" s "CHR '',''"] Split_not_Nil by simp

lemma Index_comma: "Index s '','' > -1 \<longleftrightarrow> CHR '','' \<in> set s"
proof -
  have "Index s '','' > -1 \<longleftrightarrow> 0 \<le> Index s '',''" by linarith
  then show ?thesis using Contains_char[of s "CHR '',''"] by (simp add: Contains_def)
qed

lemma honey_ip_eq:
  assumes "CHR '','' \<notin> set (HoneyPublicIp conf)"
  shows "honey_ip conf w p =
    (if HoneyPublicIp conf \<noteq> [] \<and> IsIpConnect w (HoneyPublicIp conf) then HoneyPublicIp conf
     else case first_connected w (Split (HoneyIP p) '','') of Some ip \<Rightarrow> ip | None \<Rightarrow> hd (Split (HoneyIP p) '',''))"
proof (cases "first_connected w (Split (HoneyIP p) '','')")
  case None
  then show ?thesis using assms Split_no_sep[of "CHR '',''" "HoneyIP p"]
    by (auto simp: honey_ip_def ipSelect_def Let_def Index_comma)
next
  case (Some ip)
  moreover have "CHR '','' \<notin> set ip"
    using first_connected_Some[OF Some] Split_pieces_no_sep[of ip "HoneyIP p" "CHR '',''"] by blast
  ultimately show ?thesis using assms Split_no_sep[of "CHR '',''" "HoneyIP p"]
    by (auto simp: honey_ip_def ipSelect_def Let_def Index_comma split: if_splits)
qed

text \<open>
  The address a proxy forwards to is a single reachable address whenever one is configured: it
  contains no comma, it is the public address or one of the strategy's list, and if the public
  address or any address of the list answers then the chosen one answers.
\<close>

theorem honey_ip_reachable:
  assumes "CHR '','' \<notin> set (HoneyPublicIp conf)"
  shows "CHR '','' \<notin> set (honey_ip conf w p) \<and>
    (honey_ip conf w p = HoneyPublicIp conf \<or> honey_ip conf w p \<in> set (Split (HoneyIP p) '','')) \<and>
    ((HoneyPublicIp conf \<noteq> [] \<and> IsIpConnect w (HoneyPublicIp conf)) \<or>
     (\<exists>ip\<in>set (Split (HoneyIP p) '',''). IsIpConnect w ip) \<longrightarrow> IsIpConnect w (honey_ip conf w p))"
proof (cases "first_connected w (Split (HoneyIP p) '','')")
  case None
  have "hd (Split (HoneyIP p) '','') \<in> set (Split (HoneyIP p) '','')" by (simp add: Split_not_Nil)
  then show ?thesis
    using None first_connected_None[of w "Split (HoneyIP p) '',''"] hd_Split_no_sep[of "HoneyIP p"] assms
    by (simp add: honey_ip_eq)
next
  case (Some ip)
  then show ?thesis
    using first_connected_Some[OF Some] Split_pieces_no_sep[of ip "HoneyIP p" "CHR '',''"] assms
    by (simp add: honey_ip_eq)
qed

theorem honey_ip_reachable_witness:
  "let w = blank_world\<lparr>pingable := \<lambda>ip. ip = ''2.2.2.2''\<rparr>; p = ProxyStrategy_zero\<lparr>HoneyIP := ''1.1.1.1,2.2.2.2''\<rparr> in
   CHR '','' \<notin> set (honey_ip AgentConf_zero w p) \<and>
    (honey_ip AgentConf_zero w p = HoneyPublicIp AgentConf_zero \<or> honey_ip AgentConf_zero w p \<in> set (Split (HoneyIP p) '','')) \<and>
    ((HoneyPublicIp AgentConf_zero \<noteq> [] \<and> IsIpConnect w (HoneyPublicIp AgentConf_zero)) \<or>
     (\<exists>ip\<in>set (Split (HoneyIP p) '',''). IsIpConnect w ip) \<longrightarrow> IsIpConnect w (honey_ip AgentConf_zero w p))"
  unfolding Let_def by (rule honey_ip_reachable) (simp add: AgentConf_zero_def)

section \<open>The proxy table\<close>

definition proxy_path :: "world \<Rightarrow> string" where
  "proxy_path w = cwd w @ ''/proxy/proxy-table.json''"

definition proxies_ok :: "(string \<times> ProxyStrategy) list \<Rightarrow> bool" where
  "proxies_ok ps = (keys_distinct ps \<and> (\<forall>(k, p)\<in>set ps. valid_utf8 k \<and> ProxyStrategy_ok p))"

definition proxies_text :: "(string \<times> ProxyStrategy) list \<Rightarrow> string" where
  "proxies_text ps = json_print (enc_map ProxyStrategy_json (Some ps))"

text \<open>The proxy table file is accessible and denotes \<open>ps\<close>.\<close>

definition proxies_ready :: "world \<Rightarrow> (string \<times> ProxyStrategy) list \<Rightarrow> bool" where
  "proxies_ready w ps = (HasPrefix (cwd w) ''/'' \<and> files w (proxy_path w) = Some (proxies_text ps) \<and> proxies_ok ps \<and>
     \<not> rd_denied w (proxy_path w) \<and> \<not> wr_denied w (proxy_path w))"

lemma proxy_paths:
  assumes "HasPrefix (cwd w) ''/''"
  shows "abs_path w (ProxyTablePath w) = proxy_path w" "abs_path w ''proxy/proxy-table.json'' = proxy_path w"
    "table_path w = cwd w @ ''/conf/process-table.json''" "table_path w \<noteq> proxy_path w"
  using abs_path_cwd[OF assms, of "''proxy/proxy-table.json''"] abs_path_cwd[OF assms, of "''conf/process-table.json''"]
  by (simp_all add: ProxyTablePath_def proxy_path_def table_path_def ProcessTablePath_def)
     (simp_all add: abs_path_def HasPrefix_def)

lemma decode_proxies_text: "proxies_ok ps \<Longrightarrow> decode_proxies (proxies_text ps) = (Some (sort_key fst ps), True)"
  unfolding decode_proxies_def proxies_text_def by (rule proxy_struct.table_roundtrip) (auto simp: proxies_ok_def)

lemma ReadProxyTable_ready:
  "proxies_ready w ps \<Longrightarrow> length (proxies_text ps) \<le> 10000 \<Longrightarrow>
   ReadProxyTable w = Some ((True, Some (sort_key fst ps)), w)"
  using proxy_paths[of w]
  by (simp add: proxies_ready_def ReadProxyTable_def ensure_table_def Exists_def stat_ok_def os_open_read_def
      read_all_eq decode_proxies_text)

lemma proxies_ok_sort: "proxies_ok ps \<Longrightarrow> proxies_ok (sort_key fst ps) \<and> map_of (sort_key fst ps) = map_of ps"
  by (auto simp: proxies_ok_def map_of_sort_key) (metis mset_map mset_sort mset_eq_imp_distinct_iff)

lemma proxies_ok_update:
  "proxies_ok ps \<Longrightarrow> valid_utf8 k \<Longrightarrow> ProxyStrategy_ok p \<Longrightarrow> proxies_ok (AList.update k p ps)"
  using set_update_sub[of k p ps] by (auto simp: proxies_ok_def keys_distinct_update)

lemma proxies_ok_delete: "proxies_ok ps \<Longrightarrow> proxies_ok (AList.delete k ps)"
  using set_delete_sub[of k ps] by (auto simp: proxies_ok_def keys_distinct_delete)

lemma proxies_ready_frame: "frame w w' \<Longrightarrow> proxies_ready w ps \<Longrightarrow> proxies_ready w' ps"
  using proxy_paths(4)[of w] by (auto simp: frame_def proxies_ready_def proxy_path_def)

lemma kill_entry_ready:
  assumes "table_ready w xs" "length (table_text xs) \<le> 10000"
  shows "\<exists>e w' ys. kill_entry key (Some (sort_key fst xs)) w = Some (e, w') \<and> same_env w w' \<and> frame w w' \<and>
           table_ready w' ys \<and> length (table_text ys) \<le> length (table_text xs)"
proof (cases "map_of xs key")
  case None
  then show ?thesis using assms by (auto simp: kill_entry_def map_of_sort_table table_ready_def)
next
  case (Some q)
  then have "kill_entry key (Some (sort_key fst xs)) w = KillSelf q w"
    using assms by (simp add: kill_entry_def map_of_sort_table table_ready_def)
  then show ?thesis using KillSelf_ready[OF assms, of q] frame_KillSelf by metis
qed

lemma kill_entry_twice:
  assumes "table_ready w xs" "length (table_text xs) \<le> 10000" "map_of xs key = Some q" "0 < p_Id q"
  shows "\<exists>w1 w2 ys. kill_entry key (Some (sort_key fst xs)) w = Some (None, w1) \<and>
           kill_entry key (Some (sort_key fst xs)) w1 = Some (None, w2) \<and> frame w w2 \<and> table_ready w2 ys \<and>
           map_of ys = (map_of xs)(p_Name q := None) \<and> (\<not> kill_denied w (p_Id q) \<longrightarrow> \<not> alive w2 (p_Id q))"
proof -
  have k: "kill_entry key (Some (sort_key fst xs)) v = KillSelf q v" for v
    using assms(1,3) by (simp add: kill_entry_def map_of_sort_table table_ready_def)
  obtain w1 zs where w1: "KillSelf q w = Some (None, w1)" "same_env w w1" "table_ready w1 zs"
    "length (table_text zs) \<le> length (table_text xs)" "map_of zs = (map_of xs)(p_Name q := None)"
    using KillSelf_ready[OF assms(1,2), of q] assms(4) by force
  obtain w2 ys where w2: "KillSelf q w1 = Some (None, w2)" "table_ready w2 ys" "map_of ys = (map_of zs)(p_Name q := None)"
    "\<not> kill_denied w1 (p_Id q) \<longrightarrow> \<not> alive w2 (p_Id q)"
    using KillSelf_ready[OF w1(3), of q] w1(4) assms(2,4) by force
  have "frame w w2" using frame_KillSelf[OF w1(1)] frame_KillSelf[OF w2(1)] frame_trans by blast
  then show ?thesis using w1 w2 by (auto simp: k same_env_def)
qed

lemma flush_proxies:
  assumes "proxies_ready w ps" "\<not> disk_full w" "proxies_ok qs"
  shows "FlushData2File (enc_map ProxyStrategy_json (Some qs)) (ProxyTablePath w) w =
           set_file (ProxyTablePath w) (Some (proxies_text qs)) w"
    "proxies_ready (set_file (ProxyTablePath w) (Some (proxies_text qs)) w) qs"
  using assms proxy_paths[of w]
  by (simp_all add: proxies_ready_def FlushData2File_def os_truncate_def os_write_def proxies_text_def world_simps)
     (simp_all add: proxy_path_def world_simps)

lemma table_ready_proxy_file:
  "HasPrefix (cwd w) ''/'' \<Longrightarrow> table_ready w xs \<Longrightarrow> table_ready (set_file (ProxyTablePath w) c w) xs"
  using proxy_paths[of w] by (simp add: table_ready_def table_access_def table_file_def world_simps)

lemma report_simps:
  "proxies_ready (report p w) = proxies_ready w" "table_ready (report p w) = table_ready w" "alive (report p w) = alive w"
  by (intro ext; simp add: report_def PublishMsg_def proxies_ready_def proxy_path_def table_ready_def table_access_def
      table_file_def table_path_def ProcessTablePath_def abs_path_def alive_def)+

lemma valid_key: "ProxyStrategy_ok p \<Longrightarrow> valid_utf8 (proxy_key p)"
proof -
  have "\<forall>c\<in>set (Itoa i). byte_of c < 128" for i
    by (auto simp: Itoa_def dest!: nat_str_digits simp: is_digit_def byte_of_def)
  then have "valid_utf8 (''-'' @ Itoa (ListenPort p))" by (intro valid_utf8_ascii) (simp add: byte_of_def)
  then show "ProxyStrategy_ok p \<Longrightarrow> valid_utf8 (proxy_key p)"
    unfolding proxy_key_def by (rule valid_utf8_append[rotated]) (simp add: ProxyStrategy_ok_def)
qed

text \<open>The strategy an agent stores and reports for a proxy it has started with process id \<open>i\<close>.\<close>

definition deployed :: "AgentConf \<Rightarrow> world \<Rightarrow> ProxyStrategy \<Rightarrow> int \<Rightarrow> ProxyStrategy" where
  "deployed conf w p i = (with_status 1 (p\<lparr>HoneyIP := honey_ip conf w p\<rparr>))\<lparr>px_Pid := i\<rparr>"

lemma deployed_simps [simp]:
  "proxy_key (p\<lparr>HoneyIP := a\<rparr>) = proxy_key p" "px_Pid (deployed conf w p i) = i" "Status (px_base (deployed conf w p i)) = 1"
  "px_base (p\<lparr>HoneyIP := a\<rparr>) = px_base p"
  by (simp_all add: proxy_key_def deployed_def with_status_def)

lemma deployed_ok:
  "ProxyStrategy_ok p \<Longrightarrow> valid_utf8 (honey_ip conf w p) \<Longrightarrow> in_int64 i \<Longrightarrow> ProxyStrategy_ok (deployed conf w p i)"
  by (simp add: ProxyStrategy_ok_def BasePolicy_ok_def deployed_def with_status_def in_int64_def)

lemma deploy_edge:
  assumes ready: "table_ready w xs" "length (table_text xs) \<le> 10000" and ok: "ProxyStrategy_ok p"
    and edge: "Type (px_base p) = ''EDGE''" "startable w (cwd w @ Proxy)" "in_int64 (next_pid w)"
  shows "\<exists>w' ys q. deploy p (Some ps) w = Some (((with_status 1 p)\<lparr>px_Pid := next_pid w\<rparr>,
             Some (AList.update (proxy_key p) ((with_status 1 p)\<lparr>px_Pid := next_pid w\<rparr>) ps)), w') \<and>
           frame w w' \<and> table_ready w' ys \<and> alive w' (next_pid w) \<and> map_of ys (proxy_key p) = Some q \<and> p_Id q = next_pid w"
proof -
  obtain q w' ys where st: "StartProject (cwd w @ Proxy) [] (proxy_key p) w = Some ((q, None), w')"
    "p_Id q = next_pid w" "alive w' (p_Id q)" "table_ready w' ys" "map_of ys = (map_of xs)(proxy_key p \<mapsto> q)"
    using StartProject_ready[OF ready valid_key[OF ok] _ edge(3), of "[]" "cwd w @ Proxy"] edge(2)
    by (auto simp: can_start_def)
  have "map_of ys (proxy_key p) = Some q" using st(5) by simp
  then show ?thesis
    using st edge(1) frame_StartProject[OF st(1)] by (auto simp: deploy_def start_cmd_def Let_def)
qed

text \<open>Deployment, with the table that it leaves.\<close>

lemma edge_deploy_run:
  assumes "table_ready w xs" "length (table_text xs) \<le> 10000" "proxies_ready w ps" "length (proxies_text ps) \<le> 10000"
    "ProxyStrategy_ok p" "valid_utf8 (honey_ip conf w p)" "in_int64 (next_pid w)" "redis_up w"
    "Type (px_base p) = ''EDGE''" "Status (px_base p) = 1" "lsof w (Itoa (ListenPort p)) = []" "startable w (cwd w @ Proxy)"
    "length (proxies_text (AList.update (proxy_key p) (deployed conf w p (next_pid w)) (sort_key fst ps))) \<le> 10000"
  shows "\<exists>w' ys q. handleProxyAndCallback conf p w = Some w' \<and> alive w' (next_pid w) \<and>
           table_ready w' ys \<and> map_of ys (proxy_key p) = Some q \<and> p_Id q = next_pid w \<and>
           proxies_ready w' (AList.update (proxy_key p) (deployed conf w p (next_pid w)) (sort_key fst ps)) \<and>
           map_of (AList.update (proxy_key p) (deployed conf w p (next_pid w)) (sort_key fst ps)) =
             (map_of ps)(proxy_key p \<mapsto> deployed conf w p (next_pid w)) \<and>
           published w' = published w @
             [(ProxyPubChannel, b64_encode (json_print (ProxyStrategy_json (deployed conf w p (next_pid w)))))]"
proof -
  let ?p1 = "p\<lparr>HoneyIP := honey_ip conf w p\<rparr>" and ?d = "deployed conf w p (next_pid w)"
  let ?qs = "AList.update (proxy_key p) ?d (sort_key fst ps)"
  note rp = ReadProxyTable_ready[OF assms(3,4)] and rt = ReadProcessTable_ready[OF assms(1,2)]
  obtain e w3 zs where w3: "kill_entry (proxy_key p) (Some (sort_key fst xs)) w = Some (e, w3)" "same_env w w3" "frame w w3"
    "table_ready w3 zs" "length (table_text zs) \<le> length (table_text xs)" using kill_entry_ready[OF assms(1,2)] by metis
  have p1: "ProxyStrategy_ok ?p1" using assms(5,6) by (simp add: ProxyStrategy_ok_def)
  obtain w4 ys q where w4: "deploy ?p1 (Some (sort_key fst ps)) w3 = Some ((?d, Some ?qs), w4)" "frame w3 w4"
    "table_ready w4 ys" "alive w4 (next_pid w)" "map_of ys (proxy_key p) = Some q" "p_Id q = next_pid w"
    using deploy_edge[OF w3(4) _ p1, of "sort_key fst ps"] w3(2,5) assms(2,7,9,12)
    by (auto simp: same_env_def deployed_def)
  have fr: "frame w w4" using w3(3) w4(2) frame_trans by blast
  have pr: "proxies_ready w4 ps" using fr assms(3) proxies_ready_frame by blast
  have qok: "proxies_ok ?qs" "map_of ?qs = (map_of ps)(proxy_key p \<mapsto> ?d)"
    using proxies_ok_update[OF _ valid_key[OF assms(5)] deployed_ok[OF assms(5,6,7)]] proxies_ok_sort[of ps] assms(3)
    by (simp_all add: proxies_ready_def map_of_update)
  let ?w5 = "set_file (ProxyTablePath w4) (Some (proxies_text ?qs)) w4"
  have df: "\<not> disk_full w4" "HasPrefix (cwd w4) ''/''" using w4(3) pr by (simp_all add: table_ready_def proxies_ready_def)
  note fl = flush_proxies[OF pr df(1) qok(1)]
  have fin: "proxies_ready (report ?d ?w5) ?qs" using fl(2) by (simp add: report_simps)
  have "handleProxyAndCallback conf p w = Some (report ?d ?w5)"
    using rp rt w3(1) w4(1) fl(1) ReadProxyTable_ready[OF fin assms(13)] assms(9,10,11)
    by (simp add: handleProxyAndCallback_def Let_def checkProxyStrategy_def CheckPort_def)
  moreover have "published (report ?d ?w5) = published w @ [(ProxyPubChannel, b64_encode (json_print (ProxyStrategy_json ?d)))]"
    using fr assms(8) by (simp add: report_def PublishMsg_def world_simps frame_def)
  moreover have "alive (report ?d ?w5) (next_pid w)" using w4(4) by (simp add: report_simps) (simp add: alive_def world_simps)
  moreover have "table_ready (report ?d ?w5) ys"
    using table_ready_proxy_file[OF df(2) w4(3)] by (simp add: report_simps)
  ultimately show ?thesis using w4(5,6) fin qok(2) by blast
qed


definition sample_strategy :: ProxyStrategy where
  "sample_strategy = ProxyStrategy_zero\<lparr>px_base := BasePolicy_zero\<lparr>Status := 1, Type := ''EDGE''\<rparr>, ListenPort := 22,
     ServerType := ''ssh'', HoneyIP := ''10.0.0.9'', HoneyPort := 2222\<rparr>"

definition proxy_world :: world where
  "proxy_world = set_file ''/agent/proxy/proxy-table.json'' (Some (proxies_text [])) table_world"

lemma proxy_world_simps:
  "cwd proxy_world = ''/agent''" "redis_up proxy_world" "next_pid proxy_world = 100" "lsof proxy_world = (\<lambda>_. [])"
  "startable proxy_world = (\<lambda>_. True)" "pingable proxy_world = (\<lambda>_. False)" "\<not> disk_full proxy_world"
  by (simp_all add: proxy_world_def table_world_def set_file_def blank_world_def)

lemma proxy_world_ready: "table_ready proxy_world sample_table" "proxies_ready proxy_world []"
proof -
  have c: "cwd table_world = ''/agent''" by (simp add: table_world_def blank_world_def set_file_def)
  then have "proxy_world = set_file (ProxyTablePath table_world) (Some (proxies_text [])) table_world"
    by (simp add: proxy_world_def ProxyTablePath_def)
  then show "table_ready proxy_world sample_table"
    using table_ready_proxy_file[OF _ table_world_ready, of "Some (proxies_text [])"] c by (simp only:) (simp add: HasPrefix_def)
  show "proxies_ready proxy_world []"
    by (simp add: proxies_ready_def proxy_path_def proxy_world_simps HasPrefix_def proxies_ok_def)
       (simp add: proxy_world_def table_world_def blank_world_def set_file_def abs_path_def HasPrefix_def)
qed

lemma sample_honey_ip: "honey_ip AgentConf_zero proxy_world sample_strategy = ''10.0.0.9''"
  by (simp add: honey_ip_def ipSelect_def AgentConf_zero_def sample_strategy_def Index_comma Let_def)

lemma sample_deployed: "deployed AgentConf_zero proxy_world sample_strategy 100 = sample_strategy\<lparr>px_Pid := 100\<rparr>"
  unfolding deployed_def sample_honey_ip by (simp add: sample_strategy_def with_status_def BasePolicy_zero_def)

lemma sample_lengths:
  "length (proxies_text []) \<le> 10000"
  "length (proxies_text (AList.update (proxy_key sample_strategy) (sample_strategy\<lparr>px_Pid := 100\<rparr>) [])) \<le> 10000"
  by code_simp+

lemma sample_strategy_ok: "ProxyStrategy_ok sample_strategy"
  by (simp add: sample_strategy_def ProxyStrategy_zero_def ProxyStrategy_ok_def BasePolicy_ok_def BasePolicy_zero_def
      byte_of_def in_int64_def)


text \<open>
  C10. Withdrawing a proxy undoes its deployment: from readable tables with the proxy registered under
  its key, the manager returns, the registered process is dead (if it may be signalled), both
  tables lose the proxy's entry and keep all others, and the strategy is reported with status 1.
\<close>

theorem proxy_withdrawn:
  assumes "table_ready w xs" "length (table_text xs) \<le> 10000" "proxies_ready w ps" "length (proxies_text ps) \<le> 10000"
    "Type (px_base p) = ''UN_EDGE'' \<or> Type (px_base p) = ''UN_RELAY''" "redis_up w"
    "map_of xs (proxy_key p) = Some q" "0 < p_Id q"
  shows "\<exists>w' ys qs. handleProxyAndCallback conf p w = Some w' \<and> (\<not> kill_denied w (p_Id q) \<longrightarrow> \<not> alive w' (p_Id q)) \<and>
           table_ready w' ys \<and> map_of ys = (map_of xs)(p_Name q := None) \<and>
           proxies_ready w' qs \<and> map_of qs = (map_of ps)(proxy_key p := None) \<and>
           published w' = published w @ [(ProxyPubChannel, b64_encode (json_print (ProxyStrategy_json
             (with_status 1 (p\<lparr>HoneyIP := honey_ip conf w p\<rparr>)))))]"
proof -
  let ?p2 = "with_status 1 (p\<lparr>HoneyIP := honey_ip conf w p\<rparr>)" and ?qs = "AList.delete (proxy_key p) (sort_key fst ps)"
  note rp = ReadProxyTable_ready[OF assms(3,4)] and rt = ReadProcessTable_ready[OF assms(1,2)]
  obtain w3 w4 ys where k: "kill_entry (proxy_key p) (Some (sort_key fst xs)) w = Some (None, w3)"
    "kill_entry (proxy_key p) (Some (sort_key fst xs)) w3 = Some (None, w4)" "frame w w4" "table_ready w4 ys"
    "map_of ys = (map_of xs)(p_Name q := None)" "\<not> kill_denied w (p_Id q) \<longrightarrow> \<not> alive w4 (p_Id q)"
    using kill_entry_twice[OF assms(1,2,7,8)] by metis
  have pr: "proxies_ready w4 ps" using k(3) assms(3) proxies_ready_frame by blast
  have qok: "proxies_ok ?qs" "map_of ?qs = (map_of ps)(proxy_key p := None)"
    using proxies_ok_sort[of ps] proxies_ok_delete assms(3) by (simp_all add: proxies_ready_def map_of_delete)
  have df: "\<not> disk_full w4" "HasPrefix (cwd w4) ''/''" using k(4) pr by (simp_all add: table_ready_def proxies_ready_def)
  let ?w5 = "set_file (ProxyTablePath w4) (Some (proxies_text ?qs)) w4"
  note fl = flush_proxies[OF pr df(1) qok(1)]
  have len: "length (proxies_text ?qs) \<le> 10000"
    using enc_text_delete[of ProxyStrategy_json "proxy_key p" "sort_key fst ps"] assms(4)
    by (simp add: proxies_text_def enc_map_def sort_key_id_if_sorted)
  have fin: "proxies_ready (report ?p2 ?w5) ?qs" using fl(2) by (simp add: report_simps)
  have "checkProxyStrategy w p" using assms(5) by (auto simp: checkProxyStrategy_def)
  then have "handleProxyAndCallback conf p w = Some (report ?p2 ?w5)"
    using rp rt k(1,2) fl(1) ReadProxyTable_ready[OF fin len] assms(5)
    by (simp add: handleProxyAndCallback_def undeploy_def Let_def mdel_def)
  moreover have "published (report ?p2 ?w5) = published w @ [(ProxyPubChannel, b64_encode (json_print (ProxyStrategy_json ?p2)))]"
    using k(3) assms(6) by (simp add: report_def PublishMsg_def world_simps frame_def)
  moreover have "alive (report ?p2 ?w5) = alive w4" by (simp add: report_simps) (simp add: alive_def world_simps fun_eq_iff)
  moreover have "table_ready (report ?p2 ?w5) ys" using table_ready_proxy_file[OF df(2) k(4)] by (simp add: report_simps)
  ultimately show ?thesis using k(5,6) fin qok(2) by auto
qed

definition withdrawal :: ProxyStrategy where
  "withdrawal = sample_strategy\<lparr>px_base := BasePolicy_zero\<lparr>Type := ''UN_EDGE''\<rparr>\<rparr>"

lemma withdrawal_key: "map_of sample_table (proxy_key withdrawal) = Some \<lparr>p_Name = ''ssh-22'', p_Id = 11, p_Result = [], p_Mode = []\<rparr>"
  "map_of sample_table (proxy_key sample_strategy) = Some \<lparr>p_Name = ''ssh-22'', p_Id = 11, p_Result = [], p_Mode = []\<rparr>"
  by code_simp+

theorem proxy_withdrawn_witness:
  "let q = \<lparr>p_Name = ''ssh-22'', p_Id = 11, p_Result = [], p_Mode = []\<rparr> :: Pid in
   \<exists>w' ys qs. handleProxyAndCallback AgentConf_zero withdrawal proxy_world = Some w' \<and>
     (\<not> kill_denied proxy_world (p_Id q) \<longrightarrow> \<not> alive w' (p_Id q)) \<and>
     table_ready w' ys \<and> map_of ys = (map_of sample_table)(p_Name q := None) \<and>
     proxies_ready w' qs \<and> map_of qs = (map_of [])(proxy_key withdrawal := None) \<and>
     published w' = published proxy_world @ [(ProxyPubChannel, b64_encode (json_print (ProxyStrategy_json
       (with_status 1 (withdrawal\<lparr>HoneyIP := honey_ip AgentConf_zero proxy_world withdrawal\<rparr>)))))]"
  unfolding Let_def
  by (rule proxy_withdrawn[OF proxy_world_ready(1) sample_table_short proxy_world_ready(2) sample_lengths(1) _ _ withdrawal_key(1)])
     (simp_all add: proxy_world_simps withdrawal_def sample_strategy_def BasePolicy_zero_def ProxyStrategy_zero_def)

lemma ReadProxyTable_empty:
  assumes "HasPrefix (cwd w) ''/''" "files w (proxy_path w) = Some []" "\<not> rd_denied w (proxy_path w)"
  shows "ReadProxyTable w = Some ((False, None), w)"
  using assms proxy_paths[OF assms(1)]
  by (simp add: ReadProxyTable_def ensure_table_def Exists_def stat_ok_def os_open_read_def read_all_eq
      decode_proxies_def unmarshal_def json_parse_def)

text \<open>
  On a full disk a proxy that is deployed again is killed, not started, and reported as
  started: the kill empties the process table, \<^verbatim>\<open>StartProject\<close> then fails to read it without
  returning an error, and the manager publishes status 1 with process id 0 while no process was
  created.
\<close>

theorem full_disk_reports_success:
  assumes "table_access w" "table_file w xs" "table_ok xs" "length (table_text xs) \<le> 10000" "disk_full w"
    "proxies_ready w ps" "length (proxies_text ps) \<le> 10000" "redis_up w"
    "Type (px_base p) = ''EDGE''" "Status (px_base p) = 1" "lsof w (Itoa (ListenPort p)) = []"
    "map_of xs (proxy_key p) = Some q"
  shows "\<exists>w'. handleProxyAndCallback conf p w = Some w' \<and> next_pid w' = next_pid w \<and>
           published w' = published w @
             [(ProxyPubChannel, b64_encode (json_print (ProxyStrategy_json (deployed conf w p 0))))]"
proof -
  let ?p1 = "p\<lparr>HoneyIP := honey_ip conf w p\<rparr>" and ?d = "deployed conf w p 0"
  let ?m = "Some (AList.update (proxy_key p) ?d (sort_key fst ps))"
  note rp = ReadProxyTable_ready[OF assms(6,7)] and rt = ReadProcessTable_file[OF assms(1-4)]
  obtain e w3 where w3: "KillSelf q w = Some (e, w3)" "same_env w w3" "table_access w3" "files w3 (table_path w3) = Some []"
    using KillSelf_disk_full[OF assms(1-5)] by metis
  have k: "kill_entry (proxy_key p) (Some (sort_key fst xs)) w = Some (e, w3)"
    using w3(1) assms(3,12) by (simp add: kill_entry_def map_of_sort_table)
  have d: "deploy ?p1 (Some (sort_key fst ps)) w3 = Some ((?d, ?m), w3)"
    using assms(9) ReadProcessTable_empty[OF w3(3,4)]
    by (simp add: deploy_def start_cmd_def StartProject_def Let_def deployed_def Pid_zero_def)
  have pr: "proxies_ready w3 ps" using proxies_ready_frame[OF frame_KillSelf[OF w3(1)] assms(6)] .
  let ?w5 = "set_file (ProxyTablePath w3) (Some []) w3"
  have fl: "FlushData2File (enc_map ProxyStrategy_json ?m) (ProxyTablePath w3) w3 = ?w5"
    using pr proxy_paths[of w3] w3(2) assms(5)
    by (simp add: FlushData2File_def os_truncate_def os_write_def proxies_ready_def world_simps same_env_def)
  have "ReadProxyTable (report ?d ?w5) = Some ((False, None), report ?d ?w5)"
    using pr proxy_paths(1)[of w3]
    by (intro ReadProxyTable_empty) (auto simp: proxies_ready_def report_def PublishMsg_def proxy_path_def world_simps)
  then have "handleProxyAndCallback conf p w = Some (report ?d ?w5)"
    using rp rt k d fl assms(9,10,11)
    by (simp add: handleProxyAndCallback_def checkProxyStrategy_def CheckPort_def Let_def)
  then show ?thesis
    using w3(2) assms(8) by (simp add: report_def PublishMsg_def world_simps same_env_def)
qed

lemma full_disk_world:
  "table_access (proxy_world\<lparr>disk_full := True\<rparr>)" "table_file (proxy_world\<lparr>disk_full := True\<rparr>) sample_table"
  "proxies_ready (proxy_world\<lparr>disk_full := True\<rparr>) []"
  using proxy_world_ready
  by (auto simp: table_ready_def table_access_def table_file_def table_path_def ProcessTablePath_def abs_path_def
      proxies_ready_def proxy_path_def split: if_splits)

theorem full_disk_reports_success_witness:
  "let w = proxy_world\<lparr>disk_full := True\<rparr> in
   \<exists>w'. handleProxyAndCallback AgentConf_zero sample_strategy w = Some w' \<and> next_pid w' = next_pid w \<and>
     published w' = published w @
       [(ProxyPubChannel, b64_encode (json_print (ProxyStrategy_json (deployed AgentConf_zero w sample_strategy 0))))]"
  unfolding Let_def
  by (rule full_disk_reports_success[OF full_disk_world(1,2) sample_table_ok sample_table_short _ full_disk_world(3)
        sample_lengths(1) _ _ _ _ withdrawal_key(2)])
     (simp_all add: proxy_world_simps sample_strategy_def ProxyStrategy_zero_def BasePolicy_zero_def)

end
