(* ===== verification/Redis_Resp.thy ===== *)
theory Redis_Resp
  imports Go_Encoding
begin

text \<open>
  The wire format of the redis client the program links (\<^verbatim>\<open>github.com/gomodule/redigo/redis/conn.go\<close>): how a
  command and its arguments are written, and how a reply is read from the byte stream.  A stream is
  the bytes that still arrive before reading fails; a read past its end is the error \<open>EIO\<close>.  A Go panic
  (a slice longer than the address space) is \<^const>\<open>None\<close>.
\<close>

section \<open>Errors and replies\<close>

datatype redis_error =
    EIO
  | EProtocol string
  | EServer string
  | ERedigoClosed
  | EPoolExhausted
  | EGetOnClosedPool
  | EConnClosed
  | EDial
  | EReplyType

datatype reply =
    SimpleStr string
  | ErrorReply string
  | IntReply int
  | BulkStr string
  | NilReply
  | ArrayReply "reply list"

section \<open>Writing commands\<close>

definition crlf :: string where
  "crlf = [CHR 0x0D, CHR 0x0A]"

text \<open>The loop that fills the scratch array from the right with the digits of \<open>n\<close>.\<close>

fun len_digits :: "nat \<Rightarrow> string \<Rightarrow> string" where
  "len_digits n acc =
     (let acc' = digit_char (n mod 10) # acc; n' = n div 10
      in if n' = 0 then acc' else len_digits n' acc')"

declare len_digits.simps [simp del]

definition writeLen :: "char \<Rightarrow> nat \<Rightarrow> string" where
  "writeLen c n = c # len_digits n crlf"

definition writeString :: "string \<Rightarrow> string" where
  "writeString s = writeLen (CHR ''$'') (length s) @ s @ crlf"

definition writeBytes :: "string \<Rightarrow> string" where
  "writeBytes p = writeLen (CHR ''$'') (length p) @ p @ crlf"

definition writeInt64 :: "int \<Rightarrow> string" where
  "writeInt64 n = writeBytes (Itoa n)"

text \<open>
  The arguments of a command by their dynamic type.  A float carries the text of
  \<^verbatim>\<open>strconv.AppendFloat\<close>, a value of another type the text of \<^verbatim>\<open>fmt.Fprint\<close>, and a value with a method
  \<^verbatim>\<open>RedisArg\<close> the result of that method with its own \<^verbatim>\<open>fmt.Fprint\<close> text.
\<close>

datatype arg =
    AString string
  | ABytes string
  | AInt int
  | AInt64 int
  | AFloat64 string
  | ABool bool
  | ANil
  | AArgument arg string
  | AOther string

fun writeArg :: "arg \<Rightarrow> bool \<Rightarrow> string" where
  "writeArg (AString s) ok = writeString s"
| "writeArg (ABytes p) ok = writeBytes p"
| "writeArg (AInt n) ok = writeInt64 n"
| "writeArg (AInt64 n) ok = writeInt64 n"
| "writeArg (AFloat64 t) ok = writeBytes t"
| "writeArg (ABool b) ok = writeString (if b then ''1'' else ''0'')"
| "writeArg ANil ok = writeString []"
| "writeArg (AArgument a t) ok = (if ok then writeArg a False else writeBytes t)"
| "writeArg (AOther t) ok = writeBytes t"

definition writeCommand :: "string \<Rightarrow> arg list \<Rightarrow> string" where
  "writeCommand cmd args =
     writeLen (CHR ''*'') (1 + length args) @ writeString cmd @ concat (map (\<lambda>a. writeArg a True) args)"

section \<open>Reading replies\<close>

definition readLine :: "string \<Rightarrow> (redis_error + string) \<times> string" where
  "readLine s =
     (if CHR 0x0A \<notin> set s then (Inl EIO, [])
      else let p = takeWhile (\<lambda>c. c \<noteq> CHR 0x0A) s; rest = tl (dropWhile (\<lambda>c. c \<noteq> CHR 0x0A) s)
           in if p = [] \<or> last p \<noteq> CHR 0x0D then (Inl (EProtocol ''bad response line terminator''), rest)
              else (Inr (butlast p), rest))"

text \<open>The digits of a length or an integer, summed up in 64 bits.\<close>

fun digits64 :: "64 word \<Rightarrow> string \<Rightarrow> 64 word option" where
  "digits64 n [] = Some n"
| "digits64 n (b # bs) =
     (case digit_val b of None \<Rightarrow> None | Some d \<Rightarrow> digits64 (n * 10 + of_nat d) bs)"

definition parseLen :: "string \<Rightarrow> redis_error + int" where
  "parseLen p =
     (if p = [] then Inl (EProtocol ''malformed length'')
      else if p = ''-1'' then Inr (- 1)
      else case digits64 0 p of
             None \<Rightarrow> Inl (EProtocol ''illegal bytes in length'')
           | Some n \<Rightarrow> Inr (sint n))"

definition parseInt :: "string \<Rightarrow> redis_error + int" where
  "parseInt p =
     (if p = [] then Inl (EProtocol ''malformed integer'')
      else let negate = (hd p = CHR ''-''); ds = (if negate then tl p else p)
           in if ds = [] then Inl (EProtocol ''malformed integer'')
              else case digits64 0 ds of
                     None \<Rightarrow> Inl (EProtocol ''illegal bytes in length'')
                   | Some n \<Rightarrow> Inr (sint (if negate then - n else n)))"

text \<open>The largest allocation of the runtime on 64-bit Linux; an interface value takes 16 bytes.\<close>

definition maxAlloc :: int where
  "maxAlloc = 2 ^ 48"

type_synonym reader = "string \<Rightarrow> ((redis_error + reply) \<times> string) option"

definition read_bulk :: "string \<Rightarrow> reader" where
  "read_bulk len rest =
     (case parseLen len of
        Inl e \<Rightarrow> Some (Inl e, rest)
      | Inr n \<Rightarrow>
          if n < 0 then Some (Inr NilReply, rest)
          else if n > maxAlloc then None
          else if length rest < nat n then Some (Inl EIO, [])
          else case readLine (drop (nat n) rest) of
                 (Inl e, rest') \<Rightarrow> Some (Inl e, rest')
               | (Inr l, rest') \<Rightarrow>
                   if l \<noteq> [] then Some (Inl (EProtocol ''bad bulk string format''), rest')
                   else Some (Inr (BulkStr (take (nat n) rest)), rest'))"

fun read_n :: "reader \<Rightarrow> nat \<Rightarrow> string \<Rightarrow> ((redis_error + reply list) \<times> string) option" where
  "read_n rd 0 s = Some (Inr [], s)"
| "read_n rd (Suc k) s =
     (case rd s of
        None \<Rightarrow> None
      | Some (Inl e, rest) \<Rightarrow> Some (Inl e, rest)
      | Some (Inr r, rest) \<Rightarrow>
          (case read_n rd k rest of
             None \<Rightarrow> None
           | Some (Inl e, rest') \<Rightarrow> Some (Inl e, rest')
           | Some (Inr rs, rest') \<Rightarrow> Some (Inr (r # rs), rest')))"

definition read_array :: "reader \<Rightarrow> string \<Rightarrow> reader" where
  "read_array rd len rest =
     (case parseLen len of
        Inl e \<Rightarrow> Some (Inl e, rest)
      | Inr n \<Rightarrow>
          if n < 0 then Some (Inr NilReply, rest)
          else if 16 * n > maxAlloc then None
          else case read_n rd (nat n) rest of
                 None \<Rightarrow> None
               | Some (Inl e, rest') \<Rightarrow> Some (Inl e, rest')
               | Some (Inr rs, rest') \<Rightarrow> Some (Inr (ArrayReply rs), rest'))"

text \<open>The body of \<^verbatim>\<open>readReply\<close>, with the reader it calls for the elements of an array as an argument.\<close>

definition reply_body :: "reader \<Rightarrow> reader" where
  "reply_body rd s =
     (case readLine s of
        (Inl e, rest) \<Rightarrow> Some (Inl e, rest)
      | (Inr line, rest) \<Rightarrow>
          if line = [] then Some (Inl (EProtocol ''short response line''), rest)
          else if hd line = CHR ''+'' then Some (Inr (SimpleStr (tl line)), rest)
          else if hd line = CHR ''-'' then Some (Inr (ErrorReply (tl line)), rest)
          else if hd line = CHR '':'' then Some (map_sum id IntReply (parseInt (tl line)), rest)
          else if hd line = CHR ''$'' then read_bulk (tl line) rest
          else if hd line = CHR ''*'' then read_array rd (tl line) rest
          else Some (Inl (EProtocol ''unexpected response line''), rest))"

text \<open>Every level of nesting has a line of its own, so a stream is nested less deeply than it is long.\<close>

fun reply_fuel :: "nat \<Rightarrow> reader" where
  "reply_fuel 0 s = Some (Inl EIO, [])"
| "reply_fuel (Suc k) s = reply_body (reply_fuel k) s"

definition readReply :: reader where
  "readReply s = reply_fuel (length s) s"

section \<open>Lemmas\<close>

text \<open>Reading never grows the stream, and a complete line shortens it.\<close>

lemma readLine_shorter: "readLine s = (Inr l, rest) \<Longrightarrow> length rest < length s"
proof -
  have "length (dropWhile (\<lambda>c. c \<noteq> CHR 0x0A) s) \<le> length s" by (rule length_dropWhile_le)
  moreover have "CHR 0x0A \<in> set s \<Longrightarrow> dropWhile (\<lambda>c. c \<noteq> CHR 0x0A) s \<noteq> []" by (auto simp: dropWhile_eq_Nil_conv)
  ultimately show "readLine s = (Inr l, rest) \<Longrightarrow> length rest < length s"
    by (cases "dropWhile (\<lambda>c. c \<noteq> CHR 0x0A) s") (auto simp: readLine_def Let_def split: if_splits)
qed

lemma readLine_le: "readLine s = (r, rest) \<Longrightarrow> length rest \<le> length s"
  using length_dropWhile_le[of "\<lambda>c. c \<noteq> CHR 0x0A" s]
  by (cases "dropWhile (\<lambda>c. c \<noteq> CHR 0x0A) s") (auto simp: readLine_def Let_def split: if_splits)

lemma read_bulk_le: "read_bulk len s = Some (r, rest) \<Longrightarrow> length rest \<le> length s"
  by (auto simp: read_bulk_def split: sum.splits if_splits prod.splits dest!: readLine_le)

text \<open>Two readers that agree on streams below a bound are interchangeable there.\<close>

definition shrinks :: "reader \<Rightarrow> nat \<Rightarrow> bool" where
  "shrinks rd b = (\<forall>s r rest. length s \<le> b \<longrightarrow> rd s = Some (r, rest) \<longrightarrow> length rest \<le> length s)"

lemma read_n_le:
  assumes "shrinks rd b" "length s \<le> b" "read_n rd k s = Some (r, rest)"
  shows "length rest \<le> length s"
  using assms(2,3)
proof (induction k arbitrary: s r rest)
  case (Suc k)
  from Suc.prems(2) obtain q u where q: "rd s = Some (q, u)" by (auto split: option.splits)
  with assms(1) Suc.prems(1) have u: "length u \<le> length s" unfolding shrinks_def by blast
  show ?case
  proof (cases q)
    case (Inl e)
    with q u Suc.prems(2) show ?thesis by simp
  next
    case (Inr a)
    from q Inr Suc.prems(2) obtain q' u' where "read_n rd k u = Some (q', u')" "u' = rest"
      by (auto split: option.splits sum.splits)
    with Suc.IH[of u q' u'] u Suc.prems(1) show ?thesis by simp
  qed
qed simp

lemma read_n_cong:
  assumes "shrinks rd b" "\<And>u. length u \<le> b \<Longrightarrow> rd' u = rd u" "length s \<le> b"
  shows "read_n rd' k s = read_n rd k s"
  using assms(3)
proof (induction k arbitrary: s)
  case (Suc k)
  have "read_n rd' k u = read_n rd k u" if "rd s = Some (q, u)" for q u
    using assms(1) that Suc.prems Suc.IH[of u] unfolding shrinks_def by (meson le_trans)
  with assms(2)[OF Suc.prems] show ?case by (auto split: option.splits sum.splits)
qed simp

lemma reply_body_le:
  assumes "shrinks rd b" "length s \<le> Suc b" "reply_body rd s = Some (r, rest)"
  shows "length rest \<le> length s"
proof (cases "readLine s")
  case (Pair q u)
  show ?thesis
  proof (cases q)
    case (Inl e)
    with Pair assms(3) readLine_le[OF Pair] show ?thesis by (simp add: reply_body_def)
  next
    case (Inr line)
    with Pair have u: "length u < length s" using readLine_shorter by blast
    with assms(2) have ub: "length u \<le> b" by simp
    have "length rest \<le> length u" if "read_array rd (tl line) u = Some (r, rest)"
      using that read_n_le[OF assms(1) ub] by (auto simp: read_array_def split: sum.splits if_splits option.splits)
    moreover have "length rest \<le> length u" if "read_bulk (tl line) u = Some (r, rest)"
      using that by (rule read_bulk_le)
    ultimately show ?thesis using u Pair Inr assms(3) by (auto simp: reply_body_def split: if_splits)
  qed
qed

lemma reply_body_cong:
  assumes "shrinks rd b" "\<And>u. length u \<le> b \<Longrightarrow> rd' u = rd u" "length s \<le> Suc b"
  shows "reply_body rd' s = reply_body rd s"
proof (cases "readLine s")
  case (Pair q u)
  show ?thesis
  proof (cases q)
    case (Inr line)
    with Pair readLine_shorter[of s line u] assms(3) have ub: "length u \<le> b" by simp
    have "read_n rd' k u = read_n rd k u" for k by (rule read_n_cong[OF assms(1,2) ub])
    then have "read_array rd' (tl line) u = read_array rd (tl line) u" by (simp add: read_array_def split: sum.split)
    with Pair Inr show ?thesis by (simp add: reply_body_def)
  qed (simp add: Pair reply_body_def)
qed

lemma reply_fuel_shrinks: "shrinks (reply_fuel k) b"
  unfolding shrinks_def
proof (intro allI impI)
  fix s r rest assume "reply_fuel k s = Some (r, rest)"
  then show "length rest \<le> length s"
  proof (induction k arbitrary: s r rest)
    case (Suc k)
    have "shrinks (reply_fuel k) (length s)" using Suc.IH unfolding shrinks_def by blast
    from reply_body_le[OF this] Suc.prems show ?case by simp
  qed simp
qed

lemma reply_fuel_enough: "length s \<le> k \<Longrightarrow> reply_fuel (k + d) s = reply_fuel k s"
proof (induction k arbitrary: s)
  case 0
  then show ?case by (cases d) (simp_all add: reply_body_def readLine_def)
next
  case (Suc k)
  show ?case using reply_body_cong[OF reply_fuel_shrinks[of k k] Suc.IH Suc.prems] by simp
qed

lemma reply_fuel_readReply: "length s \<le> k \<Longrightarrow> reply_fuel k s = readReply s"
  using reply_fuel_enough[of s "length s" "k - length s"] by (simp add: readReply_def)

lemma readReply_unfold: "readReply s = reply_body readReply s"
proof -
  have "readReply s = reply_fuel (Suc (length s)) s" by (simp add: reply_fuel_readReply del: reply_fuel.simps)
  also have "\<dots> = reply_body (reply_fuel (length s)) s" by simp
  also have "\<dots> = reply_body readReply s"
    by (rule reply_body_cong[symmetric, OF reply_fuel_shrinks, of "length s"]) (simp_all add: reply_fuel_readReply)
  finally show ?thesis .
qed

lemma readReply_le: "readReply s = Some (r, rest) \<Longrightarrow> length rest \<le> length s"
  using reply_fuel_shrinks[of "length s" "length s"] unfolding shrinks_def readReply_def by blast

lemma readReply_shorter: "readReply s = Some (Inr r, rest) \<Longrightarrow> length rest < length s"
proof -
  assume run: "readReply s = Some (Inr r, rest)"
  then obtain line u where l: "readLine s = (Inr line, u)"
    by (subst (asm) readReply_unfold) (auto simp: reply_body_def split: prod.splits sum.splits)
  have "length rest \<le> length u" if "read_array readReply (tl line) u = Some (Inr r, rest)"
    using that read_n_le[OF reply_fuel_shrinks[of "length u" "length u"], of u]
      read_n_cong[OF reply_fuel_shrinks[of "length u" "length u"], of readReply u]
    by (auto simp: read_array_def reply_fuel_readReply split: sum.splits if_splits option.splits)
  moreover have "length rest \<le> length u" if "read_bulk (tl line) u = Some (Inr r, rest)"
    using that by (rule read_bulk_le)
  ultimately have "length rest \<le> length u"
    using run by (subst (asm) readReply_unfold) (auto simp: reply_body_def l split: if_splits)
  with readLine_shorter[OF l] show ?thesis by simp
qed

section \<open>Round trips\<close>

lemma len_digits_nat_str: "len_digits n acc = nat_str n @ acc"
proof (induction n arbitrary: acc rule: nat_str.induct)
  case (1 n)
  show ?case
  proof (cases "n < 10")
    case True
    then show ?thesis by (simp add: len_digits.simps[of n] nat_str.simps[of n])
  next
    case False
    with 1 show ?thesis by (simp add: len_digits.simps[of n] nat_str.simps[of n] Let_def div_eq_0_iff)
  qed
qed

lemma writeLen_text: "writeLen c n = c # nat_str n @ crlf"
  by (simp add: writeLen_def len_digits_nat_str)

lemma writeBytes_writeString: "writeBytes s = writeString s"
  by (simp add: writeBytes_def writeString_def)

lemma digits64_uint_acc: "digits64 (of_nat a) s = map_option of_nat (uint_acc 10 a s)"
proof (induction s arbitrary: a)
  case (Cons c s)
  show ?case
  proof (cases "digit_val c")
    case (Some d)
    then have "d < 10" by (auto simp: digit_val_def Let_def split: if_splits)
    moreover have "(of_nat a :: 64 word) * 10 + of_nat d = of_nat (a * 10 + d)" by simp
    ultimately show ?thesis using Some Cons.IH[of "a * 10 + d"] by (simp del: of_nat_add of_nat_mult)
  qed simp
qed simp

lemma digits64_nat_str: "digits64 0 (nat_str n) = Some (of_nat n)"
  using digits64_uint_acc[of 0 "nat_str n"] by (simp add: uint_acc_nat_str)

lemma nat_str_not_sign: "nat_str n \<noteq> CHR ''-'' # s"
  using nat_str_hd[of n] by (auto dest: sym)

lemma sint_of_int64: "in_int64 i \<Longrightarrow> sint (of_int i :: 64 word) = i"
  by (simp add: in_int64_def sint_sbintrunc' signed_take_bit_int_eq_self)

lemma parseLen_nat_str: "int n < 2 ^ 63 \<Longrightarrow> parseLen (nat_str n) = Inr (int n)"
  using sint_of_int64[of "int n"] nat_str_not_sign[of n]
  by (simp add: parseLen_def digits64_nat_str in_int64_def)

lemma parseInt_Itoa: "in_int64 i \<Longrightarrow> parseInt (Itoa i) = Inr i"
proof (cases "i < 0")
  case True
  moreover from True have "- (of_nat (nat (- i)) :: 64 word) = of_int i" by simp
  ultimately show "in_int64 i \<Longrightarrow> parseInt (Itoa i) = Inr i"
    using sint_of_int64[of i] by (simp add: parseInt_def Itoa_def digits64_nat_str Let_def del: of_int_of_nat)
next
  case False
  have "hd (nat_str (nat i)) \<noteq> CHR ''-''" using nat_str_hd[of "nat i"] by auto
  with False show "in_int64 i \<Longrightarrow> parseInt (Itoa i) = Inr i"
    using sint_of_int64[of i] by (simp add: parseInt_def Itoa_def digits64_nat_str Let_def)
qed

lemma readLine_crlf: "CHR 0x0A \<notin> set l \<Longrightarrow> readLine (l @ crlf @ rest) = (Inr l, rest)"
proof -
  assume l: "CHR 0x0A \<notin> set l"
  have "takeWhile (\<lambda>c. c \<noteq> CHR 0x0A) (l @ crlf @ rest) = l @ [CHR 0x0D]"
    using l by (subst takeWhile_append2) (auto simp: crlf_def)
  moreover have "dropWhile (\<lambda>c. c \<noteq> CHR 0x0A) (l @ crlf @ rest) = CHR 0x0A # rest"
    using l by (subst dropWhile_append2) (auto simp: crlf_def)
  ultimately show ?thesis by (simp add: readLine_def crlf_def)
qed

lemma nat_str_no_newline: "CHR 0x0A \<notin> set (nat_str n)"
  using nat_str_digits[of "CHR 0x0A" n] by (auto simp: is_digit_def byte_of_def)

lemma Itoa_no_newline: "CHR 0x0A \<notin> set (Itoa i)"
  by (simp add: Itoa_def nat_str_no_newline)

text \<open>The bytes a server sends for a reply, as the protocol defines them.\<close>

fun reply_bytes :: "reply \<Rightarrow> string" where
  "reply_bytes (SimpleStr s) = CHR ''+'' # s @ crlf"
| "reply_bytes (ErrorReply s) = CHR ''-'' # s @ crlf"
| "reply_bytes (IntReply i) = CHR '':'' # Itoa i @ crlf"
| "reply_bytes (BulkStr s) = CHR ''$'' # nat_str (length s) @ crlf @ s @ crlf"
| "reply_bytes NilReply = ''$-1'' @ crlf"
| "reply_bytes (ArrayReply rs) = CHR ''*'' # nat_str (length rs) @ crlf @ concat (map reply_bytes rs)"

fun reply_ok :: "reply \<Rightarrow> bool" where
  "reply_ok (SimpleStr s) = (CHR 0x0A \<notin> set s)"
| "reply_ok (ErrorReply s) = (CHR 0x0A \<notin> set s)"
| "reply_ok (IntReply i) = in_int64 i"
| "reply_ok (BulkStr s) = (int (length s) \<le> maxAlloc)"
| "reply_ok NilReply = True"
| "reply_ok (ArrayReply rs) = (16 * int (length rs) \<le> maxAlloc \<and> list_all reply_ok rs)"

lemma read_n_all:
  assumes "\<And>r rest. r \<in> set rs \<Longrightarrow> rd (reply_bytes r @ rest) = Some (Inr r, rest)"
  shows "read_n rd (length rs) (concat (map reply_bytes rs) @ rest) = Some (Inr rs, rest)"
  using assms by (induction rs arbitrary: rest) auto

lemma read_bulk_text:
  assumes "int (length s) \<le> maxAlloc"
  shows "read_bulk (nat_str (length s)) (s @ crlf @ rest) = Some (Inr (BulkStr s), rest)"
proof -
  from assms have "parseLen (nat_str (length s)) = Inr (int (length s))"
    by (intro parseLen_nat_str) (simp add: maxAlloc_def)
  moreover have "readLine (crlf @ rest) = (Inr [], rest)" using readLine_crlf[of "[]" rest] by simp
  ultimately show ?thesis using assms by (simp add: read_bulk_def)
qed

lemma readReply_reply_bytes: "reply_ok r \<Longrightarrow> readReply (reply_bytes r @ rest) = Some (Inr r, rest)"
proof (induction r arbitrary: rest rule: reply_bytes.induct)
  case (1 s)
  then show ?case using readLine_crlf[of "CHR ''+'' # s" rest] by (subst readReply_unfold) (simp add: reply_body_def)
next
  case (2 s)
  then show ?case using readLine_crlf[of "CHR ''-'' # s" rest] by (subst readReply_unfold) (simp add: reply_body_def)
next
  case (3 i)
  then show ?case using readLine_crlf[of "CHR '':'' # Itoa i" rest] Itoa_no_newline[of i]
    by (subst readReply_unfold) (simp add: reply_body_def parseInt_Itoa)
next
  case (4 s)
  then show ?case using readLine_crlf[of "CHR ''$'' # nat_str (length s)" "s @ crlf @ rest"] nat_str_no_newline[of "length s"]
    by (subst readReply_unfold) (simp add: reply_body_def read_bulk_text)
next
  case 5
  show ?case using readLine_crlf[of "''$-1''" rest]
    by (subst readReply_unfold) (simp add: reply_body_def read_bulk_def parseLen_def)
next
  case (6 rs)
  let ?rest = "concat (map reply_bytes rs) @ rest"
  from 6 have "read_n readReply (length rs) ?rest = Some (Inr rs, rest)"
    by (intro read_n_all) (auto simp: list_all_iff)
  moreover from 6 have "parseLen (nat_str (length rs)) = Inr (int (length rs))" "16 * int (length rs) \<le> maxAlloc"
    by (auto intro!: parseLen_nat_str simp: maxAlloc_def)
  ultimately show ?case using readLine_crlf[of "CHR ''*'' # nat_str (length rs)" ?rest] nat_str_no_newline[of "length rs"]
    by (subst readReply_unfold) (simp add: reply_body_def read_array_def)
qed

text \<open>What an argument is on the wire: a bulk string with its text.\<close>

fun wire_text :: "arg \<Rightarrow> bool \<Rightarrow> string" where
  "wire_text (AString s) ok = s"
| "wire_text (ABytes p) ok = p"
| "wire_text (AInt n) ok = Itoa n"
| "wire_text (AInt64 n) ok = Itoa n"
| "wire_text (AFloat64 t) ok = t"
| "wire_text (ABool b) ok = (if b then ''1'' else ''0'')"
| "wire_text ANil ok = []"
| "wire_text (AArgument a t) ok = (if ok then wire_text a False else t)"
| "wire_text (AOther t) ok = t"

lemma writeString_reply: "writeString s = reply_bytes (BulkStr s)"
  by (simp add: writeString_def writeLen_text)

lemma writeArg_reply: "writeArg a ok = reply_bytes (BulkStr (wire_text a ok))"
  by (induction a ok rule: writeArg.induct) (simp_all add: writeString_reply writeBytes_writeString writeInt64_def del: reply_bytes.simps)

definition command_reply :: "string \<Rightarrow> arg list \<Rightarrow> reply" where
  "command_reply cmd args = ArrayReply (BulkStr cmd # map (\<lambda>a. BulkStr (wire_text a True)) args)"

lemma writeCommand_reply: "writeCommand cmd args = reply_bytes (command_reply cmd args)"
  by (simp add: writeCommand_def command_reply_def writeLen_text writeString_reply writeArg_reply comp_def del: reply_bytes.simps(4))

definition command_ok :: "string \<Rightarrow> arg list \<Rightarrow> bool" where
  "command_ok cmd args = (int (length cmd) \<le> maxAlloc \<and> 16 * (1 + int (length args)) \<le> maxAlloc \<and>
     list_all (\<lambda>a. int (length (wire_text a True)) \<le> maxAlloc) args)"

text \<open>
  C16. A command on the wire is read back as it was given: \<^verbatim>\<open>readReply\<close> reads what \<^verbatim>\<open>writeCommand\<close> wrote as the array of the
  command's name and of the text of each argument, whatever bytes they contain (line ends too), and leaves what follows.
\<close>

theorem readReply_writeCommand:
  "command_ok cmd args \<Longrightarrow> readReply (writeCommand cmd args @ rest) = Some (Inr (command_reply cmd args), rest)"
  unfolding writeCommand_reply
  by (rule readReply_reply_bytes) (auto simp: command_ok_def command_reply_def list_all_iff)

theorem readReply_writeCommand_witness:
  "readReply (writeCommand ''PUBLISH'' [AString ''a'' , ABytes [CHR 0x0D, CHR 0x0A], AInt (- 7)] @ ''+OK'') =
     Some (Inr (ArrayReply [BulkStr ''PUBLISH'', BulkStr ''a'', BulkStr [CHR 0x0D, CHR 0x0A], BulkStr ''-7'']), ''+OK'')"
proof -
  have itoa: "Itoa (- 7) = ''-7''" by code_simp
  have "command_ok ''PUBLISH'' [AString ''a'' , ABytes [CHR 0x0D, CHR 0x0A], AInt (- 7)]"
    by (simp add: command_ok_def maxAlloc_def itoa)
  from readReply_writeCommand[OF this, of "''+OK''"] show ?thesis
    by (simp add: command_reply_def itoa)
qed

end
