(* ===== verification/Redis_Sock.thy ===== *)
theory Redis_Sock
  imports Redis_Resp
begin

text \<open>
  The socket under a redis connection and the buffered writer (\<^verbatim>\<open>bufio.Writer\<close>) both redis clients of the program put
  before it.  The socket takes \<open>room\<close> more bytes before writing fails; after it is shut writing fails at once.  What a client
  keeps beside that extends the record.
\<close>

record bsock =
  bw_buf :: string
  bw_err :: "redis_error option"
  wire :: string
  room :: nat
  shut :: bool

section \<open>The socket and the buffered writer\<close>

definition net_write :: "string \<Rightarrow> 'a bsock_scheme \<Rightarrow> nat \<times> redis_error option \<times> 'a bsock_scheme" where
  "net_write p c =
     (if shut c then (0, Some EIO, c)
      else if length p \<le> room c then (length p, None, c\<lparr>wire := wire c @ p, room := room c - length p\<rparr>)
      else (room c, Some EIO, c\<lparr>wire := wire c @ take (room c) p, room := 0\<rparr>))"

definition bw_size :: nat where
  "bw_size = 4096"

definition bw_flush :: "'a bsock_scheme \<Rightarrow> 'a bsock_scheme" where
  "bw_flush c =
     (if bw_err c \<noteq> None \<or> bw_buf c = [] then c
      else let (n, e, c') = net_write (bw_buf c) c in c'\<lparr>bw_buf := drop n (bw_buf c), bw_err := e\<rparr>)"

lemma bw_flush_empties: "bw_err (bw_flush c) = None \<Longrightarrow> bw_buf (bw_flush c) = []"
  by (auto simp: bw_flush_def net_write_def Let_def split: if_splits)

text \<open>
  \<^verbatim>\<open>WriteString\<close>: fill the buffer, flush, go on with the rest.
\<close>

function bw_write :: "string \<Rightarrow> 'a bsock_scheme \<Rightarrow> 'a bsock_scheme" where
  "bw_write s c =
     (let avail = bw_size - length (bw_buf c)
      in if bw_err c \<noteq> None then c
         else if length s \<le> avail then c\<lparr>bw_buf := bw_buf c @ s\<rparr>
         else bw_write (drop avail s) (bw_flush (c\<lparr>bw_buf := bw_buf c @ take avail s\<rparr>)))"
  by pat_completeness auto

termination
proof (relation "measure (\<lambda>(s, c). length s + (if bw_err c = None \<and> bw_buf c \<noteq> [] then 1 else 0))", goal_cases)
  case (2 s c x)
  let ?f = "bw_flush (c\<lparr>bw_buf := bw_buf c @ take x s\<rparr>)"
  have "\<not> (bw_err ?f = None \<and> bw_buf ?f \<noteq> [])" using bw_flush_empties by blast
  moreover have "bw_buf c \<noteq> []" if "x = 0" using that 2(1) by (auto simp: bw_size_def)
  ultimately show ?case using 2 by (cases "x = 0") auto
qed simp

declare bw_write.simps [simp del]

lemma net_write_all: "net_write p c = (n, None, c') \<Longrightarrow> n = length p"
  by (auto simp: net_write_def split: if_splits)

text \<open>
  \<^verbatim>\<open>Write\<close>: the same for a slice, except that what does not fit an empty buffer goes to the socket at once.
\<close>

function bw_Write :: "string \<Rightarrow> 'a bsock_scheme \<Rightarrow> 'a bsock_scheme" where
  "bw_Write p c =
     (let avail = bw_size - length (bw_buf c)
      in if bw_err c \<noteq> None then c
         else if length p \<le> avail then c\<lparr>bw_buf := bw_buf c @ p\<rparr>
         else if bw_buf c = [] then
           (let (n, e, c') = net_write p c in bw_Write (drop n p) (c'\<lparr>bw_err := e\<rparr>))
         else bw_Write (drop avail p) (bw_flush (c\<lparr>bw_buf := bw_buf c @ take avail p\<rparr>)))"
  by pat_completeness auto

termination
proof (relation "measure (\<lambda>(p, c). if bw_err c = None then 2 * length p + (if bw_buf c = [] then 0 else 1) else 0)", goal_cases)
  case (3 p c x)
  let ?f = "bw_flush (c\<lparr>bw_buf := bw_buf c @ take x p\<rparr>)"
  have "bw_err ?f = None \<Longrightarrow> bw_buf ?f = []" by (rule bw_flush_empties)
  then show ?case using 3 by (cases "bw_err ?f") auto
qed (auto simp: bw_size_def dest!: net_write_all[OF sym])

declare bw_Write.simps [simp del]

text \<open>\<^verbatim>\<open>WriteByte\<close>, and \<^verbatim>\<open>Reset\<close>, which drops what is buffered together with the error.\<close>

definition bw_WriteByte :: "char \<Rightarrow> 'a bsock_scheme \<Rightarrow> 'a bsock_scheme" where
  "bw_WriteByte b c =
     (if bw_err c \<noteq> None then c
      else let c' = (if bw_size \<le> length (bw_buf c) then bw_flush c else c)
           in if bw_err c' \<noteq> None then c' else c'\<lparr>bw_buf := bw_buf c' @ [b]\<rparr>)"

definition bw_Reset :: "'a bsock_scheme \<Rightarrow> 'a bsock_scheme" where
  "bw_Reset c = c\<lparr>bw_buf := [], bw_err := None\<rparr>"

section \<open>What goes over the wire\<close>

lemma take_drop_append: "take n s @ drop n s @ t = s @ t"
  by (simp flip: append_assoc)

lemma net_write_ok:
  "\<not> shut c \<Longrightarrow> length p \<le> room c \<Longrightarrow> net_write p c = (length p, None, c\<lparr>wire := wire c @ p, room := room c - length p\<rparr>)"
  by (simp add: net_write_def)

lemma bw_flush_ok:
  assumes "\<not> shut c" "bw_err c = None" "length (bw_buf c) \<le> room c"
  shows "bw_flush c = c\<lparr>wire := wire c @ bw_buf c, room := room c - length (bw_buf c), bw_buf := [], bw_err := None\<rparr>"
  using assms by (cases c) (auto simp: bw_flush_def net_write_ok)

text \<open>As long as the socket takes the bytes, buffering is transparent.\<close>

lemma bw_write_flush_ok:
  assumes "\<not> shut c" "bw_err c = None" "length (bw_buf c @ s) \<le> room c"
  shows "bw_err (bw_write s c) = None \<and>
    bw_flush (bw_write s c) = c\<lparr>wire := wire c @ bw_buf c @ s, room := room c - length (bw_buf c @ s), bw_buf := [], bw_err := None\<rparr>"
  using assms
proof (induction s c rule: bw_write.induct)
  case (1 s c)
  let ?a = "bw_size - length (bw_buf c)"
  show ?case
  proof (cases "length s \<le> ?a")
    case True
    with 1 show ?thesis by (simp add: bw_write.simps[of s c] Let_def bw_flush_ok)
  next
    case False
    let ?c = "c\<lparr>bw_buf := bw_buf c @ take ?a s\<rparr>"
    have f: "bw_flush ?c = ?c\<lparr>wire := wire c @ bw_buf c @ take ?a s, room := room c - (length (bw_buf c) + ?a), bw_buf := [], bw_err := None\<rparr>"
      using 1 False by (subst bw_flush_ok) auto
    have eq: "bw_write s c = bw_write (drop ?a s) (bw_flush ?c)" using 1 False by (simp add: bw_write.simps[of s c] Let_def)
    have "bw_err (bw_write (drop ?a s) (bw_flush ?c)) = None \<and>
      bw_flush (bw_write (drop ?a s) (bw_flush ?c)) = (bw_flush ?c)\<lparr>wire := wire (bw_flush ?c) @ bw_buf (bw_flush ?c) @ drop ?a s,
        room := room (bw_flush ?c) - length (bw_buf (bw_flush ?c) @ drop ?a s), bw_buf := [], bw_err := None\<rparr>"
      using 1 False by (intro "1.IH") (simp_all add: f)
    then show ?thesis using False unfolding eq f by (simp add: take_drop_append)
  qed
qed

text \<open>
  What a client has handed to the writer so far is what is on the wire followed by what is buffered.  \<open>wr_sent s c c'\<close>: from \<open>c\<close> to
  \<open>c'\<close> exactly the bytes \<open>s\<close> were added to that, and nothing else of the connection changed.
\<close>

definition wr_ready :: "'a bsock_scheme \<Rightarrow> bool" where
  "wr_ready c = (\<not> shut c \<and> bw_err c = None \<and> length (bw_buf c) \<le> bw_size \<and> length (bw_buf c) \<le> room c)"

definition wr_sent :: "string \<Rightarrow> 'a bsock_scheme \<Rightarrow> 'a bsock_scheme \<Rightarrow> bool" where
  "wr_sent s c c' = (wr_ready c' \<and> wire c' @ bw_buf c' = wire c @ bw_buf c @ s \<and>
     room c' + length (wire c') = room c + length (wire c) \<and> bsock.more c' = bsock.more c)"

lemma sent_trans: "wr_sent s c c' \<Longrightarrow> wr_sent t c' c'' \<Longrightarrow> wr_sent (s @ t) c c''"
  by (auto simp: wr_sent_def simp flip: append_assoc)

lemma sent_refl: "wr_ready c \<Longrightarrow> wr_sent [] c c"
  by (simp add: wr_sent_def)

lemma sent_room: "wr_sent s c c' \<Longrightarrow> length (bw_buf c' @ t) \<le> room c' \<longleftrightarrow> length (bw_buf c @ s @ t) \<le> room c"
proof -
  assume a: "wr_sent s c c'"
  then have "length (wire c' @ bw_buf c') = length (wire c @ bw_buf c @ s)" by (simp only: wr_sent_def)
  moreover have "room c' + length (wire c') = room c + length (wire c)" using a by (simp only: wr_sent_def)
  ultimately show ?thesis unfolding length_append by presburger
qed

lemma sent_flush: "wr_ready c \<Longrightarrow> wr_sent [] c (bw_flush c) \<and> bw_buf (bw_flush c) = []"
  by (cases c) (simp add: wr_ready_def wr_sent_def bw_flush_ok bw_flush_def net_write_def)

lemma sent_buffer:
  "wr_ready c \<Longrightarrow> length (bw_buf c @ s) \<le> bw_size \<Longrightarrow> length (bw_buf c @ s) \<le> room c \<Longrightarrow> wr_sent s c (c\<lparr>bw_buf := bw_buf c @ s\<rparr>)"
  by (cases c) (simp add: wr_ready_def wr_sent_def)

lemma sent_direct:
  "wr_ready c \<Longrightarrow> bw_buf c = [] \<Longrightarrow> length p \<le> room c \<Longrightarrow>
   net_write p c = (length p, None, c\<lparr>wire := wire c @ p, room := room c - length p\<rparr>) \<and>
   wr_sent p c (c\<lparr>wire := wire c @ p, room := room c - length p, bw_err := None\<rparr>)"
  by (cases c) (simp add: wr_ready_def wr_sent_def net_write_ok)

lemma bw_Write_sent: "wr_ready c \<Longrightarrow> length (bw_buf c @ p) \<le> room c \<Longrightarrow> wr_sent p c (bw_Write p c)"
proof (induction p c rule: bw_Write.induct)
  case (1 p c)
  let ?a = "bw_size - length (bw_buf c)"
  have ok: "bw_err c = None" "length (bw_buf c) \<le> bw_size" using "1.prems" by (simp_all add: wr_ready_def)
  consider "length p \<le> ?a" | "?a < length p" "bw_buf c = []" | "?a < length p" "bw_buf c \<noteq> []" by linarith
  then show ?case
  proof cases
    case 1
    with "1.prems" ok show ?thesis by (simp add: bw_Write.simps[of p c] sent_buffer)
  next
    case 2
    with "1.prems" sent_direct[of c p] ok
    show ?thesis by (simp add: bw_Write.simps[of p c] bw_Write.simps[of "[]"] Let_def)
  next
    case 3
    let ?c = "c\<lparr>bw_buf := bw_buf c @ take ?a p\<rparr>"
    have s: "wr_sent (take ?a p) c ?c" using "1.prems" 3 ok by (intro sent_buffer) auto
    then have "wr_ready ?c" by (simp add: wr_sent_def)
    from sent_trans[OF s] sent_flush[OF this] have f: "wr_sent (take ?a p) c (bw_flush ?c)" by fastforce
    moreover have "wr_sent (drop ?a p) (bw_flush ?c) (bw_Write (drop ?a p) (bw_flush ?c))"
      using "1.prems" 3 ok f sent_room[OF f, of "drop ?a p"] by (intro "1.IH"(2)) (auto simp: wr_sent_def)
    ultimately have "wr_sent p c (bw_Write (drop ?a p) (bw_flush ?c))" using sent_trans by fastforce
    then show ?thesis using 3 ok by (simp add: bw_Write.simps[of p c] Let_def)
  qed
qed

lemma bw_WriteByte_sent: "wr_ready c \<Longrightarrow> length (bw_buf c @ [b]) \<le> room c \<Longrightarrow> wr_sent [b] c (bw_WriteByte b c)"
proof (cases "bw_size \<le> length (bw_buf c)")
  case True
  assume c: "wr_ready c" "length (bw_buf c @ [b]) \<le> room c"
  let ?f = "bw_flush c"
  have f: "wr_sent [] c ?f" "bw_buf ?f = []" "wr_ready ?f"
    using sent_flush[OF c(1)] wr_sent_def[of "[]" c ?f] by blast+
  then have "wr_sent [b] ?f (?f\<lparr>bw_buf := bw_buf ?f @ [b]\<rparr>)"
    using c(2) sent_room[OF f(1), of "[b]"] by (intro sent_buffer) (simp_all add: bw_size_def)
  from sent_trans[OF f(1) this] show ?thesis
    using True c(1) f(3) by (simp add: bw_WriteByte_def wr_ready_def Let_def)
next
  case False
  assume "wr_ready c" "length (bw_buf c @ [b]) \<le> room c"
  with False sent_buffer[of c "[b]"] show ?thesis by (simp add: bw_WriteByte_def wr_ready_def Let_def)
qed

text \<open>Success or not, writing touches neither the state of the socket nor what a client keeps beside it.\<close>

lemma net_write_more: "net_write p c = (n, e, c') \<Longrightarrow> bsock.more c' = bsock.more c \<and> shut c' = shut c"
  by (auto simp: net_write_def split: if_splits)

lemma bw_flush_more [simp]: "bsock.more (bw_flush c) = bsock.more c" "shut (bw_flush c) = shut c"
  by (auto simp: bw_flush_def Let_def split: prod.splits dest!: net_write_more)

lemma bw_WriteByte_more [simp]: "bsock.more (bw_WriteByte b c) = bsock.more c" "shut (bw_WriteByte b c) = shut c"
  by (simp_all add: bw_WriteByte_def Let_def)

lemma bw_Write_more: "bsock.more (bw_Write p c) = bsock.more c \<and> shut (bw_Write p c) = shut c"
proof (induction p c rule: bw_Write.induct)
  case (1 p c)
  obtain n e c' where n: "net_write p c = (n, e, c')" by (metis prod_cases3)
  with net_write_more[OF n] 1 show ?case by (simp add: bw_Write.simps[of p c] Let_def)
qed

section \<open>Pools of connections\<close>

text \<open>
  What either client promises of its pool, whatever its steps are: a state invariant that every step keeps together with the limit, under which no
  more sockets than the limit are open and no socket is handed out twice.
\<close>

locale bounded_pool =
  fixes step :: "'s \<Rightarrow> 's \<Rightarrow> bool" and inv :: "'s \<Rightarrow> bool" and limit :: "'s \<Rightarrow> nat"
    and opened :: "'s \<Rightarrow> nat set" and handed_out :: "'s \<Rightarrow> nat list"
  assumes step_inv: "inv s \<Longrightarrow> step s s' \<Longrightarrow> inv s' \<and> limit s' = limit s"
    and inv_bound: "inv s \<Longrightarrow> card (opened s) \<le> limit s"
    and inv_distinct: "inv s \<Longrightarrow> distinct (handed_out s)"
begin

lemma steps_inv: "step\<^sup>*\<^sup>* s s' \<Longrightarrow> inv s \<Longrightarrow> inv s' \<and> limit s' = limit s"
  by (induction rule: rtranclp_induct) (auto dest: step_inv)

lemma never_exceeded: "step\<^sup>*\<^sup>* s s' \<Longrightarrow> inv s \<Longrightarrow> card (opened s') \<le> limit s \<and> distinct (handed_out s')"
  using steps_inv[of s s'] inv_bound[of s'] inv_distinct[of s'] by simp

end

end
