(* ===== verification/Redis_Conn.thy ===== *)
theory Redis_Conn
  imports Redis_Sock
begin

text \<open>
  A connection of the redis client (the struct \<^verbatim>\<open>conn\<close> of redigo's \<^verbatim>\<open>conn.go\<close>) over its socket: commands
  are written through a buffer of 4096 bytes, replies are read from the bytes the server sends.  The
  socket takes \<open>room\<close> more bytes before writing fails and delivers the bytes \<open>incoming\<close> before reading
  fails; after it is shut both fail at once.  (The bytes the reader had fetched when its own side shut the socket are dropped with
  it: the pool reads from such a connection only while it discards the rest of a subscription, before it
  closes the connection for its error.)  Deadlines are not modelled: a read that would time out is a read past the end of
  \<open>incoming\<close>.
\<close>

record rconn = bsock +
  pending :: nat
  rerr :: "redis_error option"
  incoming :: string

text \<open>A freshly dialled connection over a socket with the given capacity and future input.\<close>

definition dialled :: "nat \<Rightarrow> string \<Rightarrow> rconn" where
  "dialled n input = \<lparr>bw_buf = [], bw_err = None, wire = [], room = n, shut = False, pending = 0, rerr = None, incoming = input\<rparr>"

section \<open>The connection\<close>

definition fatal :: "redis_error \<Rightarrow> rconn \<Rightarrow> rconn" where
  "fatal e c = (if rerr c = None then c\<lparr>rerr := Some e, shut := True\<rparr> else c)"

definition conn_close :: "rconn \<Rightarrow> redis_error option \<times> rconn" where
  "conn_close c = (if rerr c = None then (None, c\<lparr>rerr := Some ERedigoClosed, shut := True\<rparr>) else (rerr c, c))"

definition conn_Send :: "string \<Rightarrow> arg list \<Rightarrow> rconn \<Rightarrow> redis_error option \<times> rconn" where
  "conn_Send cmd args c =
     (let c1 = bw_write (writeCommand cmd args) (c\<lparr>pending := pending c + 1\<rparr>)
      in case bw_err c1 of Some e \<Rightarrow> (Some e, fatal e c1) | None \<Rightarrow> (None, c1))"

definition conn_Flush :: "rconn \<Rightarrow> redis_error option \<times> rconn" where
  "conn_Flush c =
     (let c1 = bw_flush c in case bw_err c1 of Some e \<Rightarrow> (Some e, fatal e c1) | None \<Rightarrow> (None, c1))"

text \<open>Reading \<open>k\<close> replies one after the other, stopping at the first failure, which is fatal.\<close>

definition conn_read :: "nat \<Rightarrow> rconn \<Rightarrow> ((redis_error + reply list) \<times> rconn) option" where
  "conn_read k c =
     (case (if shut c \<and> 0 < k then Some (Inl EIO, incoming c) else read_n readReply k (incoming c)) of
        None \<Rightarrow> None
      | Some (Inl e, rest) \<Rightarrow> Some (Inl e, fatal e (c\<lparr>incoming := rest\<rparr>))
      | Some (Inr rs, rest) \<Rightarrow> Some (Inr rs, c\<lparr>incoming := rest\<rparr>))"

definition conn_Receive :: "rconn \<Rightarrow> ((redis_error + reply) \<times> rconn) option" where
  "conn_Receive c =
     (case conn_read 1 c of
        None \<Rightarrow> None
      | Some (Inl e, c1) \<Rightarrow> Some (Inl e, c1)
      | Some (Inr rs, c1) \<Rightarrow>
          (let c2 = (if 0 < pending c1 then c1\<lparr>pending := pending c1 - 1\<rparr> else c1)
           in case last rs of ErrorReply e \<Rightarrow> Some (Inl (EServer e), c2) | r \<Rightarrow> Some (Inr r, c2)))"

text \<open>The first error among the replies to the pending commands and the command itself.\<close>

fun first_error :: "reply list \<Rightarrow> redis_error option" where
  "first_error [] = None"
| "first_error (ErrorReply e # rs) = Some (EServer e)"
| "first_error (r # rs) = first_error rs"

definition conn_Do :: "string \<Rightarrow> arg list \<Rightarrow> rconn \<Rightarrow> ((reply \<times> redis_error option) \<times> rconn) option" where
  "conn_Do cmd args c =
     (let pend = pending c; c1 = c\<lparr>pending := 0\<rparr>
      in if cmd = [] \<and> pend = 0 then Some ((NilReply, None), c1)
         else let c2 = (if cmd \<noteq> [] then bw_write (writeCommand cmd args) c1 else c1)
              in if cmd \<noteq> [] \<and> bw_err c2 \<noteq> None then Some ((NilReply, bw_err c2), fatal (the (bw_err c2)) c2)
                 else let c3 = bw_flush c2
                      in if bw_err c3 \<noteq> None then Some ((NilReply, bw_err c3), fatal (the (bw_err c3)) c3)
                         else case conn_read (if cmd = [] then pend else Suc pend) c3 of
                                None \<Rightarrow> None
                              | Some (Inl e, c4) \<Rightarrow> Some ((NilReply, Some e), c4)
                              | Some (Inr rs, c4) \<Rightarrow>
                                  if cmd = [] then Some ((ArrayReply rs, None), c4)
                                  else Some ((last rs, first_error rs), c4))"

section \<open>What goes over the wire\<close>

text \<open>A connection that is ready for the next command.\<close>

definition conn_healthy :: "rconn \<Rightarrow> bool" where
  "conn_healthy c = (rerr c = None \<and> \<not> shut c \<and> bw_err c = None \<and> bw_buf c = [] \<and> pending c = 0)"

lemma conn_healthy_dialled [simp]: "conn_healthy (dialled n input)"
  by (simp add: conn_healthy_def dialled_def)

text \<open>
  On a healthy connection with room for the command, \<^verbatim>\<open>Do\<close> puts exactly the bytes of the command on the wire,
  consumes exactly one reply and leaves the connection healthy.
\<close>

lemma conn_Do_reply:
  assumes "conn_healthy c" "cmd \<noteq> []" "length (writeCommand cmd args) \<le> room c"
    "incoming c = reply_bytes r @ rest" "reply_ok r"
  shows "conn_Do cmd args c = Some ((r, first_error [r]),
    c\<lparr>wire := wire c @ writeCommand cmd args, room := room c - length (writeCommand cmd args), incoming := rest\<rparr>)"
proof -
  let ?c = "c\<lparr>pending := 0\<rparr>"
  have "bw_err (bw_write (writeCommand cmd args) ?c) = None \<and> bw_flush (bw_write (writeCommand cmd args) ?c) =
    ?c\<lparr>wire := wire ?c @ bw_buf ?c @ writeCommand cmd args, room := room ?c - length (bw_buf ?c @ writeCommand cmd args), bw_buf := [], bw_err := None\<rparr>"
    using assms(1,3) by (intro bw_write_flush_ok) (simp_all add: conn_healthy_def)
  moreover have "readReply (reply_bytes r @ rest) = Some (Inr r, rest)" using assms(5) by (rule readReply_reply_bytes)
  ultimately show ?thesis using assms(1,2,4) by (cases c) (simp add: conn_Do_def conn_read_def conn_healthy_def Let_def)
qed

lemma conn_Do_healthy:
  assumes "conn_healthy c" "cmd \<noteq> []" "length (writeCommand cmd args) \<le> room c"
    "incoming c = reply_bytes r @ rest" "reply_ok r" "conn_Do cmd args c = Some (res, c')"
  shows "conn_healthy c'"
  using conn_Do_reply[OF assms(1-5)] assms(1,6) by (auto simp: conn_healthy_def)

lemma conn_Receive_shorter: "conn_Receive c = Some (Inr r, c') \<Longrightarrow> length (incoming c') < length (incoming c)"
  using readReply_shorter[of "incoming c"]
  by (auto simp: conn_Receive_def conn_read_def Let_def split: if_splits option.splits sum.splits prod.splits reply.splits)

section \<open>A connection with an error is shut\<close>

definition conn_wf :: "rconn \<Rightarrow> bool" where
  "conn_wf c = (rerr c \<noteq> None \<longrightarrow> shut c)"

named_theorems conn_wf_rules

lemma conn_wf_fatal [conn_wf_rules]: "conn_wf c \<Longrightarrow> conn_wf (fatal e c)"
  by (simp add: conn_wf_def fatal_def)

lemma net_write_frame: "net_write p c = (n, e, c') \<Longrightarrow> rerr c' = rerr c \<and> shut c' = shut c \<and> pending c' = pending c \<and> incoming c' = incoming c"
  by (auto simp: net_write_def split: if_splits)

lemma bw_flush_frame [simp]:
  "rerr (bw_flush c) = rerr c" "shut (bw_flush c) = shut c" "pending (bw_flush c) = pending c" "incoming (bw_flush c) = incoming c"
  by (auto simp: bw_flush_def Let_def split: prod.splits dest!: net_write_frame)

lemma bw_write_frame:
  "rerr (bw_write s c) = rerr c \<and> shut (bw_write s c) = shut c \<and> pending (bw_write s c) = pending c \<and> incoming (bw_write s c) = incoming c"
proof (induction s c rule: bw_write.induct)
  case (1 s c)
  then show ?case by (simp add: bw_write.simps[of s c] Let_def)
qed

lemmas bw_write_frames [simp] = bw_write_frame[THEN conjunct1] bw_write_frame[THEN conjunct2, THEN conjunct1]
  bw_write_frame[THEN conjunct2, THEN conjunct2, THEN conjunct1] bw_write_frame[THEN conjunct2, THEN conjunct2, THEN conjunct2]

lemma conn_wf_frame [conn_wf_rules]:
  "conn_wf (bw_flush c) = conn_wf c" "conn_wf (bw_write s c) = conn_wf c" "conn_wf (c\<lparr>pending := n\<rparr>) = conn_wf c" "conn_wf (c\<lparr>incoming := i\<rparr>) = conn_wf c"
  by (simp_all add: conn_wf_def)

lemma conn_wf_dialled [simp]: "conn_wf (dialled n input)"
  by (simp add: conn_wf_def dialled_def)

lemma conn_close_shut: "conn_wf c \<Longrightarrow> shut (snd (conn_close c)) \<and> conn_wf (snd (conn_close c))"
  by (simp add: conn_wf_def conn_close_def)

lemma conn_wf_Send [conn_wf_rules]: "conn_wf c \<Longrightarrow> conn_wf (snd (conn_Send cmd args c))"
  by (simp add: conn_Send_def Let_def conn_wf_rules split: option.splits)

lemma conn_wf_Flush [conn_wf_rules]: "conn_wf c \<Longrightarrow> conn_wf (snd (conn_Flush c))"
  by (simp add: conn_Flush_def Let_def conn_wf_rules split: option.splits)

lemma conn_wf_read: "conn_wf c \<Longrightarrow> conn_read k c = Some (r, c') \<Longrightarrow> conn_wf c'"
  by (auto simp: conn_read_def conn_wf_rules split: option.splits sum.splits if_splits)

lemma conn_wf_Receive:
  assumes "conn_wf c" "conn_Receive c = Some (r, c')"
  shows "conn_wf c'"
proof -
  obtain q c1 where q: "conn_read 1 c = Some (q, c1)"
    using assms(2) by (cases "conn_read 1 c") (auto simp: conn_Receive_def)
  with assms(1) have "conn_wf c1" by (rule conn_wf_read)
  with assms(2) q show ?thesis
    by (cases q) (auto simp: conn_Receive_def Let_def conn_wf_rules split: if_splits reply.splits)
qed

lemma conn_wf_Do:
  assumes "conn_wf c" "conn_Do cmd args c = Some (r, c')"
  shows "conn_wf c'"
proof -
  define c2 where "c2 = (if cmd \<noteq> [] then bw_write (writeCommand cmd args) (c\<lparr>pending := 0\<rparr>) else c\<lparr>pending := 0\<rparr>)"
  have c2: "conn_wf c2" "conn_wf (c\<lparr>pending := 0\<rparr>)" using assms(1) by (simp_all add: c2_def conn_wf_rules)
  consider "c' = c\<lparr>pending := 0\<rparr>" | e where "c' = fatal e c2" | e where "c' = fatal e (bw_flush c2)"
    | k q where "conn_read k (bw_flush c2) = Some (q, c')"
    using assms(2) unfolding conn_Do_def Let_def c2_def[symmetric]
    by (cases "conn_read (if cmd = [] then pending c else Suc (pending c)) (bw_flush c2)")
      (auto split: if_splits sum.splits)
  then show ?thesis using c2 by cases (auto simp: conn_wf_rules dest: conn_wf_read[rotated])
qed

end
