(* ===== verification/Redis_Idle.thy ===== *)
theory Redis_Idle
  imports Main
begin

text \<open>
  The idle list of the connection pool (redigo's \<^verbatim>\<open>pool.go\<close>): a doubly linked list threaded through the
  \<^verbatim>\<open>poolConn\<close> objects.  The objects are the entries of a list, an address is an index, nil is \<^const>\<open>None\<close>, and following
  nil panics (\<^const>\<open>None\<close>).  The operations implement a double-ended queue of addresses.
\<close>

record poolConn =
  pc_c :: nat
  pc_t :: int
  pc_created :: int
  pc_next :: "nat option"
  pc_prev :: "nat option"

record idleList =
  il_count :: int
  il_front :: "nat option"
  il_back :: "nat option"

definition idle_empty :: idleList where
  "idle_empty = \<lparr>il_count = 0, il_front = None, il_back = None\<rparr>"

type_synonym heap = "poolConn list"

text \<open>Assignment through a pointer.\<close>

fun deref_set :: "nat option \<Rightarrow> (poolConn \<Rightarrow> poolConn) \<Rightarrow> heap \<Rightarrow> heap option" where
  "deref_set None f h = None"
| "deref_set (Some a) f h = (if a < length h then Some (h[a := f (h ! a)]) else None)"

fun deref :: "nat option \<Rightarrow> heap \<Rightarrow> poolConn option" where
  "deref None h = None"
| "deref (Some a) h = (if a < length h then Some (h ! a) else None)"

definition pushFront :: "nat \<Rightarrow> idleList \<times> heap \<Rightarrow> (idleList \<times> heap) option" where
  "pushFront pc = (\<lambda>(l, h).
     case deref_set (Some pc) (\<lambda>n. n\<lparr>pc_next := il_front l, pc_prev := None\<rparr>) h of
       None \<Rightarrow> None
     | Some h1 \<Rightarrow>
         if il_count l = 0 then Some (\<lparr>il_count = il_count l + 1, il_front = Some pc, il_back = Some pc\<rparr>, h1)
         else case deref_set (il_front l) (\<lambda>n. n\<lparr>pc_prev := Some pc\<rparr>) h1 of
                None \<Rightarrow> None
              | Some h2 \<Rightarrow> Some (\<lparr>il_count = il_count l + 1, il_front = Some pc, il_back = il_back l\<rparr>, h2))"

definition clear_links :: "poolConn \<Rightarrow> poolConn" where
  "clear_links n = n\<lparr>pc_next := None, pc_prev := None\<rparr>"

definition popFront :: "idleList \<times> heap \<Rightarrow> (idleList \<times> heap) option" where
  "popFront = (\<lambda>(l, h).
     let pc = il_front l; k = il_count l - 1
     in if k = 0 then map_option (Pair \<lparr>il_count = k, il_front = None, il_back = None\<rparr>) (deref_set pc clear_links h)
        else case deref pc h of
               None \<Rightarrow> None
             | Some n \<Rightarrow>
                 (case deref_set (pc_next n) (\<lambda>m. m\<lparr>pc_prev := None\<rparr>) h of
                    None \<Rightarrow> None
                  | Some h1 \<Rightarrow> map_option (Pair \<lparr>il_count = k, il_front = pc_next n, il_back = il_back l\<rparr>) (deref_set pc clear_links h1)))"

definition popBack :: "idleList \<times> heap \<Rightarrow> (idleList \<times> heap) option" where
  "popBack = (\<lambda>(l, h).
     let pc = il_back l; k = il_count l - 1
     in if k = 0 then map_option (Pair \<lparr>il_count = k, il_front = None, il_back = None\<rparr>) (deref_set pc clear_links h)
        else case deref pc h of
               None \<Rightarrow> None
             | Some n \<Rightarrow>
                 (case deref_set (pc_prev n) (\<lambda>m. m\<lparr>pc_next := None\<rparr>) h of
                    None \<Rightarrow> None
                  | Some h1 \<Rightarrow> map_option (Pair \<lparr>il_count = k, il_front = il_front l, il_back = pc_prev n\<rparr>) (deref_set pc clear_links h1)))"

section \<open>The queue a list of pointers stands for\<close>

text \<open>The links of a chain of addresses: forwards and backwards, nil at both ends.\<close>

fun linked :: "heap \<Rightarrow> nat option \<Rightarrow> nat list \<Rightarrow> bool" where
  "linked h p [] = True"
| "linked h p [a] = (a < length h \<and> pc_prev (h ! a) = p \<and> pc_next (h ! a) = None)"
| "linked h p (a # b # xs) = (a < length h \<and> pc_prev (h ! a) = p \<and> pc_next (h ! a) = Some b \<and> linked h (Some a) (b # xs))"

definition ends :: "nat list \<Rightarrow> nat option \<times> nat option" where
  "ends xs = (if xs = [] then (None, None) else (Some (hd xs), Some (last xs)))"

definition idle_rel :: "idleList \<times> heap \<Rightarrow> nat list \<Rightarrow> bool" where
  "idle_rel lh xs = (case lh of (l, h) \<Rightarrow>
     distinct xs \<and> linked h None xs \<and> il_count l = int (length xs) \<and> (il_front l, il_back l) = ends xs)"

text \<open>
  What the operations leave alone: the number of objects, what the objects carry besides
  their links, and the objects outside the list.
\<close>

definition same_payload :: "heap \<Rightarrow> heap \<Rightarrow> bool" where
  "same_payload h h' = (length h' = length h \<and> (\<forall>a<length h. clear_links (h' ! a) = clear_links (h ! a)))"

lemma linked_update:
  "a \<notin> set xs \<Longrightarrow> linked (h[a := v]) p xs = linked h p xs"
  by (induction h p xs rule: linked.induct) auto

lemma linked_in_range: "linked h p xs \<Longrightarrow> a \<in> set xs \<Longrightarrow> a < length h"
  by (induction h p xs rule: linked.induct) auto

lemma linked_append: "(\<forall>a\<in>set xs. a < length h) \<Longrightarrow> linked (h @ [n]) p xs = linked h p xs"
  by (induction h p xs rule: linked.induct) (auto simp: nth_append)

lemma linked_push:
  assumes "linked h None (b # xs)" "pc < length h" "pc \<notin> set (b # xs)" "b \<notin> set xs"
  shows "linked (h[pc := n\<lparr>pc_next := Some b, pc_prev := None\<rparr>, b := (h ! b)\<lparr>pc_prev := Some pc\<rparr>]) None (pc # b # xs)"
  using assms by (cases xs) (auto simp: linked_update nth_list_update)

lemma linked_tail:
  assumes "linked h p (a # b # xs)" "b \<notin> set xs"
  shows "linked (h[b := (h ! b)\<lparr>pc_prev := None\<rparr>]) None (b # xs)"
  using assms by (cases xs) (auto simp: linked_update)

lemma linked_last:
  assumes "linked h p (xs @ [a])" "a \<notin> set xs" "xs \<noteq> []" "distinct xs"
  shows "pc_prev (h ! a) = Some (last xs) \<and> linked (h[last xs := (h ! last xs)\<lparr>pc_next := None\<rparr>]) p xs"
  using assms
proof (induction h p xs rule: linked.induct)
  case (3 h p b c xs)
  have "last (c # xs) \<in> set (c # xs)" by (rule last_in_set) simp
  with "3.prems"(4) have "b \<noteq> last (c # xs)" by auto
  with 3 show ?case by (cases xs) auto
qed auto

lemma same_payload_refl [simp]: "same_payload h h"
  by (simp add: same_payload_def)

lemma same_payload_trans: "same_payload h h' \<Longrightarrow> same_payload h' h'' \<Longrightarrow> same_payload h h''"
  by (simp add: same_payload_def)

lemma clear_links_links [simp]:
  "clear_links (n\<lparr>pc_next := x\<rparr>) = clear_links n" "clear_links (n\<lparr>pc_prev := x\<rparr>) = clear_links n"
  "clear_links (clear_links n) = clear_links n"
  by (simp_all add: clear_links_def)

lemma same_payload_set: "clear_links n = clear_links (h ! a) \<Longrightarrow> same_payload h (h[a := n])"
  unfolding same_payload_def by (metis length_list_update nth_list_update_eq nth_list_update_neq)

lemma pushFront_refines:
  assumes "idle_rel lh xs" "pc < length (snd lh)" "pc \<notin> set xs"
  shows "\<exists>lh'. pushFront pc lh = Some lh' \<and> idle_rel lh' (pc # xs) \<and> same_payload (snd lh) (snd lh')"
proof (cases lh)
  case (Pair l h)
  show ?thesis
  proof (cases xs)
    case Nil
    with assms Pair show ?thesis
      by (auto simp: pushFront_def idle_rel_def ends_def intro!: same_payload_set)
  next
    case (Cons b ys)
    have b: "b < length h" "il_front l = Some b" "il_count l \<noteq> 0" "b \<noteq> pc" "b \<notin> set ys"
      using assms Pair Cons linked_in_range[of h None xs b] by (auto simp: idle_rel_def ends_def)
    let ?n = "(h ! pc)\<lparr>pc_next := Some b, pc_prev := None\<rparr>"
    let ?h = "h[pc := ?n, b := (h ! b)\<lparr>pc_prev := Some pc\<rparr>]"
    have run: "pushFront pc lh = Some (\<lparr>il_count = il_count l + 1, il_front = Some pc, il_back = il_back l\<rparr>, ?h)"
      using assms(2) Pair b by (simp add: pushFront_def)
    have "linked ?h None (pc # b # ys)"
      using assms Pair Cons b by (intro linked_push) (auto simp: idle_rel_def)
    moreover have "same_payload h ?h"
      using b by (intro same_payload_trans[OF same_payload_set same_payload_set]) (simp_all add: clear_links_def)
    ultimately show ?thesis using run assms Pair Cons by (simp add: idle_rel_def ends_def)
  qed
qed

lemma popFront_refines:
  assumes "idle_rel lh (x # xs)"
  shows "\<exists>lh'. popFront lh = Some lh' \<and> idle_rel lh' xs \<and> same_payload (snd lh) (snd lh')"
proof (cases lh)
  case (Pair l h)
  have x: "x < length h" "il_front l = Some x" "x \<notin> set xs" "il_count l = 1 + int (length xs)" "distinct xs"
    using assms Pair linked_in_range[of h None "x # xs" x] by (auto simp: idle_rel_def ends_def)
  show ?thesis
  proof (cases xs)
    case Nil
    with x Pair show ?thesis
      by (auto simp: popFront_def idle_rel_def ends_def Let_def intro!: same_payload_set)
  next
    case (Cons b ys)
    have b: "b < length h" "pc_next (h ! x) = Some b" "b \<noteq> x" "b \<notin> set ys" "linked h None (x # b # ys)"
      using assms Pair Cons x linked_in_range[of h None "x # xs" b] by (auto simp: idle_rel_def)
    let ?h1 = "h[b := (h ! b)\<lparr>pc_prev := None\<rparr>]"
    let ?h = "?h1[x := clear_links (?h1 ! x)]"
    have run: "popFront lh = Some (\<lparr>il_count = il_count l - 1, il_front = Some b, il_back = il_back l\<rparr>, ?h)"
      using Pair x b Cons by (simp add: popFront_def Let_def)
    have "linked ?h None (b # ys)"
      using linked_tail[OF b(5,4)] x(3) Cons by (simp add: linked_update)
    moreover have "same_payload h ?h"
      by (rule same_payload_trans[OF same_payload_set same_payload_set]) simp_all
    ultimately show ?thesis using run assms Pair Cons x by (simp add: idle_rel_def ends_def)
  qed
qed

lemma popBack_refines:
  assumes "idle_rel lh (xs @ [x])"
  shows "\<exists>lh'. popBack lh = Some lh' \<and> idle_rel lh' xs \<and> same_payload (snd lh) (snd lh')"
proof (cases lh)
  case (Pair l h)
  have x: "x < length h" "il_back l = Some x" "x \<notin> set xs" "il_count l = 1 + int (length xs)" "distinct xs" "linked h None (xs @ [x])"
    using assms Pair linked_in_range[of h None "xs @ [x]" x] by (auto simp: idle_rel_def ends_def)
  show ?thesis
  proof (cases "xs = []")
    case True
    with x Pair show ?thesis
      by (auto simp: popBack_def idle_rel_def ends_def Let_def intro!: same_payload_set)
  next
    case False
    let ?b = "last xs"
    have b: "?b < length h" "?b \<noteq> x" using False x linked_in_range[of h None "xs @ [x]" ?b] by (auto simp: last_in_set)
    from linked_last[OF x(6,3) False x(5)]
    have p: "pc_prev (h ! x) = Some ?b" and l: "linked (h[?b := (h ! ?b)\<lparr>pc_next := None\<rparr>]) None xs" by auto
    let ?h1 = "h[?b := (h ! ?b)\<lparr>pc_next := None\<rparr>]"
    let ?h = "?h1[x := clear_links (?h1 ! x)]"
    have "length xs \<noteq> 0" using False by simp
    then have run: "popBack lh = Some (\<lparr>il_count = il_count l - 1, il_front = il_front l, il_back = Some ?b\<rparr>, ?h)"
      using Pair x b p by (simp add: popBack_def Let_def)
    have "linked ?h None xs" using l x(3) by (simp add: linked_update)
    moreover have "same_payload h ?h"
      by (rule same_payload_trans[OF same_payload_set same_payload_set]) simp_all
    ultimately show ?thesis using run assms Pair False x by (simp add: idle_rel_def ends_def)
  qed
qed

section \<open>A double-ended queue\<close>

text \<open>Operations on a queue, what they do to the list it stands for, and when they are allowed.\<close>

datatype 'a queue_op = PushFront 'a | PopFront | PopBack

fun queue_abs :: "'a queue_op \<Rightarrow> 'a list \<Rightarrow> 'a list" where
  "queue_abs (PushFront a) xs = a # xs"
| "queue_abs PopFront xs = tl xs"
| "queue_abs PopBack xs = butlast xs"

fun queue_allowed :: "('a \<Rightarrow> bool) \<Rightarrow> 'a queue_op list \<Rightarrow> 'a list \<Rightarrow> bool" where
  "queue_allowed ok [] xs = True"
| "queue_allowed ok (q # qs) xs =
     ((case q of PushFront a \<Rightarrow> ok a \<and> a \<notin> set xs | _ \<Rightarrow> xs \<noteq> []) \<and> queue_allowed ok qs (queue_abs q xs))"

fun queue_exec :: "('a \<Rightarrow> 's \<Rightarrow> 's option) \<Rightarrow> ('s \<Rightarrow> 's option) \<Rightarrow> ('s \<Rightarrow> 's option) \<Rightarrow> 'a queue_op list \<Rightarrow> 's \<Rightarrow> 's option" where
  "queue_exec push popf popb [] s = Some s"
| "queue_exec push popf popb (q # qs) s =
     Option.bind (case q of PushFront a \<Rightarrow> push a s | PopFront \<Rightarrow> popf s | PopBack \<Rightarrow> popb s) (queue_exec push popf popb qs)"

locale deque =
  fixes rel :: "'s \<Rightarrow> 'a list \<Rightarrow> bool"
    and ok :: "'s \<Rightarrow> 'a \<Rightarrow> bool"
    and push :: "'a \<Rightarrow> 's \<Rightarrow> 's option"
    and popf :: "'s \<Rightarrow> 's option"
    and popb :: "'s \<Rightarrow> 's option"
  assumes push_law: "rel s xs \<Longrightarrow> ok s a \<Longrightarrow> a \<notin> set xs \<Longrightarrow> \<exists>s'. push a s = Some s' \<and> rel s' (a # xs) \<and> ok s' = ok s"
    and popf_law: "rel s (x # xs) \<Longrightarrow> \<exists>s'. popf s = Some s' \<and> rel s' xs \<and> ok s' = ok s"
    and popb_law: "rel s (xs @ [x]) \<Longrightarrow> \<exists>s'. popb s = Some s' \<and> rel s' xs \<and> ok s' = ok s"
begin

lemma popb_butlast: "rel s xs \<Longrightarrow> xs \<noteq> [] \<Longrightarrow> \<exists>s'. popb s = Some s' \<and> rel s' (butlast xs) \<and> ok s' = ok s"
  using popb_law[of s "butlast xs" "last xs"] by simp

lemma step_law:
  assumes "rel s xs" "queue_allowed (ok s) [q] xs"
  shows "\<exists>s'. queue_exec push popf popb [q] s = Some s' \<and> rel s' (queue_abs q xs) \<and> ok s' = ok s"
proof (cases q)
  case (PushFront a)
  with assms push_law[of s xs a] show ?thesis by auto
next
  case PopFront
  with assms popf_law[of s "hd xs" "tl xs"] show ?thesis by auto
next
  case PopBack
  with assms popb_butlast[of s xs] show ?thesis by auto
qed

lemma exec_refines:
  assumes "rel s xs" "queue_allowed (ok s) qs xs"
  shows "\<exists>s'. queue_exec push popf popb qs s = Some s' \<and> rel s' (fold queue_abs qs xs) \<and> ok s' = ok s"
  using assms
proof (induction qs arbitrary: s xs)
  case (Cons q qs)
  then obtain s1 where s1: "queue_exec push popf popb [q] s = Some s1" "rel s1 (queue_abs q xs)" "ok s1 = ok s"
    using step_law[of s xs q] by auto
  from Cons.prems s1(3) have "queue_allowed (ok s1) qs (queue_abs q xs)" by simp
  with Cons.IH[OF s1(2)] s1 show ?case by (auto split: queue_op.splits simp: bind_eq_Some_conv)
qed simp

end

lemma same_payload_length: "same_payload h h' \<Longrightarrow> length h' = length h"
  by (simp add: same_payload_def)

interpretation idle: deque idle_rel "\<lambda>lh a. a < length (snd lh)" pushFront popFront popBack
proof
  fix s :: "idleList \<times> heap" and xs :: "nat list" and a x :: nat
  show "idle_rel s xs \<Longrightarrow> a < length (snd s) \<Longrightarrow> a \<notin> set xs \<Longrightarrow>
      \<exists>s'. pushFront a s = Some s' \<and> idle_rel s' (a # xs) \<and> (\<lambda>a. a < length (snd s')) = (\<lambda>a. a < length (snd s))"
    using pushFront_refines[of s xs a] same_payload_length by metis
  show "idle_rel s (x # xs) \<Longrightarrow> \<exists>s'. popFront s = Some s' \<and> idle_rel s' xs \<and> (\<lambda>a. a < length (snd s')) = (\<lambda>a. a < length (snd s))"
    using popFront_refines[of s x xs] same_payload_length by metis
  show "idle_rel s (xs @ [x]) \<Longrightarrow> \<exists>s'. popBack s = Some s' \<and> idle_rel s' xs \<and> (\<lambda>a. a < length (snd s')) = (\<lambda>a. a < length (snd s))"
    using popBack_refines[of s xs x] same_payload_length by metis
qed

text \<open>
  C15. The linked list of idle connections is a double-ended queue: every sequence of pushes of objects that are
  not in it and of pops from a list that is not empty runs without following nil and leaves exactly the
  list the sequence gives, with forward and backward links, both ends and the counter in agreement.
\<close>

theorem idle_list_is_deque:
  assumes "idle_rel (l, h) xs" "queue_allowed (\<lambda>a. a < length h) qs xs"
  shows "\<exists>l' h'. queue_exec pushFront popFront popBack qs (l, h) = Some (l', h') \<and>
    idle_rel (l', h') (fold queue_abs qs xs) \<and> length h' = length h"
proof -
  obtain s where s: "queue_exec pushFront popFront popBack qs (l, h) = Some s" "idle_rel s (fold queue_abs qs xs)"
    "(\<lambda>a. a < length (snd s)) = (\<lambda>a. a < length h)"
    using idle.exec_refines[OF assms(1), of qs] assms(2) by auto
  have "length (snd s) = length h" using s(3) by (metis linorder_neqE_nat order_less_irrefl)
  with s show ?thesis by (cases s) auto
qed

definition three_objects :: heap where
  "three_objects = replicate 3 \<lparr>pc_c = 0, pc_t = 0, pc_created = 0, pc_next = None, pc_prev = None\<rparr>"

theorem idle_list_is_deque_witness:
  "\<exists>l' h'. queue_exec pushFront popFront popBack [PushFront 0, PushFront 1, PushFront 2, PopBack] (idle_empty, three_objects) = Some (l', h') \<and>
    idle_rel (l', h') [2, 1] \<and> length h' = 3"
  using idle_list_is_deque[of idle_empty three_objects "[]" "[PushFront 0, PushFront 1, PushFront 2, PopBack]"]
  by (simp add: idle_rel_def idle_empty_def ends_def three_objects_def)

end
