(* ===== verification/Redis_Pool.thy ===== *)
theory Redis_Pool
  imports Redis_Conn Redis_Idle
begin

unbundle bit_operations_syntax

text \<open>
  The connection pool of the redis client (redigo's \<^verbatim>\<open>pool.go\<close> and \<^verbatim>\<open>commandinfo.go\<close>) as the program configures it
  in \<^verbatim>\<open>NewPool\<close> of \<^verbatim>\<open>util/comm/redisUtil.go\<close>: no waiting (\<^verbatim>\<open>Wait\<close> is false, so the channel \<^verbatim>\<open>ch\<close> is never
  made), and \<^verbatim>\<open>Dial\<close> and \<^verbatim>\<open>TestOnBorrow\<close> are the two closures of that function.  The state holds every socket that was
  ever opened (\<open>conns\<close>) and every \<^verbatim>\<open>poolConn\<close> object (\<open>nodes\<close>); \<open>dials\<close> is what the network will answer to the next
  dials: nothing, or a socket with its capacity and the bytes the server will send on it.  Time stands still during an
  operation.
\<close>

record pool =
  pool_auth :: string
  MaxIdle :: int
  MaxActive :: int
  IdleTimeout :: int
  MaxConnLifetime :: int
  pool_closed :: bool
  pool_active :: int
  pool_idle :: idleList
  nodes :: heap
  conns :: "rconn list"
  dials :: "(nat \<times> string) option list"
  pool_now :: int
  sentinel :: string

definition conn_at :: "pool \<Rightarrow> nat \<Rightarrow> rconn" where
  "conn_at p a = conns p ! pc_c (nodes p ! a)"

definition set_conn :: "nat \<Rightarrow> rconn \<Rightarrow> pool \<Rightarrow> pool" where
  "set_conn a c p = p\<lparr>conns := (conns p)[pc_c (nodes p ! a) := c]\<rparr>"

definition close_conn :: "nat \<Rightarrow> pool \<Rightarrow> pool" where
  "close_conn a p = set_conn a (snd (conn_close (conn_at p a))) p"

definition with_idle :: "(idleList \<times> heap \<Rightarrow> (idleList \<times> heap) option) \<Rightarrow> pool \<Rightarrow> pool option" where
  "with_idle f p = map_option (\<lambda>(l, h). p\<lparr>pool_idle := l, nodes := h\<rparr>) (f (pool_idle p, nodes p))"

section \<open>The closures of NewPool\<close>

text \<open>
  \<^verbatim>\<open>Dial\<close>: connect, authenticate, close again when the server refuses.  The result is the index of the new socket.
\<close>

definition dial :: "pool \<Rightarrow> ((redis_error + nat) \<times> pool) option" where
  "dial p =
     (case dials p of
        [] \<Rightarrow> Some (Inl EDial, p)
      | None # ds \<Rightarrow> Some (Inl EDial, p\<lparr>dials := ds\<rparr>)
      | Some (n, input) # ds \<Rightarrow>
          (case conn_Do ''AUTH'' [AString (pool_auth p)] (dialled n input) of
             None \<Rightarrow> None
           | Some ((r, Some e), c) \<Rightarrow> Some (Inl e, p\<lparr>dials := ds, conns := conns p @ [snd (conn_close c)]\<rparr>)
           | Some ((r, None), c) \<Rightarrow> Some (Inr (length (conns p)), p\<lparr>dials := ds, conns := conns p @ [c]\<rparr>)))"

definition minute :: int where
  "minute = 60 * 1000000000"

definition TestOnBorrow :: "nat \<Rightarrow> pool \<Rightarrow> (redis_error option \<times> pool) option" where
  "TestOnBorrow a p =
     (if pool_now p - pc_t (nodes p ! a) < minute then Some (None, p)
      else case conn_Do ''PING'' [] (conn_at p a) of
             None \<Rightarrow> None
           | Some ((r, e), c) \<Rightarrow> Some (e, set_conn a c p))"

section \<open>Get and put\<close>

text \<open>Closing a connection of the pool, which frees its place.\<close>

definition drop_conn :: "nat \<Rightarrow> pool \<Rightarrow> pool" where
  "drop_conn a p = (close_conn a p)\<lparr>pool_active := pool_active p - 1\<rparr>"

text \<open>Pruning at the back of the idle list, at most as often as it had entries at the start.\<close>

fun prune :: "nat \<Rightarrow> pool \<Rightarrow> pool option" where
  "prune 0 p = Some p"
| "prune (Suc k) p =
     (case il_back (pool_idle p) of
        None \<Rightarrow> Some p
      | Some a \<Rightarrow>
          if pc_t (nodes p ! a) + IdleTimeout p < pool_now p
          then (case with_idle popBack p of
                  None \<Rightarrow> None
                | Some p1 \<Rightarrow> prune k (drop_conn a p1))
          else Some p)"

text \<open>
  Borrowing from the front: a connection that fails its test is closed and the next one tried.  Every
  round takes one entry away; the first argument is the number of entries.
\<close>

fun borrow :: "nat \<Rightarrow> pool \<Rightarrow> (nat option \<times> pool) option" where
  "borrow k p =
     (case il_front (pool_idle p) of
        None \<Rightarrow> Some (None, p)
      | Some a \<Rightarrow>
          (case k of
             0 \<Rightarrow> Some (None, p)
           | Suc k' \<Rightarrow>
               (case with_idle popFront p of
                  None \<Rightarrow> None
                | Some p1 \<Rightarrow>
                    (case TestOnBorrow a p1 of
                       None \<Rightarrow> None
                     | Some (e, p2) \<Rightarrow>
                         if e = None \<and> (MaxConnLifetime p2 = 0 \<or> pool_now p2 - pc_created (nodes p2 ! a) < MaxConnLifetime p2)
                         then Some (Some a, p2)
                         else borrow k' (drop_conn a p2)))))"

declare borrow.simps [simp del]

definition pool_new :: "pool \<Rightarrow> ((redis_error + nat) \<times> pool) option" where
  "pool_new p =
     (if pool_closed p then Some (Inl EGetOnClosedPool, p)
      else if MaxActive p > 0 \<and> pool_active p \<ge> MaxActive p then Some (Inl EPoolExhausted, p)
      else case dial (p\<lparr>pool_active := pool_active p + 1\<rparr>) of
             None \<Rightarrow> None
           | Some (Inl e, p1) \<Rightarrow> Some (Inl e, p1\<lparr>pool_active := pool_active p1 - 1\<rparr>)
           | Some (Inr i, p1) \<Rightarrow>
               Some (Inr (length (nodes p1)),
                 p1\<lparr>nodes := nodes p1 @ [\<lparr>pc_c = i, pc_t = 0, pc_created = pool_now p1, pc_next = None, pc_prev = None\<rparr>]\<rparr>))"

definition pool_get :: "pool \<Rightarrow> ((redis_error + nat) \<times> pool) option" where
  "pool_get p =
     (case (if IdleTimeout p > 0 then prune (nat (il_count (pool_idle p))) p else Some p) of
        None \<Rightarrow> None
      | Some p1 \<Rightarrow>
          (case borrow (nat (il_count (pool_idle p1))) p1 of
             None \<Rightarrow> None
           | Some (Some a, p2) \<Rightarrow> Some (Inr a, p2)
           | Some (None, p2) \<Rightarrow> pool_new p2))"

definition pool_put :: "nat \<Rightarrow> bool \<Rightarrow> pool \<Rightarrow> pool option" where
  "pool_put a forceClose p =
     (if \<not> pool_closed p \<and> \<not> forceClose
      then case with_idle (pushFront a) (p\<lparr>nodes := (nodes p)[a := (nodes p ! a)\<lparr>pc_t := pool_now p\<rparr>]\<rparr>) of
             None \<Rightarrow> None
           | Some p1 \<Rightarrow>
               if il_count (pool_idle p1) > MaxIdle p1
               then (case il_back (pool_idle p1) of
                       None \<Rightarrow> None
                     | Some b \<Rightarrow> map_option (drop_conn b) (with_idle popBack p1))
               else Some p1
      else Some (drop_conn a p))"

text \<open>\<^verbatim>\<open>Close\<close> of the pool closes the idle connections; those in use are closed when they are returned.\<close>

fun close_chain :: "nat \<Rightarrow> nat option \<Rightarrow> pool \<Rightarrow> pool" where
  "close_chain k None p = p"
| "close_chain 0 (Some a) p = p"
| "close_chain (Suc k) (Some a) p = close_chain k (pc_next (nodes p ! a)) (close_conn a p)"

definition pool_Close :: "pool \<Rightarrow> pool" where
  "pool_Close p =
     (if pool_closed p then p
      else close_chain (length (nodes p)) (il_front (pool_idle p))
             (p\<lparr>pool_closed := True, pool_active := pool_active p - il_count (pool_idle p), pool_idle := idle_empty\<rparr>))"

definition ActiveCount :: "pool \<Rightarrow> int" where
  "ActiveCount p = pool_active p"

definition IdleCount :: "pool \<Rightarrow> int" where
  "IdleCount p = il_count (pool_idle p)"

section \<open>Connections handed out\<close>

record activeConn =
  ac_pc :: "nat option"
  ac_state :: "64 word"

datatype handle = ErrorConn redis_error | ActiveConn activeConn

definition pool_Get :: "pool \<Rightarrow> (handle \<times> pool) option" where
  "pool_Get p =
     (case pool_get p of
        None \<Rightarrow> None
      | Some (Inl e, p1) \<Rightarrow> Some (ErrorConn e, p1)
      | Some (Inr a, p1) \<Rightarrow> Some (ActiveConn \<lparr>ac_pc = Some a, ac_state = 0\<rparr>, p1))"

definition connectionWatchState :: "64 word" where "connectionWatchState = 1"
definition connectionMultiState :: "64 word" where "connectionMultiState = 2"
definition connectionSubscribeState :: "64 word" where "connectionSubscribeState = 4"
definition connectionMonitorState :: "64 word" where "connectionMonitorState = 8"

lemmas state_defs = connectionWatchState_def connectionMultiState_def connectionSubscribeState_def connectionMonitorState_def

record commandInfo =
  ci_Set :: "64 word"
  ci_Clear :: "64 word"

text \<open>Upper and lower case of ASCII letters, which is all that command names have.\<close>

definition ToUpper :: "string \<Rightarrow> string" where
  "ToUpper = map (\<lambda>c. if 97 \<le> byte_of c \<and> byte_of c \<le> 122 then char_of (byte_of c - 32) else c)"

definition ToLower :: "string \<Rightarrow> string" where
  "ToLower = map (\<lambda>c. if 65 \<le> byte_of c \<and> byte_of c \<le> 90 then char_of (byte_of c + 32) else c)"

definition commandInfos_literal :: "(string \<times> commandInfo) list" where
  "commandInfos_literal = [
     (''WATCH'', \<lparr>ci_Set = connectionWatchState, ci_Clear = 0\<rparr>),
     (''UNWATCH'', \<lparr>ci_Set = 0, ci_Clear = connectionWatchState\<rparr>),
     (''MULTI'', \<lparr>ci_Set = connectionMultiState, ci_Clear = 0\<rparr>),
     (''EXEC'', \<lparr>ci_Set = 0, ci_Clear = connectionWatchState OR connectionMultiState\<rparr>),
     (''DISCARD'', \<lparr>ci_Set = 0, ci_Clear = connectionWatchState OR connectionMultiState\<rparr>),
     (''PSUBSCRIBE'', \<lparr>ci_Set = connectionSubscribeState, ci_Clear = 0\<rparr>),
     (''SUBSCRIBE'', \<lparr>ci_Set = connectionSubscribeState, ci_Clear = 0\<rparr>),
     (''MONITOR'', \<lparr>ci_Set = connectionMonitorState, ci_Clear = 0\<rparr>)]"

definition commandInfos :: "(string \<times> commandInfo) list" where
  "commandInfos = commandInfos_literal @ map (\<lambda>(n, ci). (ToLower n, ci)) commandInfos_literal"

definition lookupCommandInfo :: "string \<Rightarrow> commandInfo" where
  "lookupCommandInfo name =
     (case map_of commandInfos name of
        Some ci \<Rightarrow> ci
      | None \<Rightarrow> (case map_of commandInfos (ToUpper name) of Some ci \<Rightarrow> ci | None \<Rightarrow> \<lparr>ci_Set = 0, ci_Clear = 0\<rparr>))"

definition next_state :: "string \<Rightarrow> 64 word \<Rightarrow> 64 word" where
  "next_state cmd st = (let ci = lookupCommandInfo cmd in (st OR ci_Set ci) AND NOT (ci_Clear ci))"

definition handle_Do :: "string \<Rightarrow> arg list \<Rightarrow> handle \<Rightarrow> pool \<Rightarrow> ((reply \<times> redis_error option) \<times> handle \<times> pool) option" where
  "handle_Do cmd args cn p =
     (case cn of
        ErrorConn e \<Rightarrow> Some ((NilReply, Some e), cn, p)
      | ActiveConn ac \<Rightarrow>
          (case ac_pc ac of
             None \<Rightarrow> Some ((NilReply, Some EConnClosed), cn, p)
           | Some a \<Rightarrow>
               (case conn_Do cmd args (conn_at p a) of
                  None \<Rightarrow> None
                | Some (res, c) \<Rightarrow> Some (res, ActiveConn (ac\<lparr>ac_state := next_state cmd (ac_state ac)\<rparr>), set_conn a c p))))"

definition handle_Send :: "string \<Rightarrow> arg list \<Rightarrow> handle \<Rightarrow> pool \<Rightarrow> redis_error option \<times> handle \<times> pool" where
  "handle_Send cmd args cn p =
     (case cn of
        ErrorConn e \<Rightarrow> (Some e, cn, p)
      | ActiveConn ac \<Rightarrow>
          (case ac_pc ac of
             None \<Rightarrow> (Some EConnClosed, cn, p)
           | Some a \<Rightarrow> (let (e, c) = conn_Send cmd args (conn_at p a)
                       in (e, ActiveConn (ac\<lparr>ac_state := next_state cmd (ac_state ac)\<rparr>), set_conn a c p))))"

definition handle_Flush :: "handle \<Rightarrow> pool \<Rightarrow> redis_error option \<times> pool" where
  "handle_Flush cn p =
     (case cn of
        ErrorConn e \<Rightarrow> (Some e, p)
      | ActiveConn ac \<Rightarrow>
          (case ac_pc ac of
             None \<Rightarrow> (Some EConnClosed, p)
           | Some a \<Rightarrow> (let (e, c) = conn_Flush (conn_at p a) in (e, set_conn a c p))))"

definition handle_Receive :: "handle \<Rightarrow> pool \<Rightarrow> ((redis_error + reply) \<times> pool) option" where
  "handle_Receive cn p =
     (case cn of
        ErrorConn e \<Rightarrow> Some (Inl e, p)
      | ActiveConn ac \<Rightarrow>
          (case ac_pc ac of
             None \<Rightarrow> Some (Inl EConnClosed, p)
           | Some a \<Rightarrow> map_option (\<lambda>(r, c). (r, set_conn a c p)) (conn_Receive (conn_at p a))))"

definition handle_Err :: "handle \<Rightarrow> pool \<Rightarrow> redis_error option" where
  "handle_Err cn p =
     (case cn of
        ErrorConn e \<Rightarrow> Some e
      | ActiveConn ac \<Rightarrow> (case ac_pc ac of None \<Rightarrow> Some EConnClosed | Some a \<Rightarrow> rerr (conn_at p a)))"

text \<open>
  Returning a subscribed connection: unsubscribe, ask for an echo of the sentinel and read until it arrives.
  Every reply that is read shortens the input.
\<close>

function drain :: "string \<Rightarrow> rconn \<Rightarrow> (bool \<times> rconn) option" where
  "drain sent c =
     (case conn_Receive c of
        None \<Rightarrow> None
      | Some (Inl e, c1) \<Rightarrow> Some (False, c1)
      | Some (Inr r, c1) \<Rightarrow> if r = BulkStr sent then Some (True, c1) else drain sent c1)"
  by pat_completeness auto

termination by (relation "measure (\<lambda>(s, c). length (incoming c))") (auto dest: conn_Receive_shorter)

declare drain.simps [simp del]

definition unsubscribe :: "string \<Rightarrow> rconn \<Rightarrow> (bool \<times> rconn) option" where
  "unsubscribe sent c =
     (let c1 = snd (conn_Send ''UNSUBSCRIBE'' [] c); c2 = snd (conn_Send ''PUNSUBSCRIBE'' [] c1);
          c3 = snd (conn_Send ''ECHO'' [ABytes sent] c2); c4 = snd (conn_Flush c3)
      in drain sent c4)"

definition leave_multi :: "64 word \<Rightarrow> rconn \<Rightarrow> 64 word \<times> rconn" where
  "leave_multi st c =
     (if st AND connectionMultiState \<noteq> 0
      then (st AND NOT (connectionMultiState OR connectionWatchState), snd (conn_Send ''DISCARD'' [] c))
      else if st AND connectionWatchState \<noteq> 0
      then (st AND NOT connectionWatchState, snd (conn_Send ''UNWATCH'' [] c))
      else (st, c))"

definition leave_subscribed :: "string \<Rightarrow> 64 word \<Rightarrow> rconn \<Rightarrow> (64 word \<times> rconn) option" where
  "leave_subscribed sent st c =
     (if st AND connectionSubscribeState = 0 then Some (st, c)
      else case unsubscribe sent c of
             None \<Rightarrow> None
           | Some (ended, c1) \<Rightarrow> Some (if ended then st AND NOT connectionSubscribeState else st, c1))"

definition handle_Close :: "handle \<Rightarrow> pool \<Rightarrow> (handle \<times> pool) option" where
  "handle_Close cn p =
     (case cn of
        ErrorConn e \<Rightarrow> Some (cn, p)
      | ActiveConn ac \<Rightarrow>
          (case ac_pc ac of
             None \<Rightarrow> Some (cn, p)
           | Some a \<Rightarrow>
               (let (st1, c1) = leave_multi (ac_state ac) (conn_at p a)
                in case leave_subscribed (sentinel p) st1 c1 of
                     None \<Rightarrow> None
                   | Some (st2, c2) \<Rightarrow>
                       (case conn_Do [] [] c2 of
                          None \<Rightarrow> None
                        | Some (_, c3) \<Rightarrow>
                            map_option (Pair (ActiveConn \<lparr>ac_pc = None, ac_state = st2\<rparr>))
                              (pool_put a (st2 \<noteq> 0 \<or> rerr c3 \<noteq> None) (set_conn a c3 p))))))"

section \<open>The invariant of a pool\<close>

text \<open>
  \<open>xs\<close> are the idle objects and \<open>B\<close> the ones handed out.  They are different objects with different sockets, they are what
  the counter counts, and a socket that none of them has is shut.
\<close>

definition sockets :: "pool \<Rightarrow> nat set \<Rightarrow> nat set" where
  "sockets p A = (\<lambda>a. pc_c (nodes p ! a)) ` A"

definition pool_ok :: "pool \<Rightarrow> nat list \<Rightarrow> nat set \<Rightarrow> bool" where
  "pool_ok p xs B =
     (idle_rel (pool_idle p, nodes p) xs \<and> finite B \<and> set xs \<inter> B = {} \<and>
      (\<forall>a\<in>set xs \<union> B. a < length (nodes p) \<and> pc_c (nodes p ! a) < length (conns p)) \<and>
      inj_on (\<lambda>a. pc_c (nodes p ! a)) (set xs \<union> B) \<and>
      pool_active p = int (length xs + card B) \<and>
      (\<forall>i<length (conns p). conn_wf (conns p ! i) \<and> (\<not> shut (conns p ! i) \<longrightarrow> i \<in> sockets p (set xs \<union> B))) \<and>
      (pool_closed p \<longrightarrow> xs = []))"

definition pool_inv :: "pool \<Rightarrow> nat list \<Rightarrow> nat set \<Rightarrow> bool" where
  "pool_inv p xs B = (pool_ok p xs B \<and> int (length xs) \<le> MaxIdle p \<and> (MaxActive p > 0 \<longrightarrow> pool_active p \<le> MaxActive p))"

text \<open>What no operation but \<^verbatim>\<open>Close\<close> of the pool changes.\<close>

definition config :: "pool \<Rightarrow> string \<times> int \<times> int \<times> int \<times> int \<times> bool \<times> int \<times> string" where
  "config p = (pool_auth p, MaxIdle p, MaxActive p, IdleTimeout p, MaxConnLifetime p, pool_closed p, pool_now p, sentinel p)"

lemma config_simps [simp]:
  "config (p\<lparr>conns := x\<rparr>) = config p" "config (p\<lparr>nodes := h\<rparr>) = config p" "config (p\<lparr>pool_idle := l\<rparr>) = config p"
  "config (p\<lparr>pool_active := n\<rparr>) = config p" "config (p\<lparr>dials := d\<rparr>) = config p" "config (set_conn a c p) = config p"
  "config (close_conn a p) = config p" "config (drop_conn a p) = config p"
  by (simp_all add: config_def set_conn_def close_conn_def drop_conn_def)

lemma configD: "config p' = config p \<Longrightarrow> MaxIdle p' = MaxIdle p \<and> MaxActive p' = MaxActive p \<and> IdleTimeout p' = IdleTimeout p \<and>
    MaxConnLifetime p' = MaxConnLifetime p \<and> pool_closed p' = pool_closed p \<and> pool_now p' = pool_now p \<and> sentinel p' = sentinel p \<and> pool_auth p' = pool_auth p"
  by (simp add: config_def)

lemma same_payload_pc:
  assumes "same_payload h h'" "a < length h"
  shows "pc_c (h' ! a) = pc_c (h ! a) \<and> pc_t (h' ! a) = pc_t (h ! a) \<and> pc_created (h' ! a) = pc_created (h ! a)"
proof -
  from assms have "clear_links (h' ! a) = clear_links (h ! a)" by (simp add: same_payload_def)
  then show ?thesis by (cases "h ! a"; cases "h' ! a") (simp add: clear_links_def)
qed

lemma pool_ok_nodes:
  assumes "pool_ok p xs B" "same_payload (nodes p) h" "idle_rel (l, h) ys" "set ys \<union> C = set xs \<union> B" "set ys \<inter> C = {}"
    "length ys + card C = length xs + card B" "finite C" "pool_closed p \<Longrightarrow> ys = []"
  shows "pool_ok (p\<lparr>pool_idle := l, nodes := h\<rparr>) ys C"
proof -
  have pc: "pc_c (h ! a) = pc_c (nodes p ! a)" if "a \<in> set xs \<union> B" for a
    using assms(1) that same_payload_pc[OF assms(2), of a] by (simp add: pool_ok_def)
  have "inj_on (\<lambda>a. pc_c (h ! a)) (set xs \<union> B)"
    using assms(1) pc unfolding pool_ok_def by (subst inj_on_cong[of _ _ "\<lambda>a. pc_c (nodes p ! a)"]) auto
  moreover have "(\<lambda>a. pc_c (h ! a)) ` (set xs \<union> B) = (\<lambda>a. pc_c (nodes p ! a)) ` (set xs \<union> B)"
    by (intro image_cong refl) (rule pc)
  ultimately show ?thesis using assms pc same_payload_length[OF assms(2)] by (simp add: pool_ok_def sockets_def)
qed

lemma idle_rel_distinct: "idle_rel lh xs \<Longrightarrow> distinct xs"
  by (auto simp: idle_rel_def split: prod.splits)

lemma pool_ok_popFront:
  assumes "pool_ok p (a # xs) B"
  shows "\<exists>p1. with_idle popFront p = Some p1 \<and> pool_ok p1 xs (insert a B) \<and> config p1 = config p \<and> dials p1 = dials p \<and>
    conns p1 = conns p \<and> same_payload (nodes p) (nodes p1) \<and> pool_active p1 = pool_active p"
proof -
  from assms have i: "idle_rel (pool_idle p, nodes p) (a # xs)" by (simp add: pool_ok_def)
  then obtain l h where r: "popFront (pool_idle p, nodes p) = Some (l, h)" "idle_rel (l, h) xs" "same_payload (nodes p) h"
    using popFront_refines by fastforce
  have "pool_ok (p\<lparr>pool_idle := l, nodes := h\<rparr>) xs (insert a B)"
    using assms idle_rel_distinct[OF i] r by (intro pool_ok_nodes[of p "a # xs" B]) (auto simp: pool_ok_def)
  with r show ?thesis by (simp add: with_idle_def)
qed

lemma pool_ok_popBack:
  assumes "pool_ok p (xs @ [a]) B"
  shows "\<exists>p1. with_idle popBack p = Some p1 \<and> pool_ok p1 xs (insert a B) \<and> config p1 = config p \<and> dials p1 = dials p \<and>
    conns p1 = conns p \<and> same_payload (nodes p) (nodes p1) \<and> pool_active p1 = pool_active p"
proof -
  from assms have i: "idle_rel (pool_idle p, nodes p) (xs @ [a])" by (simp add: pool_ok_def)
  then obtain l h where r: "popBack (pool_idle p, nodes p) = Some (l, h)" "idle_rel (l, h) xs" "same_payload (nodes p) h"
    using popBack_refines by fastforce
  have "pool_ok (p\<lparr>pool_idle := l, nodes := h\<rparr>) xs (insert a B)"
    using assms idle_rel_distinct[OF i] r by (intro pool_ok_nodes[of p "xs @ [a]" B]) (auto simp: pool_ok_def)
  with r show ?thesis by (simp add: with_idle_def)
qed

lemma pool_ok_pushFront:
  assumes "pool_ok p xs (insert a B)" "a \<notin> B" "\<not> pool_closed p"
  shows "\<exists>p1. with_idle (pushFront a) p = Some p1 \<and> pool_ok p1 (a # xs) B \<and> config p1 = config p \<and> dials p1 = dials p \<and>
    conns p1 = conns p \<and> pool_active p1 = pool_active p"
proof -
  from assms have i: "idle_rel (pool_idle p, nodes p) xs" "a < length (nodes p)" "a \<notin> set xs" by (auto simp: pool_ok_def)
  then obtain l h where r: "pushFront a (pool_idle p, nodes p) = Some (l, h)" "idle_rel (l, h) (a # xs)" "same_payload (nodes p) h"
    using pushFront_refines[of "(pool_idle p, nodes p)" xs a] by fastforce
  have "pool_ok (p\<lparr>pool_idle := l, nodes := h\<rparr>) (a # xs) B"
    using assms i r by (intro pool_ok_nodes[of p xs "insert a B"]) (auto simp: pool_ok_def)
  with r show ?thesis by (simp add: with_idle_def)
qed

lemma pool_ok_set_conn:
  assumes "pool_ok p xs B" "a \<in> set xs \<union> B" "conn_wf c"
  shows "pool_ok (set_conn a c p) xs B"
  using assms by (auto simp: pool_ok_def set_conn_def sockets_def nth_list_update)

lemma pool_ok_conn_wf: "pool_ok p xs B \<Longrightarrow> a \<in> set xs \<union> B \<Longrightarrow> conn_wf (conn_at p a)"
  by (auto simp: pool_ok_def conn_at_def)

lemma pool_ok_drop:
  assumes "pool_ok p xs (insert a B)" "a \<notin> B"
  shows "pool_ok (drop_conn a p) xs B"
proof -
  let ?c = "snd (conn_close (conn_at p a))"
  have wf: "conn_wf (conn_at p a)" using assms(1) by (rule pool_ok_conn_wf) simp
  have "a \<notin> set xs" using assms by (auto simp: pool_ok_def)
  moreover have "i \<in> sockets p (set xs \<union> B)" if "i \<in> sockets p (set xs \<union> insert a B)" "i \<noteq> pc_c (nodes p ! a)" for i
    using that by (auto simp: sockets_def)
  moreover have "pc_c (nodes p ! a) < length (conns p)" using assms(1) by (simp add: pool_ok_def)
  ultimately show ?thesis using assms conn_close_shut[OF wf]
    by (simp add: pool_ok_def drop_conn_def close_conn_def set_conn_def nth_list_update sockets_def inj_on_insert) blast
qed

lemma pool_ok_back: "pool_ok p xs B \<Longrightarrow> il_back (pool_idle p) = (if xs = [] then None else Some (last xs))"
  by (auto simp: pool_ok_def idle_rel_def ends_def)

lemma pool_ok_front: "pool_ok p xs B \<Longrightarrow> il_front (pool_idle p) = (if xs = [] then None else Some (hd xs))"
  by (auto simp: pool_ok_def idle_rel_def ends_def)

lemma pool_ok_count: "pool_ok p xs B \<Longrightarrow> il_count (pool_idle p) = int (length xs)"
  by (auto simp: pool_ok_def idle_rel_def)

lemma pool_ok_active: "pool_ok p xs B \<Longrightarrow> pool_active p = int (length xs + card B)"
  by (simp add: pool_ok_def)

lemma pool_ok_disjoint: "pool_ok p xs B \<Longrightarrow> a \<in> set xs \<Longrightarrow> a \<notin> B"
  by (auto simp: pool_ok_def)

lemma prune_ok:
  assumes "pool_ok p xs B"
  shows "\<exists>p' ys. prune k p = Some p' \<and> pool_ok p' ys B \<and> prefix ys xs \<and> config p' = config p \<and> dials p' = dials p"
  using assms
proof (induction k arbitrary: p xs)
  case 0
  then show ?case by auto
next
  case (Suc k)
  show ?case
  proof (cases "xs = [] \<or> \<not> pc_t (nodes p ! last xs) + IdleTimeout p < pool_now p")
    case True
    with Suc.prems show ?thesis using pool_ok_back[OF Suc.prems] by (intro exI[of _ p] exI[of _ xs]) auto
  next
    case False
    then obtain ys a where xs: "xs = ys @ [a]" by (cases xs rule: rev_cases) auto
    with pool_ok_popBack[of p ys a B] Suc.prems obtain p1 where
      p1: "with_idle popBack p = Some p1" "pool_ok p1 ys (insert a B)" "config p1 = config p" "dials p1 = dials p" by blast
    have "a \<notin> B" using pool_ok_disjoint[OF Suc.prems, of a] xs by simp
    then have "pool_ok (drop_conn a p1) ys B" using p1(2) by (intro pool_ok_drop)
    from Suc.IH[OF this] obtain p' zs where
      r: "prune k (drop_conn a p1) = Some p'" "pool_ok p' zs B" "prefix zs ys" "config p' = config (drop_conn a p1)" "dials p' = dials (drop_conn a p1)" by blast
    have "dials (drop_conn a p1) = dials p1" by (simp add: drop_conn_def close_conn_def set_conn_def)
    moreover have "prune (Suc k) p = Some p'" using False xs p1(1) r(1) pool_ok_back[OF Suc.prems] by simp
    ultimately show ?thesis using r p1 xs by (intro exI[of _ p'] exI[of _ zs]) (auto simp: prefix_append)
  qed
qed

lemma TestOnBorrow_ok:
  assumes "pool_ok p xs B" "a \<in> set xs \<union> B" "TestOnBorrow a p = Some (e, p')"
  shows "pool_ok p' xs B \<and> config p' = config p \<and> dials p' = dials p"
proof (cases "pool_now p - pc_t (nodes p ! a) < minute")
  case True
  with assms show ?thesis by (simp add: TestOnBorrow_def)
next
  case False
  with assms(3) obtain r c where c: "conn_Do ''PING'' [] (conn_at p a) = Some ((r, e), c)" "p' = set_conn a c p"
    by (auto simp: TestOnBorrow_def split: option.splits)
  have "conn_wf c" using conn_wf_Do[OF pool_ok_conn_wf[OF assms(1,2)] c(1)] .
  with c pool_ok_set_conn[OF assms(1,2)] show ?thesis by (simp add: set_conn_def config_def)
qed

lemma borrow_ok:
  assumes "pool_ok p xs B" "length xs \<le> k" "borrow k p = Some (r, p')"
  shows "config p' = config p \<and> dials p' = dials p \<and>
    (case r of None \<Rightarrow> pool_ok p' [] B | Some a \<Rightarrow> a \<notin> B \<and> (\<exists>ys. pool_ok p' ys (insert a B) \<and> suffix (a # ys) xs))"
  using assms
proof (induction k arbitrary: p xs)
  case 0
  then show ?case using pool_ok_front[OF 0(1)] by (auto simp: borrow.simps[of 0 p])
next
  case (Suc k)
  show ?case
  proof (cases xs)
    case Nil
    with Suc.prems show ?thesis using pool_ok_front[OF Suc.prems(1)] by (auto simp: borrow.simps[of "Suc k" p])
  next
    case (Cons a ys)
    with pool_ok_popFront[of p a ys B] Suc.prems(1) obtain p1 where
      p1: "with_idle popFront p = Some p1" "pool_ok p1 ys (insert a B)" "config p1 = config p" "dials p1 = dials p" by blast
    have a: "a \<notin> B" using pool_ok_disjoint[OF Suc.prems(1), of a] Cons by simp
    have front: "il_front (pool_idle p) = Some a" using pool_ok_front[OF Suc.prems(1)] Cons by simp
    from Suc.prems(3) front p1(1) obtain e p2 where t: "TestOnBorrow a p1 = Some (e, p2)"
      by (auto simp: borrow.simps[of "Suc k" p] split: option.splits)
    have p2: "pool_ok p2 ys (insert a B)" "config p2 = config p" "dials p2 = dials p"
      using TestOnBorrow_ok[OF p1(2) _ t] p1 by auto
    show ?thesis
    proof (cases "e = None \<and> (MaxConnLifetime p2 = 0 \<or> pool_now p2 - pc_created (nodes p2 ! a) < MaxConnLifetime p2)")
      case True
      with Suc.prems(3) front p1(1) t have "r = Some a" "p' = p2" by (auto simp: borrow.simps[of "Suc k" p])
      with p2 a Cons show ?thesis by auto
    next
      case False
      have ok: "pool_ok (drop_conn a p2) ys B" using p2(1) a by (rule pool_ok_drop)
      have "borrow k (drop_conn a p2) = Some (r, p')"
        using Suc.prems(3) front p1(1) t False by (simp add: borrow.simps[of "Suc k" p] del: de_Morgan_conj)
      from Suc.IH[OF ok _ this] Suc.prems(2) Cons
      have ih: "config p' = config (drop_conn a p2) \<and> dials p' = dials (drop_conn a p2) \<and>
        (case r of None \<Rightarrow> pool_ok p' [] B | Some b \<Rightarrow> b \<notin> B \<and> (\<exists>zs. pool_ok p' zs (insert b B) \<and> suffix (b # zs) ys))" by simp
      have d: "dials (drop_conn a p2) = dials p2" by (simp add: drop_conn_def close_conn_def set_conn_def)
      have "suffix zs xs" if "suffix zs ys" for zs using that Cons by (auto simp: suffix_Cons)
      with ih d p2 show ?thesis by (auto split: option.splits)
    qed
  qed
qed

lemma pool_ok_add_shut:
  assumes "pool_ok p xs B" "conn_wf c" "shut c"
  shows "pool_ok (p\<lparr>dials := ds, conns := conns p @ [c]\<rparr>) xs B"
  using assms unfolding pool_ok_def sockets_def by (auto simp: nth_append less_Suc_eq)

lemma pool_ok_add_new:
  assumes "pool_ok p xs B" "conn_wf c" "pc_c n = length (conns p)"
  shows "pool_ok (p\<lparr>pool_active := pool_active p + 1, dials := ds, conns := conns p @ [c], nodes := nodes p @ [n]\<rparr>) xs (insert (length (nodes p)) B)"
proof -
  have r: "a < length (nodes p)" "pc_c (nodes p ! a) < length (conns p)" if "a \<in> set xs \<union> B" for a
    using assms(1) that by (auto simp: pool_ok_def)
  have nn: "length (nodes p) \<notin> set xs \<union> B" using r by blast
  have nth: "(nodes p @ [n]) ! a = nodes p ! a" if "a \<in> set xs \<union> B" for a using r[OF that] by (simp add: nth_append)
  have "linked (nodes p @ [n]) None xs = linked (nodes p) None xs" using r(1) by (intro linked_append) auto
  then have idle: "idle_rel (pool_idle p, nodes p @ [n]) xs" using assms(1) by (simp add: pool_ok_def idle_rel_def)
  let ?f = "\<lambda>a. pc_c ((nodes p @ [n]) ! a)" and ?A = "set xs \<union> B"
  have img: "?f ` ?A = (\<lambda>a. pc_c (nodes p ! a)) ` ?A" by (intro image_cong refl) (simp add: nth)
  have "inj_on ?f ?A" using assms(1) nth unfolding pool_ok_def by (subst inj_on_cong[of _ _ "\<lambda>a. pc_c (nodes p ! a)"]) auto
  moreover have "?f (length (nodes p)) \<notin> ?f ` ?A" using r(2) assms(3) unfolding img by force
  moreover have "?A - {length (nodes p)} = ?A" using nn by blast
  ultimately have inj: "inj_on ?f (set xs \<union> insert (length (nodes p)) B)" unfolding Un_insert_right inj_on_insert by simp
  have "\<not> shut ((conns p @ [c]) ! i) \<longrightarrow> i \<in> ?f ` (set xs \<union> insert (length (nodes p)) B)" if "i < Suc (length (conns p))" for i
  proof (cases "i = length (conns p)")
    case True
    then show ?thesis using assms(3) by (auto simp: image_iff)
  next
    case False
    with that have "i < length (conns p)" by simp
    then have "\<not> shut (conns p ! i) \<longrightarrow> i \<in> ?f ` ?A" using assms(1) unfolding img by (simp add: pool_ok_def sockets_def)
    with \<open>i < length (conns p)\<close> show ?thesis by (auto simp: nth_append)
  qed
  with idle inj assms nn r nth show ?thesis
    by (auto simp: pool_ok_def sockets_def nth_append less_Suc_eq)
qed

text \<open>What a dial leaves: nothing new, a socket that is shut again, or a new socket.\<close>

lemma dial_cases:
  assumes "dial p = Some (r, p1)"
  obtains e where "r = Inl e" "p1 = p"
  | e ds where "r = Inl e" "p1 = p\<lparr>dials := ds\<rparr>"
  | e ds c where "r = Inl e" "p1 = p\<lparr>dials := ds, conns := conns p @ [c]\<rparr>" "conn_wf c" "shut c"
  | ds c where "r = Inr (length (conns p))" "p1 = p\<lparr>dials := ds, conns := conns p @ [c]\<rparr>" "conn_wf c"
proof (cases "dials p")
  case Nil
  with assms that(1) show ?thesis by (auto simp: dial_def)
next
  case (Cons d ds)
  show ?thesis
  proof (cases d)
    case None
    with Cons assms that(2) show ?thesis by (auto simp: dial_def)
  next
    case (Some ni)
    obtain n input where ni: "ni = (n, input)" by (cases ni)
    with assms Cons Some obtain q e c where c: "conn_Do ''AUTH'' [AString (pool_auth p)] (dialled n input) = Some ((q, e), c)"
      by (auto simp: dial_def split: option.splits)
    have wf: "conn_wf c" using conn_wf_dialled c by (rule conn_wf_Do)
    show ?thesis
    proof (cases e)
      case None
      with assms Cons Some ni c have "r = Inr (length (conns p))" "p1 = p\<lparr>dials := ds, conns := conns p @ [c]\<rparr>" by (auto simp: dial_def)
      with that(4) wf show ?thesis by blast
    next
      case (Some err)
      with assms Cons \<open>d = Some ni\<close> ni c have "r = Inl err" "p1 = p\<lparr>dials := ds, conns := conns p @ [snd (conn_close c)]\<rparr>" by (auto simp: dial_def)
      with that(3) conn_close_shut[OF wf] show ?thesis by blast
    qed
  qed
qed

lemma pool_new_ok:
  assumes "pool_inv p xs B" "pool_new p = Some (r, p')"
  shows "config p' = config p \<and> (case r of Inl e \<Rightarrow> pool_inv p' xs B | Inr a \<Rightarrow> a \<notin> B \<and> pool_inv p' xs (insert a B))"
proof (cases "pool_closed p \<or> MaxActive p > 0 \<and> pool_active p \<ge> MaxActive p")
  case True
  with assms show ?thesis by (auto simp: pool_new_def split: if_splits)
next
  case False
  then have ok: "pool_ok p xs B" and room: "MaxActive p > 0 \<longrightarrow> pool_active p + 1 \<le> MaxActive p" and idle: "int (length xs) \<le> MaxIdle p"
    using assms(1) by (auto simp: pool_inv_def)
  let ?p = "p\<lparr>pool_active := pool_active p + 1\<rparr>"
  obtain q p1 where d: "dial ?p = Some (q, p1)"
    and run: "(r, p') = (case q of Inl e \<Rightarrow> (Inl e, p1\<lparr>pool_active := pool_active p1 - 1\<rparr>)
      | Inr i \<Rightarrow> (Inr (length (nodes p1)), p1\<lparr>nodes := nodes p1 @ [\<lparr>pc_c = i, pc_t = 0, pc_created = pool_now p1, pc_next = None, pc_prev = None\<rparr>]\<rparr>))"
    using assms(2) False by (auto simp: pool_new_def split: if_splits option.splits sum.splits)
  show ?thesis
  proof (rule dial_cases[OF d])
    fix e assume "q = Inl e" "p1 = ?p"
    with run assms(1) show ?thesis by (simp add: config_def)
  next
    fix e ds assume "q = Inl e" "p1 = ?p\<lparr>dials := ds\<rparr>"
    moreover have "pool_ok (p\<lparr>dials := ds\<rparr>) xs B" using ok by (simp add: pool_ok_def sockets_def)
    ultimately show ?thesis using run assms(1) by (simp add: config_def pool_inv_def)
  next
    fix e ds c assume "q = Inl e" "p1 = ?p\<lparr>dials := ds, conns := conns ?p @ [c]\<rparr>" "conn_wf c" "shut c"
    with pool_ok_add_shut[OF ok, of c ds] run assms(1) show ?thesis by (simp add: config_def pool_inv_def)
  next
    fix ds c assume "q = Inr (length (conns ?p))" "p1 = ?p\<lparr>dials := ds, conns := conns ?p @ [c]\<rparr>" "conn_wf c"
    moreover have "length (nodes p) \<notin> B" using ok by (auto simp: pool_ok_def)
    ultimately show ?thesis using pool_ok_add_new[OF ok, of c _ ds] run room idle by (simp add: config_def pool_inv_def)
  qed
qed

text \<open>
  \<^verbatim>\<open>get\<close> keeps the invariant: it hands out an object that was not handed out before, or fails and hands out nothing.
\<close>

lemma pool_get_ok:
  assumes "pool_inv p xs B" "pool_get p = Some (r, p')"
  shows "config p' = config p \<and> (\<exists>ys. case r of Inl e \<Rightarrow> pool_inv p' ys B | Inr a \<Rightarrow> a \<notin> B \<and> pool_inv p' ys (insert a B))"
proof -
  have ok: "pool_ok p xs B" using assms(1) by (simp add: pool_inv_def)
  obtain p1 ys where p1: "(if IdleTimeout p > 0 then prune (nat (il_count (pool_idle p))) p else Some p) = Some p1"
    "pool_ok p1 ys B" "prefix ys xs" "config p1 = config p"
    using prune_ok[OF ok, of "nat (il_count (pool_idle p))"] ok by (cases "IdleTimeout p > 0") auto
  from assms(2) p1(1) obtain q p2 where b: "borrow (nat (il_count (pool_idle p1))) p1 = Some (q, p2)"
    by (auto simp: pool_get_def split: option.splits)
  note bo = borrow_ok[OF p1(2) _ b] pool_ok_count[OF p1(2)]
  have len: "length ys \<le> length xs" using p1(3) by (rule prefix_length_le)
  show ?thesis
  proof (cases q)
    case (Some a)
    then obtain zs where z: "a \<notin> B" "pool_ok p2 zs (insert a B)" "suffix (a # zs) ys" "config p2 = config p" using bo p1(4) by auto
    have "finite B" using ok by (simp add: pool_ok_def)
    then have "length zs + card (insert a B) \<le> length xs + card B" using suffix_length_le[OF z(3)] len z(1) by simp
    then have "pool_inv p2 zs (insert a B)"
      using z assms(1) configD[OF z(4)] pool_ok_active[OF ok] pool_ok_active[OF z(2)] suffix_length_le[OF z(3)] len
      by (auto simp: pool_inv_def)
    with assms(2) p1(1) b Some z show ?thesis by (auto simp: pool_get_def)
  next
    case None
    then have z: "pool_ok p2 [] B" "config p2 = config p" using bo p1(4) by auto
    then have "pool_inv p2 [] B"
      using assms(1) configD[OF z(2)] pool_ok_active[OF ok] pool_ok_active[OF z(1)] by (auto simp: pool_inv_def)
    moreover have "pool_new p2 = Some (r, p')" using assms(2) p1(1) b None by (simp add: pool_get_def)
    ultimately show ?thesis using pool_new_ok[of p2 "[]" B r p'] z(2) by auto
  qed
qed

lemma pool_ok_touch:
  assumes "pool_ok p xs B" "a \<in> B"
  shows "pool_ok (p\<lparr>nodes := (nodes p)[a := (nodes p ! a)\<lparr>pc_t := t\<rparr>]\<rparr>) xs B"
proof -
  let ?h = "(nodes p)[a := (nodes p ! a)\<lparr>pc_t := t\<rparr>]"
  have "a < length (nodes p)" using assms by (auto simp: pool_ok_def)
  then have pc: "pc_c (?h ! b) = pc_c (nodes p ! b)" for b by (cases "b = a") simp_all
  have "a \<notin> set xs" using assms by (auto simp: pool_ok_def)
  with assms show ?thesis by (simp add: pool_ok_def idle_rel_def linked_update sockets_def pc)
qed

lemma pool_put_ok:
  assumes "pool_inv p xs (insert a B)" "a \<notin> B"
  shows "\<exists>p' ys. pool_put a f p = Some p' \<and> pool_inv p' ys B \<and> config p' = config p \<and> dials p' = dials p"
proof -
  have ok: "pool_ok p xs (insert a B)" and lim: "int (length xs) \<le> MaxIdle p" "MaxActive p > 0 \<longrightarrow> pool_active p \<le> MaxActive p"
    using assms(1) by (simp_all add: pool_inv_def)
  have fin: "finite B" using ok by (simp add: pool_ok_def)
  have dr: "dials (drop_conn b q) = dials q" for b q by (simp add: drop_conn_def close_conn_def set_conn_def)
  have shrink: "pool_inv q ys B" if "pool_ok q ys B" "config q = config p" "int (length ys) \<le> MaxIdle p" "length ys \<le> Suc (length xs)" for q ys
    using that lim configD[OF that(2)] pool_ok_active[OF ok] pool_ok_active[OF that(1)] fin assms(2) by (auto simp: pool_inv_def)
  show ?thesis
  proof (cases "\<not> pool_closed p \<and> \<not> f")
    case False
    then show ?thesis using shrink[of "drop_conn a p" xs] pool_ok_drop[OF ok assms(2)] lim dr by (auto simp: pool_put_def)
  next
    case True
    let ?p = "p\<lparr>nodes := (nodes p)[a := (nodes p ! a)\<lparr>pc_t := pool_now p\<rparr>]\<rparr>"
    have "pool_ok ?p xs (insert a B)" using ok by (rule pool_ok_touch) simp
    then obtain p1 where p1: "with_idle (pushFront a) ?p = Some p1" "pool_ok p1 (a # xs) B" "config p1 = config p" "dials p1 = dials p"
      using pool_ok_pushFront[of ?p xs a B] assms(2) True by auto
    show ?thesis
    proof (cases "il_count (pool_idle p1) > MaxIdle p1")
      case False
      then have "int (length (a # xs)) \<le> MaxIdle p" using pool_ok_count[OF p1(2)] configD[OF p1(3)] by simp
      then show ?thesis using True False p1 shrink[OF p1(2,3)] by (auto simp: pool_put_def)
    next
      case big: True
      obtain ys b where b: "a # xs = ys @ [b]" by (metis append_butlast_last_id list.distinct(1))
      with p1(2) have "pool_ok p1 (ys @ [b]) B" by simp
      from pool_ok_popBack[OF this] obtain p2 where
        p2: "with_idle popBack p1 = Some p2" "pool_ok p2 ys (insert b B)" "config p2 = config p1" "dials p2 = dials p1" by blast
      have "b \<notin> B" using pool_ok_disjoint[OF p1(2), of b] b by (metis in_set_conv_decomp)
      then have "pool_ok (drop_conn b p2) ys B" using p2(2) by (intro pool_ok_drop)
      moreover have "length ys = length xs" using arg_cong[OF b, of length] by simp
      ultimately have "pool_inv (drop_conn b p2) ys B" using lim p1 p2 by (intro shrink) auto
      moreover have "il_back (pool_idle p1) = Some b" using pool_ok_back[OF p1(2)] b by (metis last_snoc list.distinct(1))
      ultimately show ?thesis using True big p1 p2 dr by (auto simp: pool_put_def)
    qed
  qed
qed

text \<open>Closing the pool closes the chain of idle connections.\<close>

lemma close_chain_ok:
  assumes "linked (nodes p) q ys" "length ys \<le> k"
  shows "close_chain k (fst (ends ys)) p = fold close_conn ys p"
  using assms
proof (induction ys arbitrary: k p q)
  case Nil
  then show ?case by (simp add: ends_def)
next
  case (Cons a ys)
  then obtain k' where k: "k = Suc k'" by (cases k) auto
  have n: "nodes (close_conn a p) = nodes p" by (simp add: close_conn_def set_conn_def)
  have "pc_next (nodes p ! a) = fst (ends ys)" "linked (nodes p) (if ys = [] then q else Some a) ys"
    using Cons.prems(1) by (cases ys; simp add: ends_def)+
  with Cons.IH[of "close_conn a p" "if ys = [] then q else Some a" k'] Cons.prems(2) k n show ?case by (simp add: ends_def)
qed

lemma fold_close_active:
  "fold close_conn ys (p\<lparr>pool_active := n\<rparr>) = (fold close_conn ys p)\<lparr>pool_active := n\<rparr>"
proof (induction ys arbitrary: p)
  case (Cons a ys)
  have "close_conn a (p\<lparr>pool_active := n\<rparr>) = (close_conn a p)\<lparr>pool_active := n\<rparr>"
    by (simp add: close_conn_def set_conn_def conn_at_def)
  with Cons.IH show ?case by simp
qed simp

lemma fold_drop_close:
  "fold drop_conn ys p = (fold close_conn ys p)\<lparr>pool_active := pool_active p - int (length ys)\<rparr>"
proof (induction ys arbitrary: p)
  case (Cons a ys)
  have "fold drop_conn (a # ys) p = (fold close_conn ys (drop_conn a p))\<lparr>pool_active := pool_active (drop_conn a p) - int (length ys)\<rparr>"
    using Cons.IH[of "drop_conn a p"] by simp
  also have "fold close_conn ys (drop_conn a p) = (fold close_conn ys (close_conn a p))\<lparr>pool_active := pool_active p - 1\<rparr>"
    unfolding drop_conn_def by (rule fold_close_active)
  finally show ?case by (simp add: drop_conn_def)
qed simp

lemma fold_drop_ok:
  assumes "pool_ok p [] (set ys \<union> B)" "distinct ys" "set ys \<inter> B = {}"
  shows "pool_ok (fold drop_conn ys p) [] B \<and> pool_active (fold drop_conn ys p) = pool_active p - int (length ys) \<and> config (fold drop_conn ys p) = config p"
  using assms
proof (induction ys arbitrary: p)
  case (Cons a ys)
  have "pool_ok (drop_conn a p) [] (set ys \<union> B)" using Cons.prems by (intro pool_ok_drop) auto
  moreover have "pool_active (drop_conn a p) = pool_active p - 1" by (simp add: drop_conn_def)
  ultimately show ?case using Cons.IH[of "drop_conn a p"] Cons.prems by simp
qed simp

lemma pool_Close_ok:
  assumes "pool_inv p xs B"
  shows "pool_inv (pool_Close p) [] B \<and> pool_closed (pool_Close p) \<and> MaxActive (pool_Close p) = MaxActive p"
proof (cases "pool_closed p")
  case True
  with assms have "xs = []" by (simp add: pool_inv_def pool_ok_def)
  with True assms show ?thesis by (simp add: pool_Close_def)
next
  case False
  have ok: "pool_ok p xs B" using assms by (simp add: pool_inv_def)
  then have link: "linked (nodes p) None xs" and d: "distinct xs" and fin: "finite B" and dis: "set xs \<inter> B = {}" and rng: "set xs \<subseteq> {..<length (nodes p)}"
    by (auto simp: pool_ok_def idle_rel_def)
  let ?p1 = "p\<lparr>pool_closed := True, pool_idle := idle_empty\<rparr>" and ?n = "pool_active p - il_count (pool_idle p)"
  have "pool_ok (p\<lparr>pool_idle := idle_empty, nodes := nodes p\<rparr>) [] (set xs \<union> B)"
    using ok fin d dis by (intro pool_ok_nodes[OF ok]) (auto simp: idle_rel_def ends_def idle_empty_def card_Un_disjoint distinct_card)
  then have "pool_ok ?p1 [] (set xs \<union> B)" by (simp add: pool_ok_def sockets_def)
  from fold_drop_ok[OF this d dis]
  have f: "pool_ok (fold drop_conn xs ?p1) [] B" "pool_active (fold drop_conn xs ?p1) = ?n" "config (fold drop_conn xs ?p1) = config ?p1"
    using pool_ok_count[OF ok] by auto
  have len: "length xs \<le> length (nodes p)" using card_mono[OF _ rng] d by (simp add: distinct_card)
  have "pool_Close p = close_chain (length (nodes p)) (fst (ends xs)) (?p1\<lparr>pool_active := ?n\<rparr>)"
    using False pool_ok_front[OF ok] by (cases p) (simp add: pool_Close_def ends_def)
  also have "\<dots> = fold close_conn xs (?p1\<lparr>pool_active := ?n\<rparr>)" using link len by (intro close_chain_ok[of _ None]) auto
  also have "\<dots> = fold drop_conn xs ?p1" unfolding fold_close_active fold_drop_close using pool_ok_count[OF ok] by simp
  finally have c: "pool_Close p = fold drop_conn xs ?p1" .
  have "config (pool_Close p) = config ?p1" using c f(3) by simp
  then have cfg: "MaxIdle (pool_Close p) = MaxIdle p" "MaxActive (pool_Close p) = MaxActive p" "pool_closed (pool_Close p)"
    using configD[of "pool_Close p" ?p1] by simp_all
  have "?n \<le> pool_active p" using pool_ok_count[OF ok] by simp
  then show ?thesis using c f cfg assms by (auto simp: pool_inv_def)
qed

section \<open>Clients of a pool\<close>

text \<open>
  The objects a client holds, and every way the pool and its connections can be used: getting a connection,
  using it, closing it (also twice), closing the pool, and in between the passage of time with whatever the network offers next.
\<close>

fun held :: "handle \<Rightarrow> nat list" where
  "held (ErrorConn e) = []"
| "held (ActiveConn ac) = (case ac_pc ac of None \<Rightarrow> [] | Some a \<Rightarrow> [a])"

inductive pool_step :: "pool \<times> handle list \<Rightarrow> pool \<times> handle list \<Rightarrow> bool" where
  get: "pool_Get p = Some (cn, p') \<Longrightarrow> pool_step (p, hs) (p', hs @ [cn])"
| do: "i < length hs \<Longrightarrow> handle_Do cmd args (hs ! i) p = Some (r, cn, p') \<Longrightarrow> pool_step (p, hs) (p', hs[i := cn])"
| send: "i < length hs \<Longrightarrow> handle_Send cmd args (hs ! i) p = (e, cn, p') \<Longrightarrow> pool_step (p, hs) (p', hs[i := cn])"
| flush: "i < length hs \<Longrightarrow> handle_Flush (hs ! i) p = (e, p') \<Longrightarrow> pool_step (p, hs) (p', hs)"
| receive: "i < length hs \<Longrightarrow> handle_Receive (hs ! i) p = Some (r, p') \<Longrightarrow> pool_step (p, hs) (p', hs)"
| close: "i < length hs \<Longrightarrow> handle_Close (hs ! i) p = Some (cn, p') \<Longrightarrow> pool_step (p, hs) (p', hs[i := cn])"
| close_pool: "pool_step (p, hs) (pool_Close p, hs)"
| time: "pool_now p \<le> t \<Longrightarrow> pool_step (p, hs) (p\<lparr>pool_now := t, dials := ds\<rparr>, hs)"

inductive_cases pool_stepE: "pool_step (p, hs) (p', hs')"

definition all_held :: "handle list \<Rightarrow> nat list" where
  "all_held hs = concat (map held hs)"

definition client_inv :: "pool \<times> handle list \<Rightarrow> bool" where
  "client_inv = (\<lambda>(p, hs). distinct (all_held hs) \<and> (\<exists>xs. pool_inv p xs (set (all_held hs))))"

lemma all_held_update_same: "i < length hs \<Longrightarrow> held cn = held (hs ! i) \<Longrightarrow> all_held (hs[i := cn]) = all_held hs"
  unfolding all_held_def by (metis list_update_id map_update)

lemma all_held_update_drop:
  assumes "i < length hs" "held (hs ! i) = [a]" "held cn = []" "distinct (all_held hs)"
  shows "distinct (all_held (hs[i := cn])) \<and> set (all_held (hs[i := cn])) = set (all_held hs) - {a} \<and> a \<in> set (all_held hs)"
proof -
  have hs: "hs = take i hs @ hs ! i # drop (Suc i) hs" using assms(1) by (rule id_take_nth_drop)
  have u: "hs[i := cn] = take i hs @ cn # drop (Suc i) hs" using assms(1) by (rule upd_conv_take_nth_drop)
  have h: "all_held hs = all_held (take i hs) @ a # all_held (drop (Suc i) hs)"
    unfolding all_held_def using assms(2) by (subst hs) simp
  have "all_held (hs[i := cn]) = all_held (take i hs) @ all_held (drop (Suc i) hs)"
    unfolding u all_held_def using assms(3) by simp
  with h assms(4) show ?thesis by auto
qed

lemma pool_inv_set_conn: "pool_inv p xs B \<Longrightarrow> a \<in> B \<Longrightarrow> conn_wf c \<Longrightarrow> pool_inv (set_conn a c p) xs B"
  using pool_ok_set_conn[of p xs B a c] by (simp add: pool_inv_def) (simp add: set_conn_def)

lemma pool_inv_conn_wf: "pool_inv p xs B \<Longrightarrow> a \<in> B \<Longrightarrow> conn_wf (conn_at p a)"
  using pool_ok_conn_wf[of p xs B a] by (simp add: pool_inv_def)

lemma drain_wf: "conn_wf c \<Longrightarrow> drain sent c = Some (b, c') \<Longrightarrow> conn_wf c'"
proof (induction sent c rule: drain.induct)
  case (1 sent c)
  from "1.prems"(2) obtain q c1 where q: "conn_Receive c = Some (q, c1)" by (auto simp: drain.simps[of sent c] split: option.splits)
  have wf: "conn_wf c1" using "1.prems"(1) q by (rule conn_wf_Receive)
  show ?case
  proof (cases q)
    case (Inl e)
    with "1.prems"(2) q wf show ?thesis by (simp add: drain.simps[of sent c])
  next
    case (Inr r)
    show ?thesis
    proof (cases "r = BulkStr sent")
      case True
      with "1.prems"(2) q Inr wf show ?thesis by (simp add: drain.simps[of sent c])
    next
      case False
      with "1.prems"(2) q Inr have "drain sent c1 = Some (b, c')" by (simp add: drain.simps[of sent c])
      with "1.IH"[OF q refl Inr False wf] show ?thesis .
    qed
  qed
qed

lemma leave_multi_wf: "conn_wf c \<Longrightarrow> leave_multi st c = (st', c') \<Longrightarrow> conn_wf c'"
  by (auto simp: leave_multi_def conn_wf_rules split: if_splits)

lemma leave_subscribed_wf: "conn_wf c \<Longrightarrow> leave_subscribed sent st c = Some (st', c') \<Longrightarrow> conn_wf c'"
  by (auto simp: leave_subscribed_def unsubscribe_def Let_def split: if_splits option.splits
      dest!: drain_wf[rotated] intro: conn_wf_Flush conn_wf_Send)

text \<open>Closing a handle returns its object to the pool, whatever state the connection is in.\<close>

lemma handle_Close_ok:
  assumes "pool_inv p xs (set (held cn) \<union> B)" "set (held cn) \<inter> B = {}" "handle_Close cn p = Some (cn', p')"
  shows "held cn' = [] \<and> config p' = config p \<and> dials p' = dials p \<and> (\<exists>ys. pool_inv p' ys B)"
proof (cases "held cn")
  case Nil
  with assms show ?thesis by (cases cn) (auto simp: handle_Close_def split: option.splits)
next
  case (Cons a rest)
  then obtain ac where cn: "cn = ActiveConn ac" "ac_pc ac = Some a" by (cases cn) (auto split: option.splits)
  obtain st1 c1 where m: "leave_multi (ac_state ac) (conn_at p a) = (st1, c1)" by fastforce
  from assms(3) cn m obtain st2 c2 where l: "leave_subscribed (sentinel p) st1 c1 = Some (st2, c2)"
    by (auto simp: handle_Close_def split: option.splits)
  from assms(3) cn m l obtain r c3 where d: "conn_Do [] [] c2 = Some (r, c3)"
    by (auto simp: handle_Close_def split: option.splits)
  have inv: "pool_inv p xs (insert a B)" and a: "a \<notin> B" using assms(1,2) cn by auto
  have "conn_wf (conn_at p a)" using inv by (rule pool_inv_conn_wf) simp
  then have "conn_wf c3" using conn_wf_Do[OF leave_subscribed_wf[OF leave_multi_wf[OF _ m] l] d] by blast
  then have "pool_inv (set_conn a c3 p) xs (insert a B)" using inv by (intro pool_inv_set_conn) auto
  from pool_put_ok[OF this a, of "st2 \<noteq> 0 \<or> rerr c3 \<noteq> None"] obtain q ys where
    q: "pool_put a (st2 \<noteq> 0 \<or> rerr c3 \<noteq> None) (set_conn a c3 p) = Some q" "pool_inv q ys B" "config q = config p" "dials q = dials p"
    by (auto simp: set_conn_def)
  with assms(3) cn m l d show ?thesis by (auto simp: handle_Close_def)
qed

lemma handle_use_ok:
  assumes "pool_inv p xs B" "set (held cn) \<subseteq> B"
  shows "handle_Do cmd args cn p = Some (r, cn', p') \<Longrightarrow> pool_inv p' xs B \<and> held cn' = held cn \<and> config p' = config p"
    and "handle_Send cmd args cn p = (e, cn', p') \<Longrightarrow> pool_inv p' xs B \<and> held cn' = held cn \<and> config p' = config p"
    and "handle_Flush cn p = (e, p') \<Longrightarrow> pool_inv p' xs B \<and> config p' = config p"
    and "handle_Receive cn p = Some (rr, p') \<Longrightarrow> pool_inv p' xs B \<and> config p' = config p"
proof -
  have set_ok: "pool_inv (set_conn a c p) xs B" if "a \<in> B" "conn_wf c" for a c using assms(1) that by (rule pool_inv_set_conn)
  have wf: "conn_wf (conn_at p a)" if "a \<in> B" for a using assms(1) that by (rule pool_inv_conn_wf)
  show "handle_Do cmd args cn p = Some (r, cn', p') \<Longrightarrow> pool_inv p' xs B \<and> held cn' = held cn \<and> config p' = config p"
    using assms by (auto simp: handle_Do_def split: handle.splits option.splits intro!: set_ok intro: conn_wf_Do wf)
  show "handle_Send cmd args cn p = (e, cn', p') \<Longrightarrow> pool_inv p' xs B \<and> held cn' = held cn \<and> config p' = config p"
    using assms conn_wf_Send[OF wf] by (auto simp: handle_Send_def Let_def split: handle.splits option.splits prod.splits intro!: set_ok) (metis snd_conv)
  show "handle_Flush cn p = (e, p') \<Longrightarrow> pool_inv p' xs B \<and> config p' = config p"
    using assms conn_wf_Flush[OF wf] by (auto simp: handle_Flush_def Let_def split: handle.splits option.splits prod.splits intro!: set_ok) (metis snd_conv)
  show "handle_Receive cn p = Some (rr, p') \<Longrightarrow> pool_inv p' xs B \<and> config p' = config p"
    using assms by (auto simp: handle_Receive_def split: handle.splits option.splits intro!: set_ok intro: conn_wf_Receive wf)
qed

lemma pool_Get_ok:
  assumes "pool_inv p xs B" "pool_Get p = Some (cn, p')"
  shows "set (held cn) \<inter> B = {} \<and> distinct (held cn) \<and> config p' = config p \<and> (\<exists>ys. pool_inv p' ys (set (held cn) \<union> B))"
proof -
  obtain r where r: "pool_get p = Some (r, p')" "cn = (case r of Inl e \<Rightarrow> ErrorConn e | Inr a \<Rightarrow> ActiveConn \<lparr>ac_pc = Some a, ac_state = 0\<rparr>)"
    using assms(2) by (auto simp: pool_Get_def split: option.splits sum.splits)
  with pool_get_ok[OF assms(1) r(1)] show ?thesis by (auto split: sum.splits)
qed

lemma all_held_nth: "i < length hs \<Longrightarrow> set (held (hs ! i)) \<subseteq> set (all_held hs)"
  by (auto simp: all_held_def intro!: bexI[of _ "hs ! i"])

lemma held_cases: "held cn = [] \<or> (\<exists>a. held cn = [a])"
  by (cases cn) (auto split: option.splits)

lemma pool_inv_time: "pool_inv (p\<lparr>pool_now := t, dials := ds\<rparr>) xs B = pool_inv p xs B"
  by (simp add: pool_inv_def pool_ok_def sockets_def)

lemma pool_step_inv:
  assumes "pool_step s s'" "client_inv s"
  shows "client_inv s' \<and> MaxActive (fst s') = MaxActive (fst s)"
  using assms
proof (induction rule: pool_step.induct)
  case (get p cn p' hs)
  then obtain xs where "distinct (all_held hs)" "pool_inv p xs (set (all_held hs))" by (auto simp: client_inv_def)
  with pool_Get_ok[OF this(2) get(1)] show ?case by (auto simp: client_inv_def all_held_def Un_commute dest: configD)
next
  case (do i hs cmd args p r cn p')
  then obtain xs where "distinct (all_held hs)" "pool_inv p xs (set (all_held hs))" by (auto simp: client_inv_def)
  with handle_use_ok(1)[OF this(2) all_held_nth[OF do(1)] do(2)] all_held_update_same[OF do(1), of cn] show ?case
    by (auto simp: client_inv_def dest: configD)
next
  case (send i hs cmd args p e cn p')
  then obtain xs where "distinct (all_held hs)" "pool_inv p xs (set (all_held hs))" by (auto simp: client_inv_def)
  with handle_use_ok(2)[OF this(2) all_held_nth[OF send(1)] send(2)] all_held_update_same[OF send(1), of cn] show ?case
    by (auto simp: client_inv_def dest: configD)
next
  case (flush i hs p e p')
  then obtain xs where "distinct (all_held hs)" "pool_inv p xs (set (all_held hs))" by (auto simp: client_inv_def)
  with handle_use_ok(3)[OF this(2) all_held_nth[OF flush(1)] flush(2)] show ?case by (auto simp: client_inv_def dest: configD)
next
  case (receive i hs p r p')
  then obtain xs where "distinct (all_held hs)" "pool_inv p xs (set (all_held hs))" by (auto simp: client_inv_def)
  with handle_use_ok(4)[OF this(2) all_held_nth[OF receive(1)] receive(2)] show ?case by (auto simp: client_inv_def dest: configD)
next
  case (close i hs p cn p')
  then obtain xs where d: "distinct (all_held hs)" and inv: "pool_inv p xs (set (all_held hs))" by (auto simp: client_inv_def)
  let ?B = "set (all_held hs) - set (held (hs ! i))"
  have "set (held (hs ! i)) \<union> ?B = set (all_held hs)" using all_held_nth[OF close(1)] by blast
  then have c: "held cn = []" "config p' = config p" "\<exists>ys. pool_inv p' ys ?B"
    using handle_Close_ok[OF _ _ close(2), of xs ?B] inv by auto
  have "distinct (all_held (hs[i := cn])) \<and> set (all_held (hs[i := cn])) = ?B"
    using held_cases[of "hs ! i"] all_held_update_drop[OF close(1) _ c(1) d] all_held_update_same[OF close(1), of cn] c(1) d by auto
  with c show ?case by (auto simp: client_inv_def dest: configD)
next
  case (close_pool p hs)
  then show ?case using pool_Close_ok by (auto simp: client_inv_def)
next
  case (time p t hs ds)
  then show ?case by (auto simp: client_inv_def pool_inv_time)
qed

lemma pool_steps_inv:
  assumes "pool_step\<^sup>*\<^sup>* s s'" "client_inv s"
  shows "client_inv s' \<and> MaxActive (fst s') = MaxActive (fst s)"
  using assms by (induction rule: rtranclp_induct) (auto dest: pool_step_inv)

definition open_sockets :: "pool \<Rightarrow> nat set" where
  "open_sockets p = {i. i < length (conns p) \<and> \<not> shut (conns p ! i)}"

lemma open_sockets_bound:
  assumes "pool_inv p xs B" "MaxActive p > 0"
  shows "int (card (open_sockets p)) \<le> MaxActive p"
proof -
  have ok: "pool_ok p xs B" using assms by (simp add: pool_inv_def)
  then have "open_sockets p \<subseteq> sockets p (set xs \<union> B)" by (auto simp: pool_ok_def open_sockets_def)
  moreover have fin: "finite (set xs \<union> B)" using ok by (simp add: pool_ok_def)
  ultimately have "card (open_sockets p) \<le> card (set xs \<union> B)"
    unfolding sockets_def by (meson card_image_le card_mono finite_imageI le_trans)
  also have "\<dots> \<le> length xs + card B" using card_Un_le[of "set xs" B] card_length[of xs] by simp
  finally show ?thesis using assms pool_ok_active[OF ok] by (simp add: pool_inv_def)
qed

lemma held_sockets_distinct:
  assumes "client_inv (p, hs)"
  shows "distinct (map (\<lambda>a. pc_c (nodes p ! a)) (all_held hs))"
  using assms by (auto simp: client_inv_def pool_inv_def pool_ok_def distinct_map intro: inj_on_subset)

interpretation redigo: bounded_pool pool_step "\<lambda>s. client_inv s \<and> 0 < MaxActive (fst s)" "\<lambda>s. nat (MaxActive (fst s))"
  "\<lambda>s. open_sockets (fst s)" "\<lambda>s. map (\<lambda>a. pc_c (nodes (fst s) ! a)) (all_held (snd s))"
proof unfold_locales
  fix s s' :: "pool \<times> handle list"
  assume i: "client_inv s \<and> 0 < MaxActive (fst s)"
  then obtain xs where "pool_inv (fst s) xs (set (all_held (snd s)))" by (cases s) (auto simp: client_inv_def)
  with open_sockets_bound i show "card (open_sockets (fst s)) \<le> nat (MaxActive (fst s))" by fastforce
  show "distinct (map (\<lambda>a. pc_c (nodes (fst s) ! a)) (all_held (snd s)))" using held_sockets_distinct[of "fst s" "snd s"] i by simp
  show "pool_step s s' \<Longrightarrow> (client_inv s' \<and> 0 < MaxActive (fst s')) \<and> nat (MaxActive (fst s')) = nat (MaxActive (fst s))"
    using pool_step_inv[of s s'] i by simp
qed

end
