(* ===== verification/Redis_Client.thy ===== *)
theory Redis_Client
  imports Comm_Net Redis_Pool "HOL-Library.Multiset"
begin

text \<open>
  The program's use of redis (\<^verbatim>\<open>util/comm/redisUtil.go\<close>) on the pool, the connections and the wire: the pool \<^verbatim>\<open>NewPool\<close>
  configures, \<^verbatim>\<open>PublishMsg\<close> and \<^verbatim>\<open>Listen\<close> with every call they make, and the decoding of pushed
  messages (redigo's \<^verbatim>\<open>pubsub.go\<close>, and of \<^verbatim>\<open>reply.go\<close> and \<^verbatim>\<open>scan.go\<close> what it uses).  \<^verbatim>\<open>Comm_Net\<close> has the same operations as
  the rest of the program sees them.
\<close>

section \<open>The pool and publishing\<close>

definition second :: int where
  "second = 1000000000"

definition NewPool :: "RedisServer \<Rightarrow> (nat \<times> string) option list \<Rightarrow> int \<Rightarrow> string \<Rightarrow> pool" where
  "NewPool rs ds t sent = \<lparr>pool_auth = redisAuth rs, MaxIdle = 5, MaxActive = 5, IdleTimeout = 30 * second, MaxConnLifetime = 0,
     pool_closed = False, pool_active = 0, pool_idle = idle_empty, nodes = [], conns = [], dials = ds, pool_now = t, sentinel = sent\<rparr>"

definition publish_on_pool :: "string \<Rightarrow> string \<Rightarrow> pool \<Rightarrow> pool option" where
  "publish_on_pool key value p =
     (case pool_Get p of
        None \<Rightarrow> None
      | Some (cn, p1) \<Rightarrow>
          (case handle_Do ''publish'' [AString key, AString value] cn p1 of
             None \<Rightarrow> None
           | Some (_, cn1, p2) \<Rightarrow> map_option snd (handle_Close cn1 p2)))"

section \<open>Pushed messages\<close>

definition Subscribe :: "string \<Rightarrow> handle \<Rightarrow> pool \<Rightarrow> redis_error option \<times> handle \<times> pool" where
  "Subscribe channel cn p =
     (let (_, cn1, p1) = handle_Send ''SUBSCRIBE'' [AString channel] cn p; (e, p2) = handle_Flush cn1 p1 in (e, cn1, p2))"

definition PSubscribe :: "string list \<Rightarrow> handle \<Rightarrow> pool \<Rightarrow> redis_error option \<times> handle \<times> pool" where
  "PSubscribe patterns cn p =
     (let (_, cn1, p1) = handle_Send ''PSUBSCRIBE'' (map AString patterns) cn p; (e, p2) = handle_Flush cn1 p1 in (e, cn1, p2))"

definition Unsubscribe :: "string list \<Rightarrow> handle \<Rightarrow> pool \<Rightarrow> redis_error option \<times> handle \<times> pool" where
  "Unsubscribe channels cn p =
     (let (_, cn1, p1) = handle_Send ''UNSUBSCRIBE'' (map AString channels) cn p; (e, p2) = handle_Flush cn1 p1 in (e, cn1, p2))"

definition PUnsubscribe :: "string list \<Rightarrow> handle \<Rightarrow> pool \<Rightarrow> redis_error option \<times> handle \<times> pool" where
  "PUnsubscribe patterns cn p =
     (let (_, cn1, p1) = handle_Send ''PUNSUBSCRIBE'' (map AString patterns) cn p; (e, p2) = handle_Flush cn1 p1 in (e, cn1, p2))"

definition PubSub_Ping :: "string \<Rightarrow> handle \<Rightarrow> pool \<Rightarrow> redis_error option \<times> handle \<times> pool" where
  "PubSub_Ping data cn p =
     (let (_, cn1, p1) = handle_Send ''PING'' [AString data] cn p; (e, p2) = handle_Flush cn1 p1 in (e, cn1, p2))"

lemmas pubsub_defs = Subscribe_def PSubscribe_def Unsubscribe_def PUnsubscribe_def PubSub_Ping_def

definition Values :: "redis_error + reply \<Rightarrow> redis_error + reply list" where
  "Values r =
     (case r of
        Inl e \<Rightarrow> Inl e
      | Inr (ArrayReply rs) \<Rightarrow> Inr rs
      | Inr NilReply \<Rightarrow> Inl EReplyType
      | Inr (ErrorReply e) \<Rightarrow> Inl (EServer e)
      | Inr _ \<Rightarrow> Inl EReplyType)"

text \<open>
  \<^verbatim>\<open>convertAssign\<close> for the three destinations \<^verbatim>\<open>receiveInternal\<close> has: \<^verbatim>\<open>*string\<close>, \<^verbatim>\<open>*[]byte\<close> and \<^verbatim>\<open>*int\<close>.  A nil leaves the zero
  value.
\<close>

fun assign_string :: "reply \<Rightarrow> redis_error + string" where
  "assign_string NilReply = Inr []"
| "assign_string (BulkStr s) = Inr s"
| "assign_string (SimpleStr s) = Inr s"
| "assign_string (ErrorReply e) = Inl (EServer e)"
| "assign_string _ = Inl EReplyType"

definition parse_uint8 :: "string \<Rightarrow> redis_error + char" where
  "parse_uint8 s =
     (if s = [] then Inl EReplyType
      else case uint_acc 10 0 s of
             None \<Rightarrow> Inl EReplyType
           | Some n \<Rightarrow> if n \<le> 255 then Inr (char_of n) else Inl EReplyType)"

fun assign_uint8 :: "reply \<Rightarrow> redis_error + char" where
  "assign_uint8 (BulkStr s) = parse_uint8 s"
| "assign_uint8 (SimpleStr s) = parse_uint8 s"
| "assign_uint8 (IntReply i) = (if 0 \<le> i \<and> i \<le> 255 then Inr (char_of (nat i)) else Inl EReplyType)"
| "assign_uint8 _ = Inl EReplyType"

fun assign_uint8s :: "reply list \<Rightarrow> redis_error + string" where
  "assign_uint8s [] = Inr []"
| "assign_uint8s (r # rs) =
     (case assign_uint8 r of
        Inl e \<Rightarrow> Inl e
      | Inr c \<Rightarrow> (case assign_uint8s rs of Inl e \<Rightarrow> Inl e | Inr cs \<Rightarrow> Inr (c # cs)))"

fun assign_bytes :: "reply \<Rightarrow> redis_error + string" where
  "assign_bytes NilReply = Inr []"
| "assign_bytes (BulkStr s) = Inr s"
| "assign_bytes (ArrayReply rs) = assign_uint8s rs"
| "assign_bytes (ErrorReply e) = Inl (EServer e)"
| "assign_bytes _ = Inl EReplyType"

fun assign_int :: "reply \<Rightarrow> redis_error + int" where
  "assign_int NilReply = Inr 0"
| "assign_int (BulkStr s) = (case Atoi s of Some i \<Rightarrow> Inr i | None \<Rightarrow> Inl EReplyType)"
| "assign_int (IntReply i) = Inr i"
| "assign_int (ErrorReply e) = Inl (EServer e)"
| "assign_int _ = Inl EReplyType"

datatype pushed =
    PSMessage string string string
  | PSSubscription string string int
  | PSPong string
  | PSError redis_error

text \<open>The results of \<^verbatim>\<open>Scan\<close> are taken one destination after the other, the first failure being the error.\<close>

definition scan_message :: "string \<Rightarrow> reply list \<Rightarrow> pushed" where
  "scan_message pattern reply =
     (case reply of
        ch # dat # _ \<Rightarrow>
          (case assign_string ch of
             Inl e \<Rightarrow> PSError e
           | Inr channel \<Rightarrow> (case assign_bytes dat of Inl e \<Rightarrow> PSError e | Inr data \<Rightarrow> PSMessage channel pattern data))
      | _ \<Rightarrow> PSError EReplyType)"

definition receiveInternal :: "redis_error + reply \<Rightarrow> pushed" where
  "receiveInternal r =
     (case Values r of
        Inl e \<Rightarrow> PSError e
      | Inr [] \<Rightarrow> PSError EReplyType
      | Inr (k # reply) \<Rightarrow>
          (case assign_string k of
             Inl e \<Rightarrow> PSError e
           | Inr kind \<Rightarrow>
               if kind = ''message'' then scan_message [] reply
               else if kind = ''pmessage'' then
                 (case reply of
                    pt # ch # dat # rest \<Rightarrow>
                      (case assign_string pt of Inl e \<Rightarrow> PSError e | Inr pattern \<Rightarrow> scan_message pattern (ch # dat # rest))
                  | _ \<Rightarrow> PSError EReplyType)
               else if kind \<in> {''subscribe'', ''psubscribe'', ''unsubscribe'', ''punsubscribe''} then
                 (case reply of
                    ch # n # _ \<Rightarrow>
                      (case assign_string ch of
                         Inl e \<Rightarrow> PSError e
                       | Inr channel \<Rightarrow> (case assign_int n of Inl e \<Rightarrow> PSError e | Inr cnt \<Rightarrow> PSSubscription kind channel cnt))
                  | _ \<Rightarrow> PSError EReplyType)
               else if kind = ''pong'' then
                 (case reply of
                    d # _ \<Rightarrow> (case assign_string d of Inl e \<Rightarrow> PSError e | Inr data \<Rightarrow> PSPong data)
                  | _ \<Rightarrow> PSError EReplyType)
               else PSError EReplyType))"

definition PubSub_Receive :: "handle \<Rightarrow> pool \<Rightarrow> (pushed \<times> pool) option" where
  "PubSub_Receive cn p = (case handle_Receive cn p of None \<Rightarrow> None | Some (r, p1) \<Rightarrow> Some (receiveInternal r, p1))"

section \<open>Listening\<close>

text \<open>
  The start of \<^verbatim>\<open>Listen\<close>: a connection and a subscription.  When the subscription fails, the function returns the error.
\<close>

definition listen_start :: "string \<Rightarrow> pool \<Rightarrow> ((redis_error + handle) \<times> pool) option" where
  "listen_start key p =
     (case pool_Get p of
        None \<Rightarrow> None
      | Some (cn, p1) \<Rightarrow>
          (case Subscribe key cn p1 of
             (Some e, cn1, p2) \<Rightarrow> Some (Inl e, p2)
           | (None, cn1, p2) \<Rightarrow> Some (Inr cn1, p2)))"

text \<open>
  One round of its endless loop: a message goes to the channel; after an error the connection is closed and
  a new one is subscribed, without looking at the result.
\<close>

definition listen_round :: "string \<Rightarrow> handle \<times> pool \<Rightarrow> (string list \<times> handle \<times> pool) option" where
  "listen_round key = (\<lambda>(cn, p).
     case PubSub_Receive cn p of
       None \<Rightarrow> None
     | Some (v, p1) \<Rightarrow>
         (case v of
            PSMessage channel pattern data \<Rightarrow> Some ([data], cn, p1)
          | PSSubscription kind channel cnt \<Rightarrow> Some ([], cn, p1)
          | PSPong data \<Rightarrow> Some ([], cn, p1)
          | PSError e \<Rightarrow>
              (case handle_Close cn p1 of
                 None \<Rightarrow> None
               | Some (_, p2) \<Rightarrow>
                   (case pool_Get p2 of
                      None \<Rightarrow> None
                    | Some (cn3, p3) \<Rightarrow> (case Subscribe key cn3 p3 of (_, cn4, p4) \<Rightarrow> Some ([], cn4, p4))))))"

fun listen_rounds :: "string \<Rightarrow> nat \<Rightarrow> handle \<times> pool \<Rightarrow> (string list \<times> handle \<times> pool) option" where
  "listen_rounds key 0 s = Some ([], s)"
| "listen_rounds key (Suc n) s =
     (case listen_round key s of
        None \<Rightarrow> None
      | Some (ms, s1) \<Rightarrow> map_option (\<lambda>(ms', s2). (ms @ ms', s2)) (listen_rounds key n s1))"

text \<open>
  \<^verbatim>\<open>ListenChannel\<close>: it calls \<^verbatim>\<open>Listen\<close> again after an error.  The list says what the clock shows and the network offers at
  each call; the result is the connection of the first call that does not fail, if any.
\<close>

fun listen_retry :: "string \<Rightarrow> (int \<times> (nat \<times> string) option list) list \<Rightarrow> pool \<Rightarrow> (handle option \<times> pool) option" where
  "listen_retry key [] p = Some (None, p)"
| "listen_retry key ((t, ds) # es) p =
     (case listen_start key (p\<lparr>pool_now := t, dials := ds\<rparr>) of
        None \<Rightarrow> None
      | Some (Inr cn, p1) \<Rightarrow> Some (Some cn, p1)
      | Some (Inl e, p1) \<Rightarrow> listen_retry key es p1)"

section \<open>The pool of the program\<close>

text \<open>Every operation of a subscription is two uses of its connection, so what holds of every use of the pool holds of it.\<close>

lemma pubsub_steps:
  assumes "i < length hs"
    "op \<in> {Subscribe ch, PSubscribe chs, Unsubscribe chs, PUnsubscribe chs, PubSub_Ping ch}" "op (hs ! i) p = (e, cn, p')"
  shows "pool_step\<^sup>*\<^sup>* (p, hs) (p', hs[i := cn])"
proof -
  obtain verb args e1 p1 where s: "handle_Send verb args (hs ! i) p = (e1, cn, p1)" "handle_Flush cn p1 = (e, p')"
    using assms(2,3) by (auto simp: pubsub_defs Let_def split: prod.splits)
  have "pool_step (p, hs) (p1, hs[i := cn])" using assms(1) s(1) by (rule pool_step.send)
  moreover have "pool_step (p1, hs[i := cn]) (p', hs[i := cn])" using pool_step.flush[of i "hs[i := cn]" p1 e p'] s(2) assms(1) by simp
  ultimately show ?thesis by (meson converse_rtranclp_into_rtranclp rtranclp.rtrancl_refl)
qed

lemma pool_inv_NewPool: "pool_inv (NewPool rs ds t sent) [] {}"
  by (simp add: NewPool_def pool_inv_def pool_ok_def idle_rel_def idle_empty_def ends_def)

lemma client_inv_NewPool: "client_inv (NewPool rs ds t sent, [])"
  using pool_inv_NewPool[of rs ds t sent] by (auto simp: client_inv_def all_held_def intro: exI[of _ "[]"])

text \<open>
  C8. However the program uses its pool, whatever the network does and however long it runs: it never has more than five
  sockets to the redis server open at the same time, and two connections it has got and not closed never share a
  socket.
\<close>

theorem at_most_five_connections:
  assumes "pool_step\<^sup>*\<^sup>* (NewPool rs ds t sent, []) (p, hs)"
  shows "card (open_sockets p) \<le> 5 \<and> distinct (map (\<lambda>a. pc_c (nodes p ! a)) (all_held hs))"
  using redigo.never_exceeded[OF assms] client_inv_NewPool[of rs ds t sent] by (simp add: NewPool_def)

definition demo_server :: RedisServer where
  "demo_server = NewRedis ''10.0.0.1:6379'' ''pw''"

definition demo_pool :: pool where
  "demo_pool = NewPool demo_server [Some (1000, ''+OK'' @ crlf)] 0 ''sentinel''"

lemma auth_ok:
  assumes "length (writeCommand ''AUTH'' [AString auth]) \<le> n"
  shows "conn_Do ''AUTH'' [AString auth] (dialled n (reply_bytes (SimpleStr ''OK'') @ rest)) =
    Some ((SimpleStr ''OK'', None), (dialled (n - length (writeCommand ''AUTH'' [AString auth])) rest)\<lparr>wire := writeCommand ''AUTH'' [AString auth]\<rparr>)"
  using conn_Do_reply[of "dialled n (reply_bytes (SimpleStr ''OK'') @ rest)" "''AUTH''" "[AString auth]" "SimpleStr ''OK''" rest] assms
    conn_healthy_dialled[of n "reply_bytes (SimpleStr ''OK'') @ rest"]
  by (simp add: dialled_def)

lemma auth_length: "length (writeCommand ''AUTH'' [AString ''pw'']) = 22"
  by (simp add: writeCommand_def writeString_def writeLen_text nat_str.simps crlf_def)

lemma pool_get_empty:
  assumes "pool_inv p [] B"
  shows "pool_get p = pool_new p"
proof -
  have ok: "pool_ok p [] B" using assms by (simp add: pool_inv_def)
  have "il_count (pool_idle p) = 0" "il_front (pool_idle p) = None" using pool_ok_count[OF ok] pool_ok_front[OF ok] by simp_all
  then show ?thesis by (simp add: pool_get_def borrow.simps[of 0 p])
qed

theorem at_most_five_connections_witness:
  "\<exists>p. pool_step\<^sup>*\<^sup>* (demo_pool, []) (p, [ActiveConn \<lparr>ac_pc = Some 0, ac_state = 0\<rparr>]) \<and> card (open_sockets p) \<le> 5"
proof -
  have "conn_Do ''AUTH'' [AString ''pw''] (dialled 1000 (''+OK'' @ crlf)) =
      Some ((SimpleStr ''OK'', None), (dialled 978 [])\<lparr>wire := writeCommand ''AUTH'' [AString ''pw'']\<rparr>)"
    using auth_ok[of "''pw''" 1000 "[]"] by (simp add: auth_length)
  then obtain p where "pool_Get demo_pool = Some (ActiveConn \<lparr>ac_pc = Some 0, ac_state = 0\<rparr>, p)"
    unfolding pool_Get_def demo_pool_def pool_get_empty[OF pool_inv_NewPool]
    by (simp add: pool_new_def dial_def NewPool_def demo_server_def NewRedis_def)
  then have "pool_step (demo_pool, []) (p, [ActiveConn \<lparr>ac_pc = Some 0, ac_state = 0\<rparr>])"
    using pool_step.get[of demo_pool _ p "[]"] by simp
  then have r: "pool_step\<^sup>*\<^sup>* (demo_pool, []) (p, [ActiveConn \<lparr>ac_pc = Some 0, ac_state = 0\<rparr>])" by simp
  with at_most_five_connections[of demo_server _ _ _ p] show ?thesis unfolding demo_pool_def by blast
qed

section \<open>Publishing\<close>

text \<open>What the server reads from a connection, and which messages it is asked to publish.\<close>

function wire_commands :: "string \<Rightarrow> reply list" where
  "wire_commands s = (case readReply s of Some (Inr r, rest) \<Rightarrow> r # wire_commands rest | _ \<Rightarrow> [])"
  by pat_completeness auto

termination by (relation "measure length") (auto dest: readReply_shorter)

declare wire_commands.simps [simp del]

fun publish_of :: "reply \<Rightarrow> (string \<times> string) option" where
  "publish_of (ArrayReply [BulkStr c, BulkStr k, BulkStr v]) = (if c = ''publish'' then Some (k, v) else None)"
| "publish_of _ = None"

definition publishes :: "string \<Rightarrow> (string \<times> string) multiset" where
  "publishes w = mset (List.map_filter publish_of (wire_commands w))"

definition server_saw :: "pool \<Rightarrow> (string \<times> string) multiset" where
  "server_saw p = sum_list (map (\<lambda>c. publishes (wire c)) (conns p))"

text \<open>A wire that holds complete commands only.\<close>

definition framed :: "string \<Rightarrow> bool" where
  "framed w = (\<exists>rs. list_all reply_ok rs \<and> w = concat (map reply_bytes rs))"

lemma wire_commands_framed: "list_all reply_ok rs \<Longrightarrow> wire_commands (concat (map reply_bytes rs)) = rs"
proof (induction rs)
  case Nil
  show ?case by (subst wire_commands.simps) (simp add: readReply_def)
next
  case (Cons r rs)
  then show ?case by (subst wire_commands.simps) (simp add: readReply_reply_bytes)
qed

lemma publishes_append:
  assumes "framed w" "command_ok ''publish'' [AString key, AString value]"
  shows "publishes (w @ writeCommand ''publish'' [AString key, AString value]) = publishes w + {#(key, value)#}"
proof -
  obtain rs where rs: "list_all reply_ok rs" "w = concat (map reply_bytes rs)" using assms(1) by (auto simp: framed_def)
  let ?c = "command_reply ''publish'' [AString key, AString value]"
  have "reply_ok ?c" using assms(2) by (auto simp: command_ok_def command_reply_def)
  then have "list_all reply_ok (rs @ [?c])" using rs(1) by simp
  from wire_commands_framed[OF this] wire_commands_framed[OF rs(1)]
  have "wire_commands (w @ writeCommand ''publish'' [AString key, AString value]) = wire_commands w @ [?c]"
    by (simp add: rs(2) writeCommand_reply)
  then show ?thesis by (simp add: publishes_def command_reply_def List.map_filter_def)
qed

lemma map_wire_close: "map wire (conns (drop_conn a p)) = map wire (conns p)"
proof -
  have "wire (snd (conn_close c)) = wire c" for c by (simp add: conn_close_def)
  then show ?thesis
    by (cases "pc_c (nodes p ! a) < length (conns p)") (simp_all add: drop_conn_def close_conn_def set_conn_def conn_at_def map_update list_update_same_conv list_update_beyond)
qed

lemma with_idle_conns: "with_idle f p = Some p' \<Longrightarrow> conns p' = conns p"
  by (auto simp: with_idle_def)

lemma pool_put_wires: "pool_put a f p = Some p' \<Longrightarrow> map wire (conns p') = map wire (conns p)"
  by (auto simp: pool_put_def map_wire_close split: if_splits option.splits dest!: with_idle_conns)

lemma next_state_publish: "next_state ''publish'' 0 = 0"
  by code_simp

lemma pool_get_facts:
  assumes "pool_inv p xs B" "pool_get p = Some (Inr a, p1)"
  shows "\<exists>ys. pool_inv p1 ys (insert a B) \<and> a \<notin> B \<and> a < length (nodes p1) \<and> pc_c (nodes p1 ! a) < length (conns p1)"
proof -
  obtain ys where ys: "a \<notin> B" "pool_inv p1 ys (insert a B)" using pool_get_ok[OF assms] by auto
  then show ?thesis by (auto simp: pool_inv_def pool_ok_def)
qed

text \<open>Returning a healthy connection in the normal state writes nothing and puts it back.\<close>

lemma handle_Close_healthy:
  assumes "pool_inv p ys (insert a B)" "a \<notin> B" "conn_healthy (conn_at p a)"
  shows "\<exists>cn' p'. handle_Close (ActiveConn \<lparr>ac_pc = Some a, ac_state = 0\<rparr>) p = Some (cn', p') \<and>
    map wire (conns p') = map wire (conns p) \<and> (\<exists>zs. pool_inv p' zs B)"
proof -
  let ?c = "conn_at p a"
  have "?c\<lparr>pending := 0\<rparr> = ?c" using assms(3) by (cases ?c) (simp add: conn_healthy_def)
  moreover have "set_conn a ?c p = p" by (simp add: set_conn_def conn_at_def)
  ultimately have same: "set_conn a (?c\<lparr>pending := 0\<rparr>) p = p" by simp
  obtain p' zs where "pool_put a False p = Some p'" "pool_inv p' zs B" using pool_put_ok[OF assms(1,2)] by blast
  with pool_put_wires[of a False p p'] same assms(3) show ?thesis
    by (auto simp: handle_Close_def leave_multi_def leave_subscribed_def conn_Do_def conn_healthy_def)
qed

lemma sum_list_upd:
  fixes f :: "'a \<Rightarrow> 'b multiset"
  assumes "i < length xs"
  shows "sum_list (map f (xs[i := y])) + f (xs ! i) = sum_list (map f xs) + f y"
proof -
  have "xs = take i xs @ xs ! i # drop (Suc i) xs" using assms by (rule id_take_nth_drop)
  then have "sum_list (map f xs) = sum_list (map f (take i xs)) + f (xs ! i) + sum_list (map f (drop (Suc i) xs))"
    by (metis (no_types, lifting) add.assoc list.simps(9) map_append sum_list.Cons sum_list.append)
  moreover have "sum_list (map f (xs[i := y])) = sum_list (map f (take i xs)) + f y + sum_list (map f (drop (Suc i) xs))"
    using assms by (simp add: upd_conv_take_nth_drop)
  ultimately show ?thesis by (simp add: ac_simps)
qed

text \<open>
  C6. Publishing on the pool does what the rest of the program takes it to do.  When the pool hands out a connection that is
  in order and the server acknowledges, exactly one \<^verbatim>\<open>publish\<close> command with this channel and this value is added to what
  the server reads from its connections, the pool gets the connection back, and what the server was asked to publish
  remains what the abstract operation on the world records.
\<close>

theorem publish_on_pool_refines:
  assumes "pool_inv p xs B" "pool_get p = Some (Inr a, p1)" "conn_healthy (conn_at p1 a)" "framed (wire (conn_at p1 a))"
    "command_ok ''publish'' [AString key, AString value]" "length (writeCommand ''publish'' [AString key, AString value]) \<le> room (conn_at p1 a)"
    "incoming (conn_at p1 a) = reply_bytes (IntReply n) @ rest" "in_int64 n"
    "redis_up w" "mset (published w) = server_saw p1"
  shows "\<exists>p'. publish_on_pool key value p = Some p' \<and> (\<exists>ys. pool_inv p' ys B) \<and>
    server_saw p' = server_saw p1 + {#(key, value)#} \<and> mset (published (PublishMsg key value w)) = server_saw p'"
proof -
  obtain ys where ys: "pool_inv p1 ys (insert a B)" "a \<notin> B" "a < length (nodes p1)" "pc_c (nodes p1 ! a) < length (conns p1)"
    using pool_get_facts[OF assms(1,2)] by blast
  let ?cmd = "writeCommand ''publish'' [AString key, AString value]" and ?i = "pc_c (nodes p1 ! a)"
  define c where "c = (conn_at p1 a)\<lparr>wire := wire (conn_at p1 a) @ ?cmd, room := room (conn_at p1 a) - length ?cmd, incoming := rest\<rparr>"
  have do1: "conn_Do ''publish'' [AString key, AString value] (conn_at p1 a) = Some ((IntReply n, None), c)"
    unfolding c_def using conn_Do_reply[OF assms(3) _ assms(6,7)] assms(8) by simp
  let ?p2 = "set_conn a c p1"
  have at: "conn_at ?p2 a = c" using ys(4) by (simp add: conn_at_def set_conn_def)
  have c: "conn_healthy c" "conn_wf c" using assms(3) by (simp_all add: c_def conn_healthy_def conn_wf_def)
  have "pool_inv ?p2 ys (insert a B)" using ys(1) c(2) by (intro pool_inv_set_conn) auto
  from handle_Close_healthy[OF this ys(2)] at c(1) obtain cn' p' zs where
    cl: "handle_Close (ActiveConn \<lparr>ac_pc = Some a, ac_state = 0\<rparr>) ?p2 = Some (cn', p')" "map wire (conns p') = map wire (conns ?p2)" "pool_inv p' zs B"
    by auto
  have run: "publish_on_pool key value p = Some p'"
    using assms(2) do1 cl(1) by (simp add: publish_on_pool_def pool_Get_def handle_Do_def next_state_publish)
  have saw: "server_saw q = sum_list (map publishes (map wire (conns q)))" for q by (simp add: server_saw_def comp_def)
  have "server_saw p' + publishes (wire (conn_at p1 a)) = server_saw p1 + publishes (wire c)"
    unfolding saw cl(2) using sum_list_upd[of ?i "conns p1" "\<lambda>c. publishes (wire c)" c] ys(4)
    by (simp add: set_conn_def conn_at_def comp_def)
  moreover have "publishes (wire c) = publishes (wire (conn_at p1 a)) + {#(key, value)#}"
    unfolding c_def using publishes_append[OF assms(4,5)] by simp
  ultimately have "server_saw p' = server_saw p1 + {#(key, value)#}" by simp
  with run cl(3) assms(9,10) show ?thesis by (auto simp: PublishMsg_def)
qed

definition publish_pool :: pool where
  "publish_pool = NewPool demo_server [Some (1000, reply_bytes (SimpleStr ''OK'') @ reply_bytes (IntReply 1) @ [])] 0 ''sentinel''"

definition auth_cmd :: string where
  "auth_cmd = writeCommand ''AUTH'' [AString ''pw'']"

definition got_pool :: pool where
  "got_pool = publish_pool\<lparr>pool_active := 1, dials := [], conns := [(dialled 978 (reply_bytes (IntReply 1) @ []))\<lparr>wire := auth_cmd\<rparr>],
     nodes := [\<lparr>pc_c = 0, pc_t = 0, pc_created = 0, pc_next = None, pc_prev = None\<rparr>]\<rparr>"

lemma publish_pool_get: "pool_get publish_pool = Some (Inr 0, got_pool)"
proof -
  have "conn_Do ''AUTH'' [AString ''pw''] (dialled 1000 (reply_bytes (SimpleStr ''OK'') @ reply_bytes (IntReply 1) @ [])) =
      Some ((SimpleStr ''OK'', None), (dialled 978 (reply_bytes (IntReply 1) @ []))\<lparr>wire := auth_cmd\<rparr>)"
    using auth_ok[of "''pw''" 1000 "reply_bytes (IntReply 1) @ []"] by (simp add: auth_length auth_cmd_def del: reply_bytes.simps)
  then show ?thesis
    unfolding publish_pool_def pool_get_empty[OF pool_inv_NewPool]
    by (simp add: pool_new_def dial_def NewPool_def demo_server_def NewRedis_def got_pool_def publish_pool_def del: reply_bytes.simps)
qed

lemma auth_cmd_framed: "framed auth_cmd" "publishes auth_cmd = {#}"
proof -
  let ?r = "command_reply ''AUTH'' [AString ''pw'']"
  have r: "reply_ok ?r" "auth_cmd = concat (map reply_bytes [?r])"
    by (simp_all add: command_reply_def maxAlloc_def auth_cmd_def writeCommand_reply)
  then have "framed auth_cmd" unfolding framed_def by (intro exI[of _ "[?r]"]) simp
  moreover have "wire_commands auth_cmd = [?r]" using wire_commands_framed[of "[?r]"] r by simp
  ultimately show "framed auth_cmd" "publishes auth_cmd = {#}" by (simp_all add: publishes_def command_reply_def List.map_filter_def)
qed

theorem publish_on_pool_refines_witness:
  "\<exists>p'. publish_on_pool ''c'' ''v'' publish_pool = Some p' \<and> server_saw p' = {#(''c'', ''v'')#} \<and>
    mset (published (PublishMsg ''c'' ''v'' (blank_world\<lparr>redis_up := True\<rparr>))) = server_saw p'"
proof -
  have saw: "server_saw got_pool = {#}" by (simp add: server_saw_def got_pool_def auth_cmd_framed dialled_def)
  have at: "conn_at got_pool 0 = (dialled 978 (reply_bytes (IntReply 1) @ []))\<lparr>wire := auth_cmd\<rparr>" by (simp add: conn_at_def got_pool_def)
  have len: "length (writeCommand ''publish'' [AString ''c'', AString ''v'']) \<le> 978"
    by (simp add: writeCommand_def writeString_def writeLen_text nat_str.simps crlf_def)
  show ?thesis
    using publish_on_pool_refines[of publish_pool "[]" "{}" 0 got_pool "''c''" "''v''" 1 "[]" "blank_world\<lparr>redis_up := True\<rparr>"]
      publish_pool_get pool_inv_NewPool auth_cmd_framed(1) len saw at
    by (simp add: publish_pool_def conn_healthy_def dialled_def command_ok_def maxAlloc_def in_int64_def blank_world_def) blast
qed

section \<open>Listening\<close>

text \<open>The bytes of a pushed message, as a subscriber receives them.\<close>

definition push_reply :: "string \<times> string \<Rightarrow> reply" where
  "push_reply m = ArrayReply [BulkStr ''message'', BulkStr (fst m), BulkStr (snd m)]"

definition push_ok :: "string \<times> string \<Rightarrow> bool" where
  "push_ok m = (int (length (fst m)) \<le> maxAlloc \<and> int (length (snd m)) \<le> maxAlloc)"

lemma conn_Receive_push:
  assumes "\<not> shut c" "incoming c = reply_bytes (push_reply m) @ rest" "push_ok m"
  shows "\<exists>c'. conn_Receive c = Some (Inr (push_reply m), c') \<and> incoming c' = rest \<and> \<not> shut c'"
proof -
  have "reply_ok (push_reply m)" using assms(3) by (simp add: push_ok_def push_reply_def maxAlloc_def)
  then have "readReply (incoming c) = Some (Inr (push_reply m), rest)" using assms(2) readReply_reply_bytes by simp
  then show ?thesis using assms(1) by (simp add: conn_Receive_def conn_read_def Let_def push_reply_def)
qed

lemma receiveInternal_push: "receiveInternal (Inr (push_reply m)) = PSMessage (fst m) [] (snd m)"
  by (simp add: receiveInternal_def Values_def push_reply_def scan_message_def)

lemma listen_round_push:
  assumes "ac_pc ac = Some a" "pc_c (nodes p ! a) < length (conns p)" "\<not> shut (conn_at p a)"
    "incoming (conn_at p a) = reply_bytes (push_reply m) @ rest" "push_ok m"
  shows "\<exists>c'. listen_round key (ActiveConn ac, p) = Some ([snd m], ActiveConn ac, set_conn a c' p) \<and> incoming c' = rest \<and> \<not> shut c'"
proof -
  obtain c' where "conn_Receive (conn_at p a) = Some (Inr (push_reply m), c')" "incoming c' = rest" "\<not> shut c'"
    using conn_Receive_push[OF assms(3-5)] by blast
  then show ?thesis using assms(1) by (intro exI[of _ c']) (simp add: listen_round_def PubSub_Receive_def handle_Receive_def receiveInternal_push)
qed

lemma listen_rounds_messages:
  assumes "ac_pc ac = Some a" "pc_c (nodes p ! a) < length (conns p)" "\<not> shut (conn_at p a)"
    "incoming (conn_at p a) = concat (map (\<lambda>m. reply_bytes (push_reply m)) ms) @ rest" "list_all push_ok ms"
  shows "\<exists>p'. listen_rounds key (length ms) (ActiveConn ac, p) = Some (map snd ms, ActiveConn ac, p') \<and>
    incoming (conn_at p' a) = rest"
  using assms
proof (induction ms arbitrary: p)
  case Nil
  then show ?case by simp
next
  case (Cons m ms)
  let ?rest = "concat (map (\<lambda>m. reply_bytes (push_reply m)) ms) @ rest"
  obtain c' where c: "listen_round key (ActiveConn ac, p) = Some ([snd m], ActiveConn ac, set_conn a c' p)" "incoming c' = ?rest" "\<not> shut c'"
    using listen_round_push[OF Cons.prems(1-3), of m ?rest] Cons.prems(4,5) by auto
  let ?p = "set_conn a c' p"
  have "conn_at ?p a = c'" "pc_c (nodes ?p ! a) < length (conns ?p)" using Cons.prems(2) by (simp_all add: conn_at_def set_conn_def)
  then obtain p' where "listen_rounds key (length ms) (ActiveConn ac, ?p) = Some (map snd ms, ActiveConn ac, p')" "incoming (conn_at p' a) = rest"
    using Cons.IH[of ?p] Cons.prems(1,5) c by auto
  with c(1) show ?case by auto
qed

text \<open>
  The listener loses and reorders nothing: as many rounds as messages have arrived on its
  subscription hand over the data of exactly these messages in their order, on one connection, byte for byte as
  they were published.
\<close>

theorem listen_hands_over_messages:
  assumes "ac_pc ac = Some a" "pc_c (nodes p ! a) < length (conns p)" "\<not> shut (conn_at p a)"
    "incoming (conn_at p a) = concat (map (\<lambda>m. reply_bytes (push_reply m)) ms) @ rest" "list_all push_ok ms"
  shows "\<exists>p'. listen_rounds key (length ms) (ActiveConn ac, p) = Some (map snd ms, ActiveConn ac, p') \<and>
    incoming (conn_at p' a) = rest"
  using assms by (rule listen_rounds_messages)

theorem listen_hands_over_messages_witness:
  "\<exists>p'. listen_rounds ''k'' 2 (ActiveConn \<lparr>ac_pc = Some 0, ac_state = 4\<rparr>,
      got_pool\<lparr>conns := [dialled 0 (concat (map (\<lambda>m. reply_bytes (push_reply m)) [(''k'', ''one''), (''k'', ''two'')]) @ [])]\<rparr>) =
    Some ([''one'', ''two''], ActiveConn \<lparr>ac_pc = Some 0, ac_state = 4\<rparr>, p')"
proof -
  let ?p = "got_pool\<lparr>conns := [dialled 0 (concat (map (\<lambda>m. reply_bytes (push_reply m)) [(''k'', ''one''), (''k'', ''two'')]) @ [])]\<rparr>"
  have at: "conn_at ?p 0 = dialled 0 (concat (map (\<lambda>m. reply_bytes (push_reply m)) [(''k'', ''one''), (''k'', ''two'')]) @ [])"
    "pc_c (nodes ?p ! 0) < length (conns ?p)" by (simp_all add: conn_at_def got_pool_def)
  show ?thesis
    using listen_hands_over_messages[of "\<lparr>ac_pc = Some 0, ac_state = 4\<rparr>" 0 ?p "[(''k'', ''one''), (''k'', ''two'')]" "[]" "''k''"] at
    by (simp add: dialled_def push_ok_def maxAlloc_def numeral_2_eq_2 del: listen_rounds.simps concat.simps) blast
qed

section \<open>A subscription that fails keeps its connection\<close>

lemma write_no_room:
  assumes "\<not> shut c" "bw_err c = None" "bw_buf c = []" "room c = 0" "s \<noteq> []"
  shows "bw_err (bw_flush (bw_write s c)) \<noteq> None"
proof (cases "length s \<le> bw_size")
  case True
  then have "bw_write s c = c\<lparr>bw_buf := s\<rparr>" using assms by (simp add: bw_write.simps[of s c] Let_def)
  then show ?thesis using assms by (simp add: bw_flush_def net_write_def)
next
  case False
  let ?c = "bw_flush (c\<lparr>bw_buf := take bw_size s\<rparr>)"
  have w: "bw_write s c = bw_write (drop bw_size s) ?c"
    using False assms by (simp add: bw_write.simps[of s c] Let_def)
  have e: "bw_err ?c \<noteq> None" using assms False by (simp add: bw_flush_def net_write_def bw_size_def)
  then have "bw_write (drop bw_size s) ?c = ?c" by (simp add: bw_write.simps[of "drop bw_size s"])
  with e show ?thesis unfolding w by (simp add: bw_flush_def)
qed

lemma Subscribe_no_room:
  assumes "conn_healthy (conn_at p a)" "room (conn_at p a) = 0" "pc_c (nodes p ! a) < length (conns p)" "conn_wf (conn_at p a)"
  shows "\<exists>e st c. Subscribe key (ActiveConn \<lparr>ac_pc = Some a, ac_state = 0\<rparr>) p = (Some e, ActiveConn \<lparr>ac_pc = Some a, ac_state = st\<rparr>, set_conn a c p) \<and> conn_wf c"
proof -
  define c0 where "c0 = (conn_at p a)\<lparr>pending := pending (conn_at p a) + 1\<rparr>"
  let ?s = "writeCommand ''SUBSCRIBE'' [AString key]"
  define c1 where "c1 = snd (conn_Send ''SUBSCRIBE'' [AString key] (conn_at p a))"
  have wf: "conn_wf (snd (conn_Flush c1))" unfolding c1_def using assms(4) by (intro conn_wf_Flush conn_wf_Send)
  have ne: "bw_err (bw_flush (bw_write ?s c0)) \<noteq> None"
    using assms(1,2) by (intro write_no_room) (simp_all add: c0_def conn_healthy_def writeCommand_def writeLen_text)
  have "bw_err (bw_flush c1) \<noteq> None"
  proof (cases "bw_err (bw_write ?s c0)")
    case None
    then have "c1 = bw_write ?s c0" unfolding c1_def conn_Send_def Let_def c0_def[symmetric] by simp
    with ne show ?thesis by simp
  next
    case (Some e)
    then have "bw_err c1 = Some e" unfolding c1_def conn_Send_def Let_def c0_def[symmetric] by (simp add: fatal_def)
    then show ?thesis by (simp add: bw_flush_def)
  qed
  then obtain e where e: "fst (conn_Flush c1) = Some e" by (auto simp: conn_Flush_def Let_def)
  have "conn_at (set_conn a c1 p) a = c1" using assms(3) by (simp add: conn_at_def set_conn_def)
  moreover have "set_conn a c (set_conn a c1 p) = set_conn a c p" for c by (simp add: set_conn_def)
  ultimately have "Subscribe key (ActiveConn \<lparr>ac_pc = Some a, ac_state = 0\<rparr>) p =
      (Some e, ActiveConn \<lparr>ac_pc = Some a, ac_state = next_state ''SUBSCRIBE'' 0\<rparr>, set_conn a (snd (conn_Flush c1)) p)"
    using e by (simp add: Subscribe_def handle_Send_def handle_Flush_def Let_def c1_def[symmetric] split_beta)
  with wf show ?thesis by blast
qed

text \<open>A server that accepts the connection and the password and is gone before the subscription is written.\<close>

definition auth_only :: "RedisServer \<Rightarrow> (nat \<times> string) option list" where
  "auth_only rs = [Some (length (writeCommand ''AUTH'' [AString (redisAuth rs)]), reply_bytes (SimpleStr ''OK''))]"

lemma listen_start_leaks:
  assumes "pool_inv p [] B" "\<not> pool_closed p" "int (card B) < MaxActive p" "pool_auth p = redisAuth rs" "dials p = auth_only rs"
  shows "\<exists>e p' a. listen_start key p = Some (Inl e, p') \<and> a \<notin> B \<and> pool_inv p' [] (insert a B) \<and> config p' = config p"
proof -
  let ?auth = "writeCommand ''AUTH'' [AString (redisAuth rs)]"
  have act: "pool_active p = int (card B)" using assms(1) pool_ok_active[of p "[]" B] by (simp add: pool_inv_def)
  have "conn_Do ''AUTH'' [AString (redisAuth rs)] (dialled (length ?auth) (reply_bytes (SimpleStr ''OK''))) =
      Some ((SimpleStr ''OK'', None), (dialled 0 [])\<lparr>wire := ?auth\<rparr>)"
    using auth_ok[of "redisAuth rs" "length ?auth" "[]"] by (simp del: reply_bytes.simps)
  then obtain p1 where new: "pool_new p = Some (Inr (length (nodes p)), p1)"
    and n1: "nodes p1 = nodes p @ [\<lparr>pc_c = length (conns p), pc_t = 0, pc_created = pool_now p, pc_next = None, pc_prev = None\<rparr>]"
    and c1: "conns p1 = conns p @ [(dialled 0 [])\<lparr>wire := ?auth\<rparr>]"
    using assms(2-5) act by (simp add: pool_new_def dial_def auth_only_def del: reply_bytes.simps)
  let ?a = "length (nodes p)"
  have inv: "?a \<notin> B" "pool_inv p1 [] (insert ?a B)" "config p1 = config p" using pool_new_ok[OF assms(1) new] by simp_all
  have at: "conn_at p1 ?a = (dialled 0 [])\<lparr>wire := ?auth\<rparr>" "pc_c (nodes p1 ! ?a) < length (conns p1)" using n1 c1 by (simp_all add: conn_at_def)
  have h: "conn_healthy (conn_at p1 ?a)" "room (conn_at p1 ?a) = 0" "conn_wf (conn_at p1 ?a)"
    unfolding at by (simp_all add: conn_healthy_def dialled_def conn_wf_def)
  obtain e st c where sub: "Subscribe key (ActiveConn \<lparr>ac_pc = Some ?a, ac_state = 0\<rparr>) p1 =
      (Some e, ActiveConn \<lparr>ac_pc = Some ?a, ac_state = st\<rparr>, set_conn ?a c p1)" "conn_wf c"
    using Subscribe_no_room[OF h(1,2) at(2) h(3)] by blast
  have "listen_start key p = Some (Inl e, set_conn ?a c p1)"
    using pool_get_empty[OF assms(1)] new sub(1) by (simp add: listen_start_def pool_Get_def)
  moreover have "pool_inv (set_conn ?a c p1) [] (insert ?a B)" using inv(2) sub(2) by (intro pool_inv_set_conn) auto
  ultimately show ?thesis using inv by (intro exI[of _ e] exI[of _ "set_conn ?a c p1"] exI[of _ ?a]) simp
qed

lemma listen_retry_leaks:
  assumes "pool_inv p [] B" "\<not> pool_closed p" "MaxActive p = 5" "pool_auth p = redisAuth rs" "card B + length ts \<le> 5"
  shows "\<exists>p' B'. listen_retry key (map (\<lambda>t. (t, auth_only rs)) ts) p = Some (None, p') \<and> pool_inv p' [] B' \<and> card B' = card B + length ts \<and>
    \<not> pool_closed p' \<and> MaxActive p' = 5"
  using assms
proof (induction ts arbitrary: p B)
  case Nil
  then show ?case by auto
next
  case (Cons t ts)
  let ?p = "p\<lparr>pool_now := t, dials := auth_only rs\<rparr>"
  have inv: "pool_inv ?p [] B" using Cons.prems(1) by (simp add: pool_inv_time)
  obtain e p1 a where s: "listen_start key ?p = Some (Inl e, p1)" "a \<notin> B" "pool_inv p1 [] (insert a B)" "config p1 = config ?p"
    using listen_start_leaks[OF inv, of rs key] Cons.prems by auto
  have "finite B" using inv by (simp add: pool_inv_def pool_ok_def)
  then have card: "card (insert a B) = Suc (card B)" using s(2) by simp
  from Cons.IH[OF s(3)] configD[OF s(4)] Cons.prems card
  show ?case using s(1) by auto
qed

lemma exhausted_pool:
  assumes "pool_inv p [] B" "\<not> pool_closed p" "MaxActive p = 5" "card B = 5"
  shows "pool_Get (p\<lparr>pool_now := t, dials := ds\<rparr>) = Some (ErrorConn EPoolExhausted, p\<lparr>pool_now := t, dials := ds\<rparr>)"
proof -
  let ?p = "p\<lparr>pool_now := t, dials := ds\<rparr>"
  have inv: "pool_inv ?p [] B" using assms(1) by (simp add: pool_inv_time)
  have "pool_active ?p = 5" using inv assms(4) pool_ok_active[of ?p "[]" B] by (simp add: pool_inv_def)
  then show ?thesis using pool_get_empty[OF inv] assms(2,3) by (simp add: pool_Get_def pool_new_def)
qed

text \<open>
  C21. \<^verbatim>\<open>Listen\<close> returns the error of a failed subscription without closing the connection it got.  Five such failures
  (the server accepts the password and is gone before the subscription is written) use up the pool for good: whatever the
  network offers later and however long the program waits, every attempt to listen fails and every message it publishes is
  dropped without a trace, although all five sockets are dead.
\<close>

theorem failed_subscriptions_exhaust_pool:
  assumes "length ts = 5"
  shows "\<exists>p. listen_retry key (map (\<lambda>t. (t, auth_only rs)) ts) (NewPool rs ds t0 sent) = Some (None, p) \<and>
    (\<forall>t ds k v. publish_on_pool k v (p\<lparr>pool_now := t, dials := ds\<rparr>) = Some (p\<lparr>pool_now := t, dials := ds\<rparr>) \<and>
       listen_start k (p\<lparr>pool_now := t, dials := ds\<rparr>) = Some (Inl EPoolExhausted, p\<lparr>pool_now := t, dials := ds\<rparr>))"
proof -
  obtain p B where p: "listen_retry key (map (\<lambda>t. (t, auth_only rs)) ts) (NewPool rs ds t0 sent) = Some (None, p)"
    "pool_inv p [] B" "card B = 5" "\<not> pool_closed p" "MaxActive p = 5"
    using listen_retry_leaks[OF pool_inv_NewPool[of rs ds t0 sent], of rs ts key] assms by (auto simp: NewPool_def)
  note ex = exhausted_pool[OF p(2,4,5,3)]
  have "publish_on_pool k v (p\<lparr>pool_now := t, dials := ds\<rparr>) = Some (p\<lparr>pool_now := t, dials := ds\<rparr>)" for t ds k v
    by (simp add: publish_on_pool_def ex handle_Do_def handle_Close_def)
  moreover have "listen_start k (p\<lparr>pool_now := t, dials := ds\<rparr>) = Some (Inl EPoolExhausted, p\<lparr>pool_now := t, dials := ds\<rparr>)" for t ds k
    by (simp add: listen_start_def ex Subscribe_def handle_Send_def handle_Flush_def)
  ultimately show ?thesis using p(1) by blast
qed

theorem failed_subscriptions_exhaust_pool_witness:
  "\<exists>p. listen_retry ''chan'' (map (\<lambda>t. (t, auth_only demo_server)) [0, 1, 2, 3, 4]) (NewPool demo_server [] 0 ''s'') = Some (None, p) \<and>
    publish_on_pool ''k'' ''v'' (p\<lparr>pool_now := 100, dials := [Some (1000, ''+OK'' @ crlf @ '':1'' @ crlf)]\<rparr>) =
      Some (p\<lparr>pool_now := 100, dials := [Some (1000, ''+OK'' @ crlf @ '':1'' @ crlf)]\<rparr>)"
  using failed_subscriptions_exhaust_pool[of "[0, 1, 2, 3, 4]" "''chan''" demo_server "[]" 0 "''s''"] by fastforce

end
