(* ===== verification/Module_Main.thy ===== *)
theory Module_Main
  imports Bait Proxy Redis_Client
begin

text \<open>
  The main programs of the bait and the proxy module (\<^verbatim>\<open>agent/bait/bait.go\<close>, \<^verbatim>\<open>agent/proxy/proxy.go\<close>): what they set up before their
  loop, the loop over the messages of the channel the listener fills, and the two together, from the bytes of the subscription
  to the changes on the host.
\<close>

section \<open>The programs\<close>

definition AgentHome :: "world \<Rightarrow> string" where
  "AgentHome w = cwd w"

definition bait_start :: "world \<Rightarrow> AgentConf \<times> RedisServer" where
  "bait_start w =
     (let conf = LoadAgentConf w (AgentHome w) in (conf, NewRedis (StrategyAddr conf) (StrategyPass conf)))"

fun bait_loop ::
  "shell \<Rightarrow> (string \<Rightarrow> zip_entry list option) \<Rightarrow> (string \<Rightarrow> HisBaitPolicy \<times> bool) \<Rightarrow> string list \<Rightarrow> world \<Rightarrow> world" where
  "bait_loop sh unz yaml [] w = w"
| "bait_loop sh unz yaml (msg # msgs) w = bait_loop sh unz yaml msgs (bait_message sh unz yaml msg w)"

text \<open>The proxy module reads its table once so that the file exists.\<close>

definition proxy_start :: "(AgentConf \<times> RedisServer) go" where
  "proxy_start w =
     (let conf = LoadAgentConf w (AgentHome w) in
      case ReadProxyTable w of
        None \<Rightarrow> None
      | Some (_, w1) \<Rightarrow> Some ((conf, NewRedis (StrategyAddr conf) (StrategyPass conf)), w1))"

text \<open>
  A panic in a handler reaches the deferred \<^verbatim>\<open>recover\<close> of \<^verbatim>\<open>main\<close>, after which \<^verbatim>\<open>main\<close> returns: the result is then \<^const>\<open>None\<close>, with the
  messages that are never handled.
\<close>

fun proxy_loop :: "AgentConf \<Rightarrow> string list \<Rightarrow> world \<Rightarrow> world option \<times> string list" where
  "proxy_loop conf [] w = (Some w, [])"
| "proxy_loop conf (msg # msgs) w =
     (case proxy_message conf msg w of None \<Rightarrow> (None, msgs) | Some w1 \<Rightarrow> proxy_loop conf msgs w1)"

text \<open>The listener and the loop, for \<open>n\<close> receives on the subscription.\<close>

definition bait_on_wire ::
  "shell \<Rightarrow> (string \<Rightarrow> zip_entry list option) \<Rightarrow> (string \<Rightarrow> HisBaitPolicy \<times> bool) \<Rightarrow> nat \<Rightarrow> handle \<times> pool \<Rightarrow> world \<Rightarrow> (world \<times> handle \<times> pool) option" where
  "bait_on_wire sh unz yaml n s w = map_option (\<lambda>(ms, s'). (bait_loop sh unz yaml ms w, s')) (listen_rounds SubChannel n s)"

definition proxy_on_wire :: "AgentConf \<Rightarrow> nat \<Rightarrow> handle \<times> pool \<Rightarrow> world \<Rightarrow> ((world option \<times> string list) \<times> handle \<times> pool) option" where
  "proxy_on_wire conf n s w = map_option (\<lambda>(ms, s'). (proxy_loop conf ms w, s')) (listen_rounds ProxySubChannel n s)"

section \<open>Policies on the wire\<close>

definition bait_text :: "FileBaitPolicy \<Rightarrow> string" where
  "bait_text b = b64_encode (json_print (FileBaitPolicy_json b))"

definition strategy_text :: "ProxyStrategy \<Rightarrow> string" where
  "strategy_text p = b64_encode (json_print (ProxyStrategy_json p))"

text \<open>A file-bait policy on the wire, as the dispatcher of the bait module first reads it.\<close>

lemma base_of_file_bait:
  assumes "FileBaitPolicy_ok p"
  shows "fst (unmarshal (dec_struct BasePolicy_fields) (json_print (FileBaitPolicy_json p)) BasePolicy_zero) = fb_base p"
proof -
  have "Option.is_none (find_field BasePolicy_fields ''Md5'')" by code_simp
  then have md5: "find_field BasePolicy_fields ''Md5'' = None" by (simp add: Option.is_none_def)
  have "dec_struct BasePolicy_fields (FileBaitPolicy_json p) BasePolicy_zero = (fb_base p, True)"
    using assms md5
    by (simp add: dec_struct_def FileBaitPolicy_json_def BasePolicy_members_def BasePolicy_zero_def BasePolicy_ok_def FileBaitPolicy_ok_def
        BasePolicy_fields_def base_fields_def find_field_tl)
  then show ?thesis using file_bait_struct.to_ok[OF assms] by (simp add: unmarshal_def json_parse_print)
qed

lemma bait_message_policy:
  assumes "FileBaitPolicy_ok b" "Type (fb_base b) \<in> set file_bait_types"
  shows "bait_message sh unz yaml (b64_encode (json_print (FileBaitPolicy_json b))) w =
    (if AgentId (fb_base b) = QueryEngineId w then handleBaitAndCallback sh unz b w else w)"
  using assms base_of_file_bait[OF assms(1)] file_bait_struct.unmarshal_marshal[OF assms(1)] by (auto simp: bait_message_def Let_def)

lemma proxy_message_policy:
  assumes "ProxyStrategy_ok p"
  shows "proxy_message conf (b64_encode (json_print (ProxyStrategy_json p))) w =
    (if AgentId (px_base p) = QueryEngineId w then handleProxyAndCallback conf (p\<lparr>Date := now w\<rparr>) w else Some w)"
  using assms proxy_struct.unmarshal_marshal[OF assms] by (auto simp: proxy_message_def Let_def)

text \<open>What a policy asks of the host: to be carried out if it names this agent.\<close>

definition carry_out :: "shell \<Rightarrow> (string \<Rightarrow> zip_entry list option) \<Rightarrow> FileBaitPolicy \<Rightarrow> world \<Rightarrow> world" where
  "carry_out sh unz b w = (if AgentId (fb_base b) = QueryEngineId w then handleBaitAndCallback sh unz b w else w)"

lemma bait_loop_policies:
  assumes "\<forall>b\<in>set bs. FileBaitPolicy_ok b \<and> Type (fb_base b) \<in> set file_bait_types"
  shows "bait_loop sh unz yaml (map bait_text bs) w = fold (carry_out sh unz) bs w"
  using assms by (induction bs arbitrary: w) (simp_all add: bait_text_def carry_out_def bait_message_policy)

text \<open>A push of a policy, and the bytes of a sequence of pushes.\<close>

definition pushes :: "string \<Rightarrow> string list \<Rightarrow> string" where
  "pushes channel msgs = concat (map (\<lambda>m. reply_bytes (push_reply m)) (map (Pair channel) msgs))"

lemma list_all_push_ok:
  assumes "int (length channel) \<le> maxAlloc" "\<forall>m\<in>set msgs. int (length m) \<le> maxAlloc"
  shows "list_all push_ok (map (Pair channel) msgs)"
  using assms by (auto simp: list_all_iff push_ok_def)

text \<open>
  C4. From the wire to the host: the policies the console publishes reach the host exactly once each and in order.  When the bytes
  of their push messages arrive on the subscription of the bait module, cut by nothing but the protocol, the module carries out
  these policies one after the other, each with the state its predecessors left, those for other agents having no effect.
\<close>

theorem pushed_policies_carried_out:
  assumes "ac_pc ac = Some a" "pc_c (nodes p ! a) < length (conns p)" "\<not> shut (conn_at p a)"
    "incoming (conn_at p a) = pushes SubChannel (map bait_text bs) @ rest"
    "\<forall>b\<in>set bs. FileBaitPolicy_ok b \<and> Type (fb_base b) \<in> set file_bait_types \<and> int (length (bait_text b)) \<le> maxAlloc"
  shows "\<exists>p'. bait_on_wire sh unz yaml (length bs) (ActiveConn ac, p) w = Some (fold (carry_out sh unz) bs w, ActiveConn ac, p') \<and>
    incoming (conn_at p' a) = rest"
proof -
  let ?ms = "map (Pair SubChannel) (map bait_text bs)"
  have ok: "list_all push_ok ?ms" using assms(5) by (intro list_all_push_ok) (auto simp: SubChannel_def maxAlloc_def)
  have len: "length ?ms = length bs" by simp
  have inc: "incoming (conn_at p a) = concat (map (\<lambda>m. reply_bytes (push_reply m)) ?ms) @ rest" using assms(4) by (simp add: pushes_def)
  obtain p' where "listen_rounds SubChannel (length bs) (ActiveConn ac, p) = Some (map snd ?ms, ActiveConn ac, p')" "incoming (conn_at p' a) = rest"
    using listen_rounds_messages[OF assms(1-3) inc ok, of SubChannel] unfolding len by blast
  moreover have "map snd ?ms = map bait_text bs" by (simp add: comp_def)
  moreover have "bait_loop sh unz yaml (map bait_text bs) w = fold (carry_out sh unz) bs w" using assms(5) by (intro bait_loop_policies) blast
  ultimately show ?thesis unfolding bait_on_wire_def by (simp add: comp_def)
qed

lemma length_b64_encode: "length (b64_encode s) \<le> 4 * length s"
  by (induction s rule: b64_encode.induct) (auto simp: b64_chars_def)

definition other_policy :: FileBaitPolicy where
  "other_policy = FileBaitPolicy_zero\<lparr>fb_base := BasePolicy_zero\<lparr>AgentId := ''other'', Type := ''Bait_FILE''\<rparr>\<rparr>"

lemma other_policy_ok: "FileBaitPolicy_ok other_policy" "Type (fb_base other_policy) \<in> set file_bait_types" "int (length (bait_text other_policy)) \<le> maxAlloc"
proof -
  show "FileBaitPolicy_ok other_policy" "Type (fb_base other_policy) \<in> set file_bait_types"
    by (simp_all add: other_policy_def FileBaitPolicy_ok_def FileBaitPolicy_zero_def BasePolicy_ok_def BasePolicy_zero_def file_bait_types_def byte_of_def in_int64_def)
  have "length (json_print (FileBaitPolicy_json other_policy)) \<le> 1000" by code_simp
  then have "length (bait_text other_policy) \<le> 4000"
    using length_b64_encode[of "json_print (FileBaitPolicy_json other_policy)"] by (simp add: bait_text_def)
  then show "int (length (bait_text other_policy)) \<le> maxAlloc" by (simp add: maxAlloc_def)
qed

theorem pushed_policies_carried_out_witness:
  "\<exists>p'. bait_on_wire (\<lambda>_ _ _ w. (None, w)) (\<lambda>_. None) (\<lambda>_. (\<lparr>BashHistoryPath = [], RandomLine = [], Enabled = False, Honeybits = []\<rparr>, True)) 2
      (ActiveConn \<lparr>ac_pc = Some 0, ac_state = 4\<rparr>,
       got_pool\<lparr>conns := [dialled 0 (pushes SubChannel (map bait_text [other_policy, other_policy]) @ [])]\<rparr>) blank_world =
    Some (fold (carry_out (\<lambda>_ _ _ w. (None, w)) (\<lambda>_. None)) [other_policy, other_policy] blank_world, ActiveConn \<lparr>ac_pc = Some 0, ac_state = 4\<rparr>, p')"
proof -
  let ?p = "got_pool\<lparr>conns := [dialled 0 (pushes SubChannel (map bait_text [other_policy, other_policy]) @ [])]\<rparr>"
  have at: "conn_at ?p 0 = dialled 0 (pushes SubChannel (map bait_text [other_policy, other_policy]) @ [])" "pc_c (nodes ?p ! 0) < length (conns ?p)"
    by (simp_all add: conn_at_def got_pool_def)
  then have "\<not> shut (conn_at ?p 0)" "incoming (conn_at ?p 0) = pushes SubChannel (map bait_text [other_policy, other_policy]) @ []"
    by (simp_all add: dialled_def)
  then show ?thesis
    using pushed_policies_carried_out[of "\<lparr>ac_pc = Some 0, ac_state = 4\<rparr>" 0 ?p "[other_policy, other_policy]" "[]"] at(2) other_policy_ok
    by (simp add: numeral_2_eq_2) blast
qed

end
