(* ===== verification/Uuid.thy ===== *)
theory Uuid
  imports Go_World
begin

text \<open>
  Package \<^verbatim>\<open>util/uuid\<close>: random identifiers (\<^verbatim>\<open>uuid.go\<close>) and the parser of \<^verbatim>\<open>dmidecode\<close>'s output
  (\<^verbatim>\<open>dmidecode.go\<close>).  The bytes that \<^verbatim>\<open>crypto/rand\<close> delivers are an argument.  The regular
  expressions of the parser are data for a small matcher with the leftmost, greedy, backtracking
  meaning of package \<^verbatim>\<open>regexp\<close>; they only use literals, classes under \<^verbatim>\<open>+\<close>, groups of one class
  and the two anchors.
\<close>

section \<open>Identifiers\<close>

definition GenerateRandomBytes :: "(nat \<Rightarrow> string option) \<Rightarrow> nat \<Rightarrow> string option" where
  "GenerateRandomBytes rnd n = rnd n"

definition uuidLen :: nat where
  "uuidLen = 16"

text \<open>\<^verbatim>\<open>buf[a:b]\<close>.\<close>

definition slice :: "nat \<Rightarrow> nat \<Rightarrow> string \<Rightarrow> string" where
  "slice a b s = take (b - a) (drop a s)"

definition FormatUUID :: "string \<Rightarrow> string option" where
  "FormatUUID buf =
     (if length buf \<noteq> uuidLen then None
      else Some (hex_encode (slice 0 4 buf) @ ''-'' @ hex_encode (slice 4 6 buf) @ ''-'' @ hex_encode (slice 6 8 buf) @ ''-'' @
                 hex_encode (slice 8 10 buf) @ ''-'' @ hex_encode (slice 10 16 buf)))"

definition GenerateUUID :: "(nat \<Rightarrow> string option) \<Rightarrow> string option" where
  "GenerateUUID rnd = Option.bind (GenerateRandomBytes rnd uuidLen) FormatUUID"

definition ParseUUID :: "string \<Rightarrow> string option" where
  "ParseUUID uuid =
     (if length uuid \<noteq> 2 * uuidLen + 4 then None
      else if uuid ! 8 \<noteq> CHR ''-'' \<or> uuid ! 13 \<noteq> CHR ''-'' \<or> uuid ! 18 \<noteq> CHR ''-'' \<or> uuid ! 23 \<noteq> CHR ''-'' then None
      else let hexStr = slice 0 8 uuid @ slice 9 13 uuid @ slice 14 18 uuid @ slice 19 23 uuid @ slice 24 36 uuid
           in case hex_decode hexStr of
                None \<Rightarrow> None
              | Some ret \<Rightarrow> if length ret \<noteq> uuidLen then None else Some ret)"

section \<open>Regular expressions\<close>

datatype re = Lit char | Plus "char \<Rightarrow> bool" | Group "char \<Rightarrow> bool" | Eol

fun first_some :: "('a \<Rightarrow> 'b option) \<Rightarrow> 'a list \<Rightarrow> 'b option" where
  "first_some f [] = None"
| "first_some f (x # xs) = (case f x of None \<Rightarrow> first_some f xs | Some y \<Rightarrow> Some y)"

text \<open>The lengths a greedy \<^verbatim>\<open>+\<close> tries: longest first.\<close>

definition greedy :: "(char \<Rightarrow> bool) \<Rightarrow> string \<Rightarrow> nat list" where
  "greedy P s = rev [1..<Suc (length (takeWhile P s))]"

fun re_match :: "re list \<Rightarrow> string \<Rightarrow> string list option" where
  "re_match [] s = Some []"
| "re_match (Lit c # rs) s = (case s of [] \<Rightarrow> None | d # ds \<Rightarrow> if c = d then re_match rs ds else None)"
| "re_match (Plus P # rs) s = first_some (\<lambda>n. re_match rs (drop n s)) (greedy P s)"
| "re_match (Group P # rs) s = first_some (\<lambda>n. map_option (Cons (take n s)) (re_match rs (drop n s))) (greedy P s)"
| "re_match (Eol # rs) s = (if s = [] then re_match rs s else None)"

fun re_search :: "re list \<Rightarrow> string \<Rightarrow> string list option" where
  "re_search rs [] = re_match rs []"
| "re_search rs (c # cs) = (case re_match rs (c # cs) of Some g \<Rightarrow> Some g | None \<Rightarrow> re_search rs cs)"

definition is_space :: "char \<Rightarrow> bool" where
  "is_space c = (c = CHR 0x20 \<or> c = CHR 0x09 \<or> c = CHR 0x0A \<or> c = CHR 0x0C \<or> c = CHR 0x0D)"

definition is_any :: "char \<Rightarrow> bool" where
  "is_any c = (c \<noteq> CHR 0x0A)"

definition handleRegex :: "re list" where
  "handleRegex = map Lit ''Handle'' @ [Plus is_space, Group is_any, Lit (CHR '',''), Plus is_space] @ map Lit ''DMI'' @
     [Plus is_space] @ map Lit ''type'' @ [Plus is_space, Group is_digit, Lit (CHR '',''), Plus is_space, Group is_digit,
      Plus is_space] @ map Lit ''bytes'' @ [Eol]"

definition inBlockRegex :: "re list" where
  "inBlockRegex = [Lit (CHR 0x09), Lit (CHR 0x09), Group is_any, Eol]"

definition recordRegex :: "re list" where
  "recordRegex = [Lit (CHR 0x09), Group is_any, Lit (CHR '':''), Plus is_space, Group is_any, Eol]"

definition recordRegex2 :: "re list" where
  "recordRegex2 = [Lit (CHR 0x09), Group is_any, Lit (CHR '':''), Eol]"

section \<open>Records\<close>

type_synonym dmi_record = "(string \<times> string) list"

record DMI =
  dmi_Data :: "(string \<times> dmi_record list) list"
  Binary :: string

definition New :: DMI where
  "New = \<lparr>dmi_Data = [], Binary = ''dmidecode''\<rparr>"

fun find_bin :: "world \<Rightarrow> string \<Rightarrow> string list \<Rightarrow> string option" where
  "find_bin w binary [] = None"
| "find_bin w binary (path # rest) =
     (let lookup = path @ ''/'' @ binary in
      if files w (abs_path w lookup) \<noteq> None \<and> \<not> dirs w (abs_path w lookup) then Some lookup
      else find_bin w binary rest)"

definition FindBin :: "world \<Rightarrow> string \<Rightarrow> string option" where
  "FindBin w binary = find_bin w binary [''/etc/fstab'', ''/sbin'', ''/usr/sbin'', ''/usr/local/sbin'']"

text \<open>The state of the loop over a record's lines: the record, \<^verbatim>\<open>inBlockElement\<close>, \<^verbatim>\<open>inBlockList\<close>.\<close>

type_synonym line_state = "dmi_record \<times> string \<times> string"

definition plain_line :: "string \<Rightarrow> line_state \<Rightarrow> line_state" where
  "plain_line line st =
     (case st of (r, inBlockElement, inBlockList) \<Rightarrow>
        case re_search recordRegex line of
          Some [k, v] \<Rightarrow> (AList.update k v r, inBlockElement, inBlockList)
        | _ \<Rightarrow> (case re_search recordRegex2 line of
                  Some [k] \<Rightarrow> (r, k, inBlockList)
                | _ \<Rightarrow> (r, inBlockElement, inBlockList)))"

definition dmi_line :: "string \<Rightarrow> line_state \<Rightarrow> line_state" where
  "dmi_line line st =
     (case st of (r, inBlockElement, inBlockList) \<Rightarrow>
        if inBlockElement \<noteq> [] then
          (case re_match inBlockRegex line of
             Some (v # _) \<Rightarrow>
               (let l = (if length inBlockList = 0 then v else inBlockList @ [CHR 0x09, CHR 0x09] @ v)
                in (AList.update inBlockElement l r, inBlockElement, l))
           | _ \<Rightarrow> plain_line line (r, [], inBlockList))
        else plain_line line st)"

definition parse_record :: "string \<Rightarrow> (string \<times> dmi_record) option" where
  "parse_record record =
     (let recordElements = Split record [CHR 0x0A] in
      if length recordElements < 3 then None
      else case re_match handleRegex (recordElements ! 0) of
             Some [dmiHandle, ty, sz] \<Rightarrow>
               (let r0 = [(''DMIType'', ty), (''DMISize'', sz), (''DMIName'', recordElements ! 1)];
                    (r, _, _) = fold dmi_line (drop 2 recordElements) (r0, [], [])
                in Some (dmiHandle, r))
           | _ \<Rightarrow> None)"

definition add_record :: "string \<Rightarrow> (string \<times> dmi_record list) list \<Rightarrow> (string \<times> dmi_record list) list" where
  "add_record record data =
     (case parse_record record of
        None \<Rightarrow> data
      | Some (h, r) \<Rightarrow> AList.update h ((case map_of data h of None \<Rightarrow> [] | Some rs \<Rightarrow> rs) @ [r]) data)"

definition ParseDmidecode :: "string \<Rightarrow> DMI \<Rightarrow> bool \<times> DMI" where
  "ParseDmidecode output d =
     (let data = fold add_record (Split output [CHR 0x0A, CHR 0x0A]) (dmi_Data d)
      in (data \<noteq> [], d\<lparr>dmi_Data := data\<rparr>))"

text \<open>\<open>exec bin\<close> is the output of the program, \<^const>\<open>None\<close> when it fails.\<close>

definition Run :: "(string \<Rightarrow> string option) \<Rightarrow> world \<Rightarrow> DMI \<Rightarrow> bool \<times> DMI" where
  "Run exec w d =
     (case FindBin w (Binary d) of
        None \<Rightarrow> (False, d)
      | Some bin \<Rightarrow> (case exec bin of None \<Rightarrow> (False, d) | Some output \<Rightarrow> ParseDmidecode output d))"

definition field_of :: "dmi_record \<Rightarrow> string \<Rightarrow> string" where
  "field_of r param = (case map_of r param of None \<Rightarrow> [] | Some v \<Rightarrow> v)"

definition GenericSearchBy :: "DMI \<Rightarrow> string \<Rightarrow> string \<Rightarrow> dmi_record list option" where
  "GenericSearchBy d param value =
     (if dmi_Data d = [] then None
      else Some (concat (map (\<lambda>(_, v). filter (\<lambda>r. field_of r param = value) v) (dmi_Data d))))"

definition SearchByName :: "DMI \<Rightarrow> string \<Rightarrow> dmi_record list option" where
  "SearchByName d name = GenericSearchBy d ''DMIName'' name"

definition SearchByType :: "DMI \<Rightarrow> int \<Rightarrow> dmi_record list option" where
  "SearchByType d i = GenericSearchBy d ''DMIType'' (Itoa i)"

section \<open>Identifiers survive printing\<close>

lemma slice_append: "a = length x \<Longrightarrow> b - a = length y \<Longrightarrow> slice a b (x @ y @ z) = y"
  by (simp add: slice_def)

lemma length_slice: "b \<le> length s \<Longrightarrow> length (slice a b s) = b - a"
  by (simp add: slice_def)

lemma slice_step: "a \<le> b \<Longrightarrow> slice a b s @ drop b s = drop a s"
  unfolding slice_def by (metis append_take_drop_id drop_drop le_add_diff_inverse2)

lemma slices16:
  assumes "length buf = 16"
  shows "slice 0 4 buf @ slice 4 6 buf @ slice 6 8 buf @ slice 8 10 buf @ slice 10 16 buf = buf"
proof -
  have "slice 10 16 buf = drop 10 buf" using assms by (simp add: slice_def)
  then have "slice 8 10 buf @ slice 10 16 buf = drop 8 buf" by (simp add: slice_step)
  then have "slice 6 8 buf @ slice 8 10 buf @ slice 10 16 buf = drop 6 buf" by (simp add: slice_step)
  then have "slice 4 6 buf @ slice 6 8 buf @ slice 8 10 buf @ slice 10 16 buf = drop 4 buf" by (simp add: slice_step)
  then show ?thesis using slice_step[of 0 4 buf] by simp
qed

lemma ParseUUID_parts:
  assumes "length A = 8" "length B = 4" "length C = 4" "length D = 4" "length E = 12"
  shows "ParseUUID (A @ ''-'' @ B @ ''-'' @ C @ ''-'' @ D @ ''-'' @ E) =
    (case hex_decode (A @ B @ C @ D @ E) of None \<Rightarrow> None | Some r \<Rightarrow> if length r \<noteq> 16 then None else Some r)"
proof -
  let ?s = "A @ ''-'' @ B @ ''-'' @ C @ ''-'' @ D @ ''-'' @ E"
  have "slice 0 8 ?s = A" "slice 9 13 ?s = B" "slice 14 18 ?s = C" "slice 19 23 ?s = D" "slice 24 36 ?s = E"
    "?s ! 8 = CHR ''-''" "?s ! 13 = CHR ''-''" "?s ! 18 = CHR ''-''" "?s ! 23 = CHR ''-''" "length ?s = 36"
    using assms by (simp_all add: slice_def nth_append)
  then show ?thesis unfolding ParseUUID_def uuidLen_def Let_def by simp
qed

text \<open>
  Identifiers round-trip: \<^verbatim>\<open>FormatUUID\<close> fails exactly on inputs that are not 16 bytes long, and
  \<^verbatim>\<open>ParseUUID\<close> of what it prints gives the bytes back.
\<close>

theorem ParseUUID_FormatUUID:
  "Option.bind (FormatUUID buf) ParseUUID = (if length buf = 16 then Some buf else None)"
proof (cases "length buf = 16")
  case True
  then have "hex_decode (hex_encode (slice 0 4 buf) @ hex_encode (slice 4 6 buf) @ hex_encode (slice 6 8 buf) @
      hex_encode (slice 8 10 buf) @ hex_encode (slice 10 16 buf)) = Some buf"
    using slices16[OF True] by (simp add: hex_decode_encode flip: hex_encode_append)
  then show ?thesis
    using True ParseUUID_parts[of "hex_encode (slice 0 4 buf)" "hex_encode (slice 4 6 buf)" "hex_encode (slice 6 8 buf)"
        "hex_encode (slice 8 10 buf)" "hex_encode (slice 10 16 buf)"]
    by (simp add: FormatUUID_def uuidLen_def length_slice)
next
  case False
  then show ?thesis by (simp add: FormatUUID_def uuidLen_def)
qed

section \<open>The parser of dmidecode's output\<close>

lemma greedy_all: "\<forall>c\<in>set s. P c \<Longrightarrow> s \<noteq> [] \<Longrightarrow> greedy P s = length s # rev [1..<length s]"
  by (cases s) (simp_all add: greedy_def takeWhile_eq_all_conv[THEN iffD2])

lemma inBlock_match:
  "v \<noteq> [] \<Longrightarrow> CHR 0x0A \<notin> set v \<Longrightarrow> re_match inBlockRegex (CHR 0x09 # CHR 0x09 # v) = Some [v]"
proof -
  assume v: "v \<noteq> []" "CHR 0x0A \<notin> set v"
  then have "\<forall>c\<in>set v. is_any c" by (auto simp: is_any_def)
  with v(1) have "greedy is_any v = length v # rev [1..<length v]" by (intro greedy_all)
  then show ?thesis by (simp add: inBlockRegex_def)
qed

lemma dmi_line_in_block:
  assumes "v \<noteq> []" "CHR 0x0A \<notin> set v" "e \<noteq> []"
  shows "dmi_line (CHR 0x09 # CHR 0x09 # v) (r, e, l) =
    (let l' = (if l = [] then v else l @ [CHR 0x09, CHR 0x09] @ v) in (AList.update e l' r, e, l'))"
  using assms inBlock_match[OF assms(1,2)] by (simp add: dmi_line_def)

text \<open>
  The search returns exactly the matching records: every record of the parsed data whose field has
  the value (an absent field counting as empty), each as often as it was parsed, and nothing
  else; it fails only while no data has been parsed.
\<close>

theorem GenericSearchBy_exact:
  "map_option mset (GenericSearchBy d param value) =
     (if dmi_Data d = [] then None
      else Some (filter_mset (\<lambda>r. field_of r param = value) (\<Sum>(_, v)\<in>#mset (dmi_Data d). mset v)))"
proof -
  have "mset (concat (map (\<lambda>(_, v). filter P v) kvs)) = filter_mset P (\<Sum>(_, v)\<in>#mset kvs. mset v)"
    for P :: "dmi_record \<Rightarrow> bool" and kvs :: "(string \<times> dmi_record list) list"
    by (induction kvs) auto
  then show ?thesis by (simp add: GenericSearchBy_def)
qed

lemma block_heads:
  "plain_line (CHR 0x09 # ''Flags:'') (r, e, l) = (r, ''Flags'', l)"
  "plain_line (CHR 0x09 # ''Features:'') (r, e, l) = (r, ''Features'', l)"
  "re_match inBlockRegex (CHR 0x09 # ''Features:'') = None"
proof -
  have "re_search recordRegex (CHR 0x09 # ''Flags:'') = None" "re_search recordRegex (CHR 0x09 # ''Features:'') = None"
    "re_search recordRegex2 (CHR 0x09 # ''Flags:'') = Some [''Flags'']"
    "re_search recordRegex2 (CHR 0x09 # ''Features:'') = Some [''Features'']"
    by code_simp+
  then show "plain_line (CHR 0x09 # ''Flags:'') (r, e, l) = (r, ''Flags'', l)"
    "plain_line (CHR 0x09 # ''Features:'') (r, e, l) = (r, ''Features'', l)"
    by (simp_all add: plain_line_def)
  show "re_match inBlockRegex (CHR 0x09 # ''Features:'') = None" by code_simp
qed

text \<open>
  The value of a list field is not reset between the lists of one record: after a first list with
  the entry \<open>a\<close>, a second list whose only entry is \<open>b\<close> is stored as \<open>a\<close> followed by \<open>b\<close>.
\<close>

theorem second_list_keeps_first:
  assumes "a \<noteq> []" "CHR 0x0A \<notin> set a" "b \<noteq> []" "CHR 0x0A \<notin> set b"
  shows "(case fold dmi_line [CHR 0x09 # ''Flags:'', CHR 0x09 # CHR 0x09 # a, CHR 0x09 # ''Features:'', CHR 0x09 # CHR 0x09 # b]
            (r, [], []) of (r', _, _) \<Rightarrow> map_of r' ''Flags'' = Some a \<and>
              map_of r' ''Features'' = Some (a @ [CHR 0x09, CHR 0x09] @ b))"
proof -
  have "dmi_line (CHR 0x09 # ''Flags:'') (r, [], []) = (r, ''Flags'', [])"
    by (simp add: dmi_line_def block_heads)
  moreover have "dmi_line (CHR 0x09 # ''Features:'') (r', ''Flags'', l) = (r', ''Features'', l)" for r' l
    by (simp add: dmi_line_def block_heads)
  ultimately show ?thesis
    using assms by (simp add: dmi_line_in_block Let_def map_of_update)
qed

theorem second_list_keeps_first_witness:
  "case fold dmi_line [CHR 0x09 # ''Flags:'', CHR 0x09 # CHR 0x09 # ''FPU'', CHR 0x09 # ''Features:'', CHR 0x09 # CHR 0x09 # ''ECC'']
     ([], [], []) of (r', _, _) \<Rightarrow> map_of r' ''Flags'' = Some ''FPU'' \<and>
       map_of r' ''Features'' = Some (''FPU'' @ [CHR 0x09, CHR 0x09] @ ''ECC'')"
  by (rule second_list_keeps_first) simp_all

end
