(* ===== verification/Ps_Process.thy ===== *)
theory Ps_Process
  imports Go_Paths
begin

text \<open>
  What the program uses of the library that observes processes (\<^verbatim>\<open>github.com/shirou/gopsutil/process\<close>: \<^verbatim>\<open>process.go\<close>,
  \<^verbatim>\<open>process_linux.go\<close>, \<^verbatim>\<open>process_posix.go\<close>): the files \<^verbatim>\<open>statm\<close>, \<^verbatim>\<open>status\<close>, \<^verbatim>\<open>stat\<close> and \<^verbatim>\<open>cmdline\<close> of \<^verbatim>\<open>/proc/<pid>\<close>
  read into a \<^verbatim>\<open>Process\<close>, and the CPU shares computed from two readings or since the start.  Floating-point numbers are
  rationals.  An observation of the machine is a record; a file that cannot be read is \<^const>\<open>None\<close>.  An index out of range is a
  panic, the outer \<^const>\<open>None\<close> of a result.
\<close>

section \<open>Strings and numbers\<close>

text \<open>\<^verbatim>\<open>strings.Fields\<close> for ASCII white space.\<close>

definition space_char :: "char \<Rightarrow> bool" where
  "space_char c = (c = CHR '' '' \<or> (9 \<le> byte_of c \<and> byte_of c \<le> 13))"

function Fields :: "string \<Rightarrow> string list" where
  "Fields s =
     (let t = dropWhile space_char s
      in if t = [] then [] else takeWhile (\<lambda>c. \<not> space_char c) t # Fields (dropWhile (\<lambda>c. \<not> space_char c) t))"
  by pat_completeness auto
termination
proof (relation "measure length", goal_cases)
  case (2 s x)
  then obtain c cs where x: "x = c # cs" "\<not> space_char c" by (metis hd_dropWhile list.exhaust list.sel(1))
  then have "length (dropWhile (\<lambda>c. \<not> space_char c) x) < length x"
    by (simp add: le_imp_less_Suc length_dropWhile_le)
  moreover have "length x \<le> length s" using 2 by (simp add: length_dropWhile_le)
  ultimately show ?case by simp
qed simp

declare Fields.simps [simp del]

definition TrimRight :: "string \<Rightarrow> string \<Rightarrow> string" where
  "TrimRight s cutset = rev (dropWhile (\<lambda>c. c \<in> set cutset) (rev s))"

definition Trim :: "string \<Rightarrow> string \<Rightarrow> string" where
  "Trim s cutset = TrimRight (dropWhile (\<lambda>c. c \<in> set cutset) s) cutset"

text \<open>\<^verbatim>\<open>strconv.ParseUint\<close> into 64 bits, for the bases 10 and 16; no sign is allowed.\<close>

fun uint_base :: "nat \<Rightarrow> nat \<Rightarrow> string \<Rightarrow> nat option" where
  "uint_base b a [] = Some a"
| "uint_base b a (c # cs) =
     (case (if 65 \<le> byte_of c \<and> byte_of c \<le> 70 then Some (byte_of c - 55) else hex_val c) of
        Some d \<Rightarrow> if d < b then uint_base b (a * b + d) cs else None
      | None \<Rightarrow> None)"

definition ParseUint :: "nat \<Rightarrow> string \<Rightarrow> nat option" where
  "ParseUint b s =
     (if s = [] then None
      else case uint_base b 0 s of None \<Rightarrow> None | Some n \<Rightarrow> if n < 2 ^ 64 then Some n else None)"

definition ParseInt32 :: "string \<Rightarrow> int option" where
  "ParseInt32 s =
     (case ParseInt 10 s of None \<Rightarrow> None | Some i \<Rightarrow> if - (2 ^ 31) \<le> i \<and> i < 2 ^ 31 then Some i else None)"

text \<open>\<^verbatim>\<open>strconv.ParseFloat\<close> for the decimal forms without an exponent.\<close>

definition ParseFloat :: "string \<Rightarrow> rat option" where
  "ParseFloat s =
     (let (neg, ds) = (case s of
            [] \<Rightarrow> (False, [])
          | c # cs \<Rightarrow> if c = CHR ''-'' then (True, cs) else if c = CHR ''+'' then (False, cs) else (False, c # cs));
          ip = takeWhile (\<lambda>c. c \<noteq> CHR ''.'') ds; fp = tl (dropWhile (\<lambda>c. c \<noteq> CHR ''.'') ds)
      in if ip @ fp = [] then None
         else case uint_acc 10 0 (ip @ fp) of
                None \<Rightarrow> None
              | Some n \<Rightarrow> Some ((if neg then -1 else 1) * of_nat n / 10 ^ length fp))"

section \<open>Observations and processes\<close>

text \<open>What \<^verbatim>\<open>kill(pid, 0)\<close> answers.\<close>

datatype sig_answer = SigOk | SigFinished | SigESRCH | SigEPERM | SigOther

record observation =
  o_statm :: "string option"
  o_status :: "string option"
  o_stat :: "string option"
  o_cmdline :: "string option"
  o_signal :: sig_answer
  o_now :: int
  o_boot :: nat
  o_nice :: int
  o_cpus :: nat
  o_page :: nat

datatype ps_error = EReadFile | EParse | ENotRunning | EInvalidPid | ESignal

record MemoryInfoStat =
  m_RSS :: nat
  m_VMS :: nat
  m_HWM :: nat
  m_Data :: nat
  m_Stack :: nat
  m_Locked :: nat
  m_Swap :: nat

record MemoryInfoExStat =
  x_RSS :: nat
  x_VMS :: nat
  x_Shared :: nat
  x_Text :: nat
  x_Lib :: nat
  x_Data :: nat
  x_Dirty :: nat

record SignalInfoStat =
  s_PendingProcess :: nat
  s_PendingThread :: nat
  s_Blocked :: nat
  s_Ignored :: nat
  s_Caught :: nat

record NumCtxSwitchesStat =
  n_Voluntary :: int
  n_Involuntary :: int

record PageFaultsStat =
  f_MinorFaults :: nat
  f_MajorFaults :: nat
  f_ChildMinorFaults :: nat
  f_ChildMajorFaults :: nat

record TimesStat =
  t_CPU :: string
  t_User :: rat
  t_System :: rat
  t_Idle :: rat
  t_Nice :: rat
  t_Iowait :: rat
  t_Irq :: rat
  t_Softirq :: rat
  t_Steal :: rat
  t_Guest :: rat
  t_GuestNice :: rat

record Process =
  ps_Pid :: int
  ps_name :: string
  ps_status :: string
  ps_parent :: int
  ps_numCtxSwitches :: NumCtxSwitchesStat
  ps_uids :: "int list"
  ps_gids :: "int list"
  ps_numThreads :: int
  ps_memInfo :: MemoryInfoStat
  ps_sigInfo :: SignalInfoStat
  ps_createTime :: int
  ps_lastCPUTimes :: "TimesStat option"
  ps_lastCPUTime :: int
  ps_tgid :: int

definition mem_zero :: MemoryInfoStat where
  "mem_zero = \<lparr>m_RSS = 0, m_VMS = 0, m_HWM = 0, m_Data = 0, m_Stack = 0, m_Locked = 0, m_Swap = 0\<rparr>"

definition sig_zero :: SignalInfoStat where
  "sig_zero = \<lparr>s_PendingProcess = 0, s_PendingThread = 0, s_Blocked = 0, s_Ignored = 0, s_Caught = 0\<rparr>"

definition ctx_zero :: NumCtxSwitchesStat where
  "ctx_zero = \<lparr>n_Voluntary = 0, n_Involuntary = 0\<rparr>"

text \<open>
  A process as \<^verbatim>\<open>NewProcess\<close> makes it.  The three pointers that are nil there are only read after \<^verbatim>\<open>fillFromStatus\<close> has set
  them, so they are the structs themselves.
\<close>

definition new_process :: "int \<Rightarrow> Process" where
  "new_process pid = \<lparr>ps_Pid = pid, ps_name = [], ps_status = [], ps_parent = 0, ps_numCtxSwitches = ctx_zero, ps_uids = [], ps_gids = [],
     ps_numThreads = 0, ps_memInfo = mem_zero, ps_sigInfo = sig_zero, ps_createTime = 0, ps_lastCPUTimes = None, ps_lastCPUTime = 0, ps_tgid = 0\<rparr>"

definition PidExists :: "observation \<Rightarrow> int \<Rightarrow> bool \<times> ps_error option" where
  "PidExists ob pid =
     (if pid \<le> 0 then (False, Some EInvalidPid)
      else case o_signal ob of
             SigOk \<Rightarrow> (True, None)
           | SigFinished \<Rightarrow> (False, None)
           | SigESRCH \<Rightarrow> (False, None)
           | SigEPERM \<Rightarrow> (True, None)
           | SigOther \<Rightarrow> (False, Some ESignal))"

text \<open>The goroutine it starts fills \<open>ps_createTime\<close> with the value that \<open>CreateTime\<close> below computes.\<close>

definition NewProcess :: "observation \<Rightarrow> int \<Rightarrow> Process \<times> ps_error option" where
  "NewProcess ob pid =
     (let p = new_process pid
      in case PidExists ob pid of
           (_, Some e) \<Rightarrow> (p, Some e)
         | (False, None) \<Rightarrow> (p, Some ENotRunning)
         | (True, None) \<Rightarrow> (p, None))"

section \<open>Reading the files\<close>

type_synonym 'a ps = "(ps_error + 'a) option"

definition bindp :: "'a ps \<Rightarrow> ('a \<Rightarrow> 'b ps) \<Rightarrow> 'b ps" where
  "bindp m f = (case m of None \<Rightarrow> None | Some (Inl e) \<Rightarrow> Some (Inl e) | Some (Inr x) \<Rightarrow> f x)"

lemma bindp_simps [simp]: "bindp None f = None" "bindp (Some (Inl e)) f = Some (Inl e)" "bindp (Some (Inr x)) f = f x"
  by (simp_all add: bindp_def)

text \<open>Parsing the field with the index \<open>i\<close>, which panics when there is no such field.\<close>

definition parse_at :: "(string \<Rightarrow> 'a option) \<Rightarrow> string list \<Rightarrow> nat \<Rightarrow> 'a ps" where
  "parse_at parse fs i =
     (if i < length fs then Some (case parse (fs ! i) of None \<Rightarrow> Inl EParse | Some x \<Rightarrow> Inr x) else None)"

definition uint64 :: "nat \<Rightarrow> nat" where
  "uint64 n = n mod 2 ^ 64"

definition fillFromStatm :: "observation \<Rightarrow> (MemoryInfoStat \<times> MemoryInfoExStat) ps" where
  "fillFromStatm ob =
     (case o_statm ob of
        None \<Rightarrow> Some (Inl EReadFile)
      | Some contents \<Rightarrow>
          (let fs = Split contents '' ''; bytes = (\<lambda>n. uint64 (n * o_page ob)) in
           bindp (parse_at (ParseUint 10) fs 0) (\<lambda>vms.
           bindp (parse_at (ParseUint 10) fs 1) (\<lambda>rss.
           bindp (parse_at (ParseUint 10) fs 2) (\<lambda>shared.
           bindp (parse_at (ParseUint 10) fs 3) (\<lambda>text_pages.
           bindp (parse_at (ParseUint 10) fs 4) (\<lambda>lib.
           bindp (parse_at (ParseUint 10) fs 5) (\<lambda>dirty.
             Some (Inr (mem_zero\<lparr>m_RSS := bytes rss, m_VMS := bytes vms\<rparr>,
               \<lparr>x_RSS = bytes rss, x_VMS = bytes vms, x_Shared = bytes shared, x_Text = bytes text_pages, x_Lib = bytes lib,
                x_Data = 0, x_Dirty = bytes dirty\<rparr>))))))))))"

definition MemoryInfo :: "observation \<Rightarrow> MemoryInfoStat ps" where
  "MemoryInfo ob = bindp (fillFromStatm ob) (\<lambda>(m, _). Some (Inr m))"

definition CmdlineSlice :: "observation \<Rightarrow> ps_error + string list" where
  "CmdlineSlice ob =
     (case o_cmdline ob of
        None \<Rightarrow> Inl EReadFile
      | Some cmdline \<Rightarrow>
          if cmdline = [] then Inr []
          else Inr (Split (if last cmdline = CHR 0x00 then butlast cmdline else cmdline) [CHR 0x00]))"

text \<open>The name of a process, which the kernel cuts off after 15 bytes.\<close>

definition status_name :: "observation \<Rightarrow> string \<Rightarrow> ps_error + string" where
  "status_name ob value =
     (let name = Trim value ('' '' @ [CHR 0x09])
      in if length name < 15 then Inr name
         else case CmdlineSlice ob of
                Inl e \<Rightarrow> Inl e
              | Inr [] \<Rightarrow> Inr name
              | Inr (arg0 # _) \<Rightarrow> (let extended = Base arg0 in Inr (if HasPrefix extended name then extended else arg0)))"

fun parse_ids :: "string list \<Rightarrow> int list \<times> bool" where
  "parse_ids [] = ([], True)"
| "parse_ids (i # is) =
     (case ParseInt32 i of None \<Rightarrow> ([], False) | Some v \<Rightarrow> (let (vs, ok) = parse_ids is in (v # vs, ok)))"

definition status_ids :: "string \<Rightarrow> (int list \<Rightarrow> Process \<Rightarrow> Process) \<Rightarrow> Process \<Rightarrow> ps_error option \<times> Process" where
  "status_ids value upd p =
     (let (vs, ok) = parse_ids (Split value [CHR 0x09]) in (if ok then None else Some EParse, upd vs p))"

text \<open>A line of \<^verbatim>\<open>status\<close> with a number: parse it, store it.\<close>

definition status_num :: "'n option \<Rightarrow> ('n \<Rightarrow> Process \<Rightarrow> Process) \<Rightarrow> Process \<Rightarrow> ps_error option \<times> Process" where
  "status_num parsed upd p = (case parsed of None \<Rightarrow> (Some EParse, p) | Some v \<Rightarrow> (None, upd v p))"

definition status_kB :: "string \<Rightarrow> (nat \<Rightarrow> MemoryInfoStat \<Rightarrow> MemoryInfoStat) \<Rightarrow> Process \<Rightarrow> ps_error option \<times> Process" where
  "status_kB value upd p =
     status_num (ParseUint 10 (Trim value '' kB'')) (\<lambda>v q. q\<lparr>ps_memInfo := upd (uint64 (v * 1024)) (ps_memInfo q)\<rparr>) p"

definition status_sig :: "string \<Rightarrow> (nat \<Rightarrow> SignalInfoStat \<Rightarrow> SignalInfoStat) \<Rightarrow> Process \<Rightarrow> ps_error option \<times> Process" where
  "status_sig value upd p = status_num (ParseUint 16 value) (\<lambda>v q. q\<lparr>ps_sigInfo := upd v (ps_sigInfo q)\<rparr>) p"

definition status_counter :: "string \<Rightarrow> string \<Rightarrow> Process \<Rightarrow> ps_error option \<times> Process" where
  "status_counter key value p =
     (if key = ''PPid'' \<or> key = ''Ppid'' then status_num (ParseInt32 value) (\<lambda>v q. q\<lparr>ps_parent := v\<rparr>) p
      else if key = ''Tgid'' then status_num (ParseInt32 value) (\<lambda>v q. q\<lparr>ps_tgid := v\<rparr>) p
      else if key = ''Uid'' then status_ids value (\<lambda>vs q. q\<lparr>ps_uids := vs\<rparr>) p
      else if key = ''Gid'' then status_ids value (\<lambda>vs q. q\<lparr>ps_gids := vs\<rparr>) p
      else if key = ''Threads'' then status_num (ParseInt32 value) (\<lambda>v q. q\<lparr>ps_numThreads := v\<rparr>) p
      else if key = ''voluntary_ctxt_switches'' then
          status_num (ParseInt 10 value) (\<lambda>v q. q\<lparr>ps_numCtxSwitches := (ps_numCtxSwitches q)\<lparr>n_Voluntary := v\<rparr>\<rparr>) p
      else if key = ''nonvoluntary_ctxt_switches'' then
          status_num (ParseInt 10 value) (\<lambda>v q. q\<lparr>ps_numCtxSwitches := (ps_numCtxSwitches q)\<lparr>n_Involuntary := v\<rparr>\<rparr>) p
      else if key = ''VmRSS'' then status_kB value (\<lambda>v m. m\<lparr>m_RSS := v\<rparr>) p
      else if key = ''VmSize'' then status_kB value (\<lambda>v m. m\<lparr>m_VMS := v\<rparr>) p
      else if key = ''VmSwap'' then status_kB value (\<lambda>v m. m\<lparr>m_Swap := v\<rparr>) p
      else if key = ''VmHWM'' then status_kB value (\<lambda>v m. m\<lparr>m_HWM := v\<rparr>) p
      else if key = ''VmData'' then status_kB value (\<lambda>v m. m\<lparr>m_Data := v\<rparr>) p
      else if key = ''VmStk'' then status_kB value (\<lambda>v m. m\<lparr>m_Stack := v\<rparr>) p
      else if key = ''VmLck'' then status_kB value (\<lambda>v m. m\<lparr>m_Locked := v\<rparr>) p
      else if key = ''SigPnd'' then status_sig value (\<lambda>v s. s\<lparr>s_PendingThread := v\<rparr>) p
      else if key = ''ShdPnd'' then status_sig value (\<lambda>v s. s\<lparr>s_PendingProcess := v\<rparr>) p
      else if key = ''SigBlk'' then status_sig value (\<lambda>v s. s\<lparr>s_Blocked := v\<rparr>) p
      else if key = ''SigIgn'' then status_sig value (\<lambda>v s. s\<lparr>s_Ignored := v\<rparr>) p
      else if key = ''SigCgt'' then status_sig value (\<lambda>v s. s\<lparr>s_Caught := v\<rparr>) p
      else (None, p))"

definition status_entry :: "observation \<Rightarrow> string \<Rightarrow> string \<Rightarrow> Process \<Rightarrow> (ps_error option \<times> Process) option" where
  "status_entry ob key value p =
     (if key = ''Name'' then
        Some (case status_name ob value of
                Inl e \<Rightarrow> (Some e, p\<lparr>ps_name := Trim value ('' '' @ [CHR 0x09])\<rparr>)
              | Inr n \<Rightarrow> (None, p\<lparr>ps_name := n\<rparr>))
      else if key = ''State'' then (if value = [] then None else Some (None, p\<lparr>ps_status := take 1 value\<rparr>))
      else Some (status_counter key value p))"

definition status_line :: "observation \<Rightarrow> string \<Rightarrow> Process \<Rightarrow> (ps_error option \<times> Process) option" where
  "status_line ob line p =
     (case SplitN2 line [CHR 0x09] of
        [key, value] \<Rightarrow> status_entry ob (TrimRight key '':'') value p
      | _ \<Rightarrow> Some (None, p))"

fun status_lines :: "observation \<Rightarrow> string list \<Rightarrow> Process \<Rightarrow> (ps_error option \<times> Process) option" where
  "status_lines ob [] p = Some (None, p)"
| "status_lines ob (l # ls) p =
     (case status_line ob l p of
        None \<Rightarrow> None
      | Some (Some e, q) \<Rightarrow> Some (Some e, q)
      | Some (None, q) \<Rightarrow> status_lines ob ls q)"

definition fillFromStatus :: "observation \<Rightarrow> Process \<Rightarrow> (ps_error option \<times> Process) option" where
  "fillFromStatus ob p =
     (case o_status ob of
        None \<Rightarrow> Some (Some EReadFile, p)
      | Some contents \<Rightarrow>
          status_lines ob (Split contents [CHR 0x0A]) (p\<lparr>ps_numCtxSwitches := ctx_zero, ps_memInfo := mem_zero, ps_sigInfo := sig_zero\<rparr>))"

definition Process_Status :: "observation \<Rightarrow> Process \<Rightarrow> ((string \<times> ps_error option) \<times> Process) option" where
  "Process_Status ob p =
     (case fillFromStatus ob p of
        None \<Rightarrow> None
      | Some (Some e, q) \<Rightarrow> Some (([], Some e), q)
      | Some (None, q) \<Rightarrow> Some ((ps_status q, None), q))"

section \<open>CPU times\<close>

record stat_info =
  si_terminal :: nat
  si_ppid :: int
  si_times :: TimesStat
  si_createTime :: int
  si_rtpriority :: int
  si_nice :: int
  si_faults :: PageFaultsStat

definition ClockTicks :: nat where
  "ClockTicks = 100"

text \<open>The loop that looks for the end of the name: the first field from index 1 that ends in a parenthesis.\<close>

fun name_end :: "string list \<Rightarrow> nat \<Rightarrow> nat option" where
  "name_end [] i = None"
| "name_end (f # fs) i = (if HasSuffix f '')'' then Some i else name_end fs (Suc i))"

definition cpu_times :: "rat \<Rightarrow> rat \<Rightarrow> TimesStat" where
  "cpu_times utime stime = \<lparr>t_CPU = ''cpu'', t_User = utime / of_nat ClockTicks, t_System = stime / of_nat ClockTicks, t_Idle = 0, t_Nice = 0,
     t_Iowait = 0, t_Irq = 0, t_Softirq = 0, t_Steal = 0, t_Guest = 0, t_GuestNice = 0\<rparr>"

definition create_time :: "nat \<Rightarrow> nat \<Rightarrow> int" where
  "create_time ticks boot = sint (word_of_nat ((ticks div ClockTicks + boot) * 1000) :: 64 word)"

definition stat_fields :: "observation \<Rightarrow> string list \<Rightarrow> nat \<Rightarrow> stat_info ps" where
  "stat_fields ob fs i =
     bindp (parse_at (ParseUint 10) fs (i + 5)) (\<lambda>terminal.
     bindp (parse_at ParseInt32 fs (i + 2)) (\<lambda>ppid.
     bindp (parse_at ParseFloat fs (i + 12)) (\<lambda>utime.
     bindp (parse_at ParseFloat fs (i + 13)) (\<lambda>stime.
     bindp (parse_at (ParseUint 10) fs (i + 20)) (\<lambda>t.
     bindp (parse_at ParseInt32 fs (i + 16)) (\<lambda>prio.
     bindp (parse_at (ParseUint 10) fs (i + 8)) (\<lambda>minFault.
     bindp (parse_at (ParseUint 10) fs (i + 9)) (\<lambda>cMinFault.
     bindp (parse_at (ParseUint 10) fs (i + 10)) (\<lambda>majFault.
     bindp (parse_at (ParseUint 10) fs (i + 11)) (\<lambda>cMajFault.
       Some (Inr \<lparr>si_terminal = terminal, si_ppid = ppid, si_times = cpu_times utime stime,
         si_createTime = create_time t (o_boot ob), si_rtpriority = (if prio < 0 then - prio - 1 else 0), si_nice = o_nice ob,
         si_faults = \<lparr>f_MinorFaults = minFault, f_MajorFaults = majFault, f_ChildMinorFaults = cMinFault,
           f_ChildMajorFaults = cMajFault\<rparr>\<rparr>)))))))))))"

definition fillFromStat :: "observation \<Rightarrow> stat_info ps" where
  "fillFromStat ob =
     (case o_stat ob of
        None \<Rightarrow> Some (Inl EReadFile)
      | Some contents \<Rightarrow>
          (let fs = Fields contents in case name_end (tl fs) 1 of None \<Rightarrow> None | Some i \<Rightarrow> stat_fields ob fs i))"

definition Times :: "observation \<Rightarrow> TimesStat ps" where
  "Times ob = bindp (fillFromStat ob) (\<lambda>i. Some (Inr (si_times i)))"

definition TimesStat_Total :: "TimesStat \<Rightarrow> rat" where
  "TimesStat_Total c = t_User c + t_System c + t_Nice c + t_Iowait c + t_Irq c + t_Softirq c + t_Steal c + t_Guest c + t_GuestNice c + t_Idle c"

text \<open>Times are in nanoseconds.\<close>

definition Seconds :: "int \<Rightarrow> rat" where
  "Seconds d = of_int d / 1000000000"

definition calculatePercent :: "TimesStat \<Rightarrow> TimesStat \<Rightarrow> rat \<Rightarrow> nat \<Rightarrow> rat" where
  "calculatePercent t1 t2 delta numcpu =
     (if delta = 0 then 0
      else min 100 (max 0 (((TimesStat_Total t2 - TimesStat_Total t1) / delta * 100) * of_nat numcpu)))"

text \<open>\<^verbatim>\<open>Percent\<close>: the share since the last call, or over the interval, at the end of which the second observation is made.\<close>

definition percent_since :: "TimesStat \<Rightarrow> int \<Rightarrow> TimesStat \<Rightarrow> observation \<Rightarrow> Process \<Rightarrow> (rat \<times> Process) ps" where
  "percent_since t1 since t2 ob p =
     (let delta = Seconds (o_now ob - since) * of_nat (o_cpus ob)
      in Some (Inr (calculatePercent t1 t2 delta (o_cpus ob), p\<lparr>ps_lastCPUTimes := Some t2, ps_lastCPUTime := o_now ob\<rparr>)))"

definition Percent :: "int \<Rightarrow> observation \<Rightarrow> observation \<Rightarrow> Process \<Rightarrow> (rat \<times> Process) ps" where
  "Percent interval ob later p =
     bindp (Times ob) (\<lambda>cpuTimes.
       if 0 < interval then bindp (Times later) (\<lambda>cpuTimes2. percent_since cpuTimes (o_now ob) cpuTimes2 later p)
       else case ps_lastCPUTimes p of
              None \<Rightarrow> Some (Inr (0, p\<lparr>ps_lastCPUTimes := Some cpuTimes, ps_lastCPUTime := o_now ob\<rparr>))
            | Some t1 \<Rightarrow> percent_since t1 (ps_lastCPUTime p) cpuTimes ob p)"

text \<open>In milliseconds; read once and kept.\<close>

definition CreateTime :: "observation \<Rightarrow> Process \<Rightarrow> (int \<times> Process) ps" where
  "CreateTime ob p =
     (if ps_createTime p \<noteq> 0 then Some (Inr (ps_createTime p, p))
      else bindp (fillFromStat ob) (\<lambda>i. Some (Inr (si_createTime i, p\<lparr>ps_createTime := si_createTime i\<rparr>))))"

definition CPUPercent :: "observation \<Rightarrow> Process \<Rightarrow> (rat \<times> Process) ps" where
  "CPUPercent ob p =
     bindp (CreateTime ob p) (\<lambda>(crt, q).
     bindp (Times ob) (\<lambda>cput.
       let totalTime = Seconds (o_now ob - crt * 1000000)
       in Some (Inr (if totalTime \<le> 0 then 0 else min 100 (max 0 (100 * TimesStat_Total cput / totalTime)), q))))"

section \<open>Reading what was printed\<close>

lemma while_all: "\<forall>x\<in>set t. P x \<Longrightarrow> takeWhile P t = t" "\<forall>x\<in>set t. P x \<Longrightarrow> dropWhile P t = []"
  by (induction t) auto

lemma while_stop: "\<not> P c \<Longrightarrow> takeWhile P (t @ c # b) = takeWhile P t" "\<not> P c \<Longrightarrow> dropWhile P (t @ c # b) = dropWhile P t @ c # b"
  by (induction t) auto

lemma Fields_Nil [simp]: "Fields [] = []"
  by (simp add: Fields.simps[of "[]"])

lemma Fields_space [simp]: "space_char c \<Longrightarrow> Fields (c # s) = Fields s"
  by (simp add: Fields.simps[of "c # s"] Fields.simps[of s])

lemma Fields_append_space: "space_char c \<Longrightarrow> Fields (a @ c # b) = Fields a @ Fields b"
proof (induction a rule: Fields.induct)
  case (1 a)
  let ?t = "dropWhile space_char a"
  show ?case
  proof (cases "?t = []")
    case True
    then have "\<forall>x\<in>set a. space_char x" by (simp add: dropWhile_eq_Nil_conv)
    then have "dropWhile space_char (a @ c # b) = dropWhile space_char (c # b)" by (simp add: dropWhile_append2)
    then have "Fields (a @ c # b) = Fields (c # b)" by (simp add: Fields.simps[of "a @ c # b"] Fields.simps[of "c # b"])
    with True 1(2) show ?thesis by (simp add: Fields.simps[of a])
  next
    case False
    then have d: "dropWhile space_char (a @ c # b) = ?t @ c # b" by (meson dropWhile_append1 dropWhile_eq_Nil_conv)
    let ?u = "dropWhile (\<lambda>c. \<not> space_char c) ?t"
    have u: "takeWhile (\<lambda>c. \<not> space_char c) (?t @ c # b) = takeWhile (\<lambda>c. \<not> space_char c) ?t"
      "dropWhile (\<lambda>c. \<not> space_char c) (?t @ c # b) = ?u @ c # b"
      using 1(2) by (simp_all add: while_stop)
    have "Fields (?u @ c # b) = Fields ?u @ Fields b" using 1 False by simp
    then show ?thesis using False d u by (simp add: Fields.simps[of "a @ c # b"] Fields.simps[of a] Let_def)
  qed
qed

definition is_word :: "string \<Rightarrow> bool" where
  "is_word w = (w \<noteq> [] \<and> list_all (\<lambda>c. \<not> space_char c) w)"

lemma Fields_word: "is_word w \<Longrightarrow> Fields w = [w]"
proof -
  assume w: "is_word w"
  then have "dropWhile space_char w = w" by (cases w) (auto simp: is_word_def)
  moreover have "\<forall>x\<in>set w. \<not> space_char x" using w by (simp add: is_word_def list_all_iff)
  ultimately show ?thesis using w by (subst Fields.simps) (simp add: is_word_def while_all)
qed

lemma Fields_Join: "list_all is_word ws \<Longrightarrow> Fields (Join ws '' '') = ws"
proof (induction ws)
  case (Cons w ws)
  then show ?case
    by (cases ws) (simp_all add: Fields_word Fields_append_space[of "CHR '' ''"] space_char_def)
qed simp

lemma space_chars [simp]: "space_char (CHR '' '')" "space_char (CHR 0x0A)"
  by (simp_all add: space_char_def byte_of_def)

lemma digit_not_space: "is_digit c \<Longrightarrow> \<not> space_char c"
  by (auto simp: is_digit_def space_char_def byte_of_def)

lemma is_word_nat_str [simp]: "is_word (nat_str n)"
  using nat_str_digits digit_not_space by (auto simp: is_word_def list_all_iff)

lemma is_word_Itoa [simp]: "is_word (Itoa i)"
  using nat_str_digits digit_not_space by (auto simp: is_word_def list_all_iff Itoa_def space_char_def byte_of_def)

lemma hex_val_digit: "is_digit c \<Longrightarrow> (if 65 \<le> byte_of c \<and> byte_of c \<le> 70 then Some (byte_of c - 55) else hex_val c) = digit_val c"
  by (auto simp: is_digit_def hex_val_def digit_val_def Let_def)

lemma uint_base_acc: "list_all is_digit s \<Longrightarrow> uint_base 10 a s = uint_acc 10 a s"
  by (induction s arbitrary: a) (simp_all add: hex_val_digit[simplified] cong: option.case_cong split: option.splits)

lemma nat_str_all_digits: "list_all is_digit (nat_str n)"
  using nat_str_digits by (auto simp: list_all_iff)

lemma ParseUint_nat_str [simp]: "n < 2 ^ 64 \<Longrightarrow> ParseUint 10 (nat_str n) = Some n"
  by (simp add: ParseUint_def uint_base_acc[OF nat_str_all_digits] uint_acc_nat_str)

lemma ParseInt32_Itoa [simp]: "- (2 ^ 31) \<le> i \<Longrightarrow> i < 2 ^ 31 \<Longrightarrow> ParseInt32 (Itoa i) = Some i"
  using Atoi_Itoa[of i] by (simp add: ParseInt32_def Atoi_def in_int64_def)

lemma ParseFloat_nat_str [simp]: "ParseFloat (nat_str n) = Some (of_nat n)"
proof -
  have nd: "\<forall>c\<in>set (nat_str n). c \<noteq> CHR ''.''" using nat_str_digits by (fastforce simp: is_digit_def byte_of_def)
  obtain c cs where c: "nat_str n = c # cs" by (cases "nat_str n") auto
  then have "is_digit c" using nat_str_hd[of n] by simp
  then have "c \<noteq> CHR ''-''" "c \<noteq> CHR ''+''" by auto
  with c while_all[OF nd] uint_acc_nat_str[of n] show ?thesis by (simp add: ParseFloat_def)
qed

text \<open>
  The line of \<^verbatim>\<open>/proc/<pid>/stat\<close> as the kernel prints it: the id, the name in parentheses, the state letter and the numbers,
  of which the code reads those up to the start time.
\<close>

record kernel_stat =
  k_pid :: nat
  k_comm :: string
  k_state :: string
  k_ppid :: int
  k_pgrp :: int
  k_session :: int
  k_tty :: nat
  k_tpgid :: int
  k_flags :: nat
  k_minflt :: nat
  k_cminflt :: nat
  k_majflt :: nat
  k_cmajflt :: nat
  k_utime :: nat
  k_stime :: nat
  k_cutime :: int
  k_cstime :: int
  k_priority :: int
  k_nice :: int
  k_threads :: int
  k_starttime :: nat
  k_more :: "string list"

definition stat_words :: "kernel_stat \<Rightarrow> string list" where
  "stat_words k = [k_state k, Itoa (k_ppid k), Itoa (k_pgrp k), Itoa (k_session k), nat_str (k_tty k), Itoa (k_tpgid k), nat_str (k_flags k),
     nat_str (k_minflt k), nat_str (k_cminflt k), nat_str (k_majflt k), nat_str (k_cmajflt k), nat_str (k_utime k), nat_str (k_stime k),
     Itoa (k_cutime k), Itoa (k_cstime k), Itoa (k_priority k), Itoa (k_nice k), Itoa (k_threads k), ''0'', nat_str (k_starttime k)] @ k_more k"

definition stat_text :: "kernel_stat \<Rightarrow> string" where
  "stat_text k = nat_str (k_pid k) @ '' ('' @ k_comm k @ '') '' @ Join (stat_words k) '' '' @ [CHR 0x0A]"

text \<open>No blank-separated word of the name but the last one ends in a parenthesis.\<close>

definition name_words :: "string \<Rightarrow> string list" where
  "name_words comm = Fields (CHR ''('' # comm @ '')'')"

definition name_readable :: "string \<Rightarrow> bool" where
  "name_readable comm = list_all (\<lambda>w. \<not> HasSuffix w '')'') (butlast (name_words comm))"

definition kernel_ok :: "kernel_stat \<Rightarrow> bool" where
  "kernel_ok k = (is_word (k_state k) \<and> list_all is_word (k_more k) \<and> - (2 ^ 31) \<le> k_ppid k \<and> k_ppid k < 2 ^ 31 \<and>
     - (2 ^ 31) \<le> k_priority k \<and> k_priority k < 2 ^ 31 \<and>
     k_tty k < 2 ^ 64 \<and> k_starttime k < 2 ^ 64 \<and> k_minflt k < 2 ^ 64 \<and> k_cminflt k < 2 ^ 64 \<and> k_majflt k < 2 ^ 64 \<and> k_cmajflt k < 2 ^ 64)"

lemma Fields_stat_text:
  assumes "kernel_ok k"
  shows "Fields (stat_text k) = nat_str (k_pid k) # name_words (k_comm k) @ stat_words k"
proof -
  have w: "list_all is_word (stat_words k)" using assms by (simp add: stat_words_def kernel_ok_def) (simp add: is_word_def space_char_def byte_of_def)
  have "stat_text k = nat_str (k_pid k) @ CHR '' '' # (CHR ''('' # k_comm k @ '')'') @ CHR '' '' # Join (stat_words k) '' '' @ CHR 0x0A # []"
    by (simp add: stat_text_def)
  then have "Fields (stat_text k) = Fields (nat_str (k_pid k)) @ Fields (CHR ''('' # k_comm k @ '')'') @ Fields (Join (stat_words k) '' '') @ Fields []"
    by (simp only: Fields_append_space[OF space_chars(1)] Fields_append_space[OF space_chars(2)])
  then show ?thesis using Fields_Join[OF w] by (simp add: Fields_word name_words_def)
qed

text \<open>The last word of a text that ends in a non-blank character ends in that character.\<close>

lemma Fields_last: "\<not> space_char c \<Longrightarrow> \<exists>ws w. Fields (s @ [c]) = ws @ [w @ [c]]"
proof (induction s rule: length_induct)
  case (1 s)
  show ?case
  proof (cases "\<exists>d\<in>set s. space_char d")
    case True
    then obtain a d b where s: "s = a @ d # b" "space_char d" by (meson split_list)
    then obtain ws w where "Fields (b @ [c]) = ws @ [w @ [c]]" using 1 by fastforce
    then have "Fields (s @ [c]) = (Fields a @ ws) @ [w @ [c]]" using s Fields_append_space[of d a "b @ [c]"] by simp
    then show ?thesis by blast
  next
    case False
    then have "is_word (s @ [c])" using 1(2) by (auto simp: is_word_def list_all_iff)
    then have "Fields (s @ [c]) = [] @ [s @ [c]]" by (simp add: Fields_word)
    then show ?thesis by blast
  qed
qed

lemma name_words_last: "\<exists>ws w. name_words comm = ws @ [w @ '')'']"
  using Fields_last[of "CHR '')''" "CHR ''('' # comm"] by (simp add: name_words_def space_char_def byte_of_def)

lemma name_end_skip: "list_all (\<lambda>w. \<not> HasSuffix w '')'') ws \<Longrightarrow> HasSuffix v '')'' \<Longrightarrow> name_end (ws @ v # r) i = Some (i + length ws)"
  by (induction ws arbitrary: i) simp_all

lemma name_end_readable: "name_readable comm \<Longrightarrow> name_end (name_words comm @ r) 1 = Some (length (name_words comm))"
proof -
  assume rd: "name_readable comm"
  obtain ws w where w: "name_words comm = ws @ [w @ '')'']" using name_words_last by blast
  have "HasSuffix (w @ '')'') '')''" by (simp add: HasSuffix_def)
  with w rd show ?thesis using name_end_skip[of ws "w @ '')''" r 1] by (simp add: name_readable_def)
qed

lemma parse_at_word: "0 < j \<Longrightarrow> parse_at f (p # ws @ vs) (length ws + j) = parse_at f vs (j - 1)"
  by (cases j) (simp_all add: parse_at_def nth_append)

lemma parse_at_skip: "parse_at f (p # ws @ vs) (Suc (length ws) + j) = parse_at f vs j"
  by (simp add: parse_at_def nth_append)

definition kernel_info :: "observation \<Rightarrow> kernel_stat \<Rightarrow> stat_info" where
  "kernel_info ob k = \<lparr>si_terminal = k_tty k, si_ppid = k_ppid k, si_times = cpu_times (of_nat (k_utime k)) (of_nat (k_stime k)),
     si_createTime = create_time (k_starttime k) (o_boot ob), si_rtpriority = (if k_priority k < 0 then - k_priority k - 1 else 0),
     si_nice = o_nice ob, si_faults = \<lparr>f_MinorFaults = k_minflt k, f_MajorFaults = k_majflt k, f_ChildMinorFaults = k_cminflt k,
       f_ChildMajorFaults = k_cmajflt k\<rparr>\<rparr>"

lemma fillFromStat_kernel:
  assumes "o_stat ob = Some (stat_text k)" "kernel_ok k" "name_readable (k_comm k)"
  shows "fillFromStat ob = Some (Inr (kernel_info ob k))"
proof -
  let ?fs = "nat_str (k_pid k) # name_words (k_comm k) @ stat_words k" and ?i = "length (name_words (k_comm k))"
  have "fillFromStat ob = stat_fields ob ?fs ?i"
    using name_end_readable[OF assms(3)] by (simp add: fillFromStat_def assms(1) Fields_stat_text[OF assms(2)])
  also have "stat_fields ob ?fs ?i = Some (Inr (kernel_info ob k))"
    unfolding stat_fields_def using assms(2)
    by (simp only: parse_at_word zero_less_numeral) (simp add: parse_at_def stat_words_def kernel_info_def kernel_ok_def)
  finally show ?thesis .
qed

lemma Times_kernel:
  "o_stat ob = Some (stat_text k) \<Longrightarrow> kernel_ok k \<Longrightarrow> name_readable (k_comm k) \<Longrightarrow>
     Times ob = Some (Inr (cpu_times (of_nat (k_utime k)) (of_nat (k_stime k))))"
  by (simp add: Times_def fillFromStat_kernel kernel_info_def)

text \<open>
  C23. The line of \<^verbatim>\<open>/proc/<pid>/stat\<close> is read as the kernel meant it: whatever blanks and parentheses the name of the process
  contains, as long as no word of it but the last ends in a parenthesis, the times, the parent, the start time and the page
  faults are those of the kernel, without a panic and without an error.
\<close>

theorem stat_line_read:
  assumes "o_stat ob = Some (stat_text k)" "kernel_ok k" "name_readable (k_comm k)"
  shows "\<exists>i. fillFromStat ob = Some (Inr i) \<and> si_ppid i = k_ppid k \<and> TimesStat_Total (si_times i) = of_nat (k_utime k + k_stime k) / 100 \<and>
    si_createTime i = sint (word_of_nat ((k_starttime k div 100 + o_boot ob) * 1000) :: 64 word) \<and>
    f_MinorFaults (si_faults i) = k_minflt k \<and> f_MajorFaults (si_faults i) = k_majflt k \<and>
    f_ChildMinorFaults (si_faults i) = k_cminflt k \<and> f_ChildMajorFaults (si_faults i) = k_cmajflt k"
  using fillFromStat_kernel[OF assms]
  by (simp add: kernel_info_def TimesStat_Total_def cpu_times_def create_time_def ClockTicks_def add_divide_distrib)

definition sample_kernel :: kernel_stat where
  "sample_kernel = \<lparr>k_pid = 42, k_comm = ''my (odd proxy'', k_state = ''S'', k_ppid = 1, k_pgrp = 42, k_session = 42, k_tty = 0, k_tpgid = -1,
     k_flags = 4194304, k_minflt = 7, k_cminflt = 0, k_majflt = 1, k_cmajflt = 0, k_utime = 250, k_stime = 50, k_cutime = 0, k_cstime = 0,
     k_priority = 20, k_nice = 0, k_threads = 8, k_starttime = 5000, k_more = [''1024'', ''17'']\<rparr>"

definition idle_observation :: observation where
  "idle_observation = \<lparr>o_statm = None, o_status = None, o_stat = None, o_cmdline = None, o_signal = SigOk, o_now = 0, o_boot = 1600000000,
     o_nice = 0, o_cpus = 4, o_page = 4096\<rparr>"

lemma sample_kernel_ok: "kernel_ok sample_kernel" "name_readable (k_comm sample_kernel)"
proof -
  let ?ws = "[''(my'', ''(odd'', ''proxy)'']"
  show "kernel_ok sample_kernel" by (simp add: kernel_ok_def sample_kernel_def is_word_def space_char_def byte_of_def)
  have "list_all is_word ?ws" by (simp add: is_word_def space_char_def byte_of_def)
  then have "name_words ''my (odd proxy'' = ?ws" using Fields_Join[of ?ws] by (simp add: name_words_def)
  then show "name_readable (k_comm sample_kernel)" by (simp add: name_readable_def sample_kernel_def HasSuffix_def)
qed

theorem stat_line_read_witness:
  "\<exists>i. fillFromStat (idle_observation\<lparr>o_stat := Some (stat_text sample_kernel)\<rparr>) = Some (Inr i) \<and> si_ppid i = 1 \<and> TimesStat_Total (si_times i) = 3 \<and>
    si_createTime i = 1600000050000"
  using stat_line_read[OF _ sample_kernel_ok, of "idle_observation\<lparr>o_stat := Some (stat_text sample_kernel)\<rparr>"]
  by (auto simp: sample_kernel_def idle_observation_def)

text \<open>
  A name with one more word after the first that ends in a parenthesis shifts every field by one: the state letter is taken for
  the parent's id, so that every question about the times of the process is answered with an error.
\<close>

lemma shifted_name_unreadable:
  assumes "o_stat ob = Some (stat_text k)" "kernel_ok k" "name_words (k_comm k) = ws @ [v, u]"
    "list_all (\<lambda>w. \<not> HasSuffix w '')'') ws" "HasSuffix v '')''" "ParseInt32 (k_state k) = None"
  shows "fillFromStat ob = Some (Inl EParse) \<and> Times ob = Some (Inl EParse) \<and> Percent 0 ob later p = Some (Inl EParse)"
proof -
  let ?vs = "v # u # stat_words k"
  have fs: "Fields (stat_text k) = nat_str (k_pid k) # ws @ ?vs" using Fields_stat_text[OF assms(2)] assms(3) by simp
  have "name_end (ws @ ?vs) 1 = Some (Suc (length ws))" using name_end_skip[OF assms(4,5)] by simp
  then have "fillFromStat ob = stat_fields ob (nat_str (k_pid k) # ws @ ?vs) (Suc (length ws))"
    by (simp add: fillFromStat_def assms(1) fs)
  moreover have "parse_at ParseInt32 ?vs 2 = Some (Inl EParse)" using assms(6) by (simp add: parse_at_def stat_words_def)
  moreover have "\<exists>x. parse_at (ParseUint 10) ?vs 5 = Some x \<and> (\<forall>e. x = Inl e \<longrightarrow> e = EParse)"
    by (simp add: parse_at_def stat_words_def split: option.splits)
  ultimately have "fillFromStat ob = Some (Inl EParse)"
    by (auto simp only: stat_fields_def parse_at_skip) (auto simp: bindp_def split: sum.splits)
  then show ?thesis by (simp add: Times_def Percent_def)
qed

section \<open>The state of a process\<close>

text \<open>A step that fails or not whatever the process is, and leaves the status alone.\<close>

definition quiet_step :: "(Process \<Rightarrow> ps_error option \<times> Process) \<Rightarrow> bool" where
  "quiet_step f = (\<forall>p q. fst (f p) = fst (f q) \<and> ps_status (snd (f p)) = ps_status p)"

lemma quiet_if: "quiet_step f \<Longrightarrow> quiet_step g \<Longrightarrow> quiet_step (\<lambda>p. if b then f p else g p)"
  by (cases b) simp_all

lemma quiet_num: "(\<And>v q. ps_status (u v q) = ps_status q) \<Longrightarrow> quiet_step (\<lambda>p. status_num x u p)"
  by (simp add: quiet_step_def status_num_def split: option.splits)

lemma quiet_ids: "(\<And>v q. ps_status (u v q) = ps_status q) \<Longrightarrow> quiet_step (\<lambda>p. status_ids x u p)"
  by (simp add: quiet_step_def status_ids_def split: prod.splits)

lemma quiet_kB: "quiet_step (\<lambda>p. status_kB x u p)"
  unfolding status_kB_def by (rule quiet_num) simp

lemma quiet_sig: "quiet_step (\<lambda>p. status_sig x u p)"
  unfolding status_sig_def by (rule quiet_num) simp

lemma quiet_none: "quiet_step (\<lambda>p. (None, p))"
  by (simp add: quiet_step_def)

lemma quiet_counter: "quiet_step (\<lambda>p. status_counter key value p)"
  unfolding status_counter_def by (intro quiet_if quiet_kB quiet_sig quiet_none quiet_num quiet_ids) simp_all

lemma quiet_name: "quiet_step (\<lambda>p. case status_name ob value of Inl e \<Rightarrow> (Some e, p\<lparr>ps_name := n e\<rparr>) | Inr m \<Rightarrow> (None, p\<lparr>ps_name := m\<rparr>))"
  by (simp add: quiet_step_def split: sum.splits)

text \<open>Only the line \<^verbatim>\<open>State\<close> touches the status.\<close>

lemma status_entry_other: "key \<noteq> ''State'' \<Longrightarrow> \<exists>f. quiet_step f \<and> (\<forall>p. status_entry ob key value p = Some (f p))"
  by (cases "key = ''Name''") (auto simp: status_entry_def intro: quiet_counter quiet_name[where n = "\<lambda>_. Trim value ('' '' @ [CHR 0x09])"])

text \<open>A line of \<^verbatim>\<open>status\<close> that neither reports a state nor has a number that does not parse.\<close>

definition line_ok :: "observation \<Rightarrow> string \<Rightarrow> bool" where
  "line_ok ob l = (case status_line ob l (new_process 0) of Some (None, q) \<Rightarrow> ps_status q = [] | _ \<Rightarrow> False)"

lemma line_ok_quiet: "line_ok ob l \<Longrightarrow> \<exists>q. status_line ob l p = Some (None, q) \<and> ps_status q = ps_status p"
proof (cases "SplitN2 l [CHR 0x09]")
  case (Cons key rest)
  assume ok: "line_ok ob l"
  consider (entry) val where "rest = [val]" | (other) "\<not> (\<exists>v. rest = [v])" by blast
  then show ?thesis
  proof cases
    case entry
    let ?k = "TrimRight key '':''"
    have "?k \<noteq> ''State''" using ok Cons entry by (auto simp: line_ok_def status_line_def status_entry_def split: if_splits)
    then obtain f where f: "quiet_step f" "\<And>p. status_entry ob ?k val p = Some (f p)" using status_entry_other by blast
    have "fst (f (new_process 0)) = None"
      using ok Cons entry f(2) by (auto simp: line_ok_def status_line_def split: prod.splits option.splits)
    with f(1) have "fst (f p) = None" "ps_status (snd (f p)) = ps_status p" unfolding quiet_step_def by metis+
    then show ?thesis using Cons entry f(2) by (cases "f p") (simp add: status_line_def)
  next
    case other
    then show ?thesis using Cons by (auto simp: status_line_def split: list.splits)
  qed
qed (simp add: status_line_def)

lemma status_lines_ok:
  "list_all (line_ok ob) ls \<Longrightarrow> \<exists>q. status_lines ob (ls @ rest) p = status_lines ob rest q \<and> ps_status q = ps_status p"
proof (induction ls arbitrary: p)
  case (Cons l ls)
  then obtain q where "status_line ob l p = Some (None, q)" "ps_status q = ps_status p" using line_ok_quiet by fastforce
  with Cons show ?case by fastforce
qed auto

lemma status_line_State: "status_line ob (''State:'' @ CHR 0x09 # c # cs) p = Some (None, p\<lparr>ps_status := [c]\<rparr>)"
proof -
  have "str_index (''State:'' @ CHR 0x09 # c # cs) [CHR 0x09] = Some 6" using str_index_char_append[of "CHR 0x09" "''State:''" "c # cs"] by simp
  then have "SplitN2 (''State:'' @ CHR 0x09 # c # cs) [CHR 0x09] = [''State:'', c # cs]" by (simp add: SplitN2_def)
  then show ?thesis by (simp add: status_line_def TrimRight_def status_entry_def)
qed

text \<open>
  C30. The state of a process is the letter the kernel reports: from a file \<^verbatim>\<open>status\<close> with a line \<^verbatim>\<open>State\<close> whose other lines are in
  order, \<^verbatim>\<open>Status\<close> returns exactly this letter, wherever the line stands and whatever the process was read as before.
\<close>

theorem Status_reports_state:
  assumes "o_status ob = Some (Join (before @ (''State:'' @ CHR 0x09 # c # cs) # after) [CHR 0x0A])"
    "list_all (line_ok ob) (before @ after)" "\<forall>l\<in>set (before @ [cs] @ after). CHR 0x0A \<notin> set l" "c \<noteq> CHR 0x0A"
  shows "\<exists>q. Process_Status ob p = Some (([c], None), q)"
proof -
  let ?ls = "before @ (''State:'' @ CHR 0x09 # c # cs) # after"
  have "\<forall>l\<in>set ?ls. CHR 0x0A \<notin> set l" using assms(3,4) by auto
  then have split: "Split (Join ?ls [CHR 0x0A]) [CHR 0x0A] = ?ls" by (intro Split_Join) auto
  let ?p = "p\<lparr>ps_numCtxSwitches := ctx_zero, ps_memInfo := mem_zero, ps_sigInfo := sig_zero\<rparr>"
  obtain q1 where "status_lines ob ?ls ?p = status_lines ob ((''State:'' @ CHR 0x09 # c # cs) # after) q1"
    using status_lines_ok[of ob before] assms(2) by fastforce
  also have "\<dots> = status_lines ob after (q1\<lparr>ps_status := [c]\<rparr>)" unfolding status_lines.simps status_line_State by simp
  finally have run: "status_lines ob ?ls ?p = status_lines ob after (q1\<lparr>ps_status := [c]\<rparr>)" .
  obtain q2 where q2: "status_lines ob after (q1\<lparr>ps_status := [c]\<rparr>) = Some (None, q2)" "ps_status q2 = [c]"
    using status_lines_ok[of ob after "[]" "q1\<lparr>ps_status := [c]\<rparr>"] assms(2) by auto
  have "fillFromStatus ob p = Some (None, q2)" using assms(1) split run q2(1) by (simp only: fillFromStatus_def option.case)
  with q2(2) show ?thesis by (simp add: Process_Status_def)
qed

text \<open>The first lines of the file of a zombie.\<close>

definition zombie_status :: "string list" where
  "zombie_status = [''Name:'' @ CHR 0x09 # ''tcpProxy'', ''Umask:'' @ CHR 0x09 # ''0022'', ''State:'' @ CHR 0x09 # ''Z (zombie)'',
     ''Tgid:'' @ CHR 0x09 # ''42'', ''PPid:'' @ CHR 0x09 # ''1'', ''Threads:'' @ CHR 0x09 # ''1'', []]"

lemma line_ok_entry:
  "CHR 0x09 \<notin> set k \<Longrightarrow> line_ok ob (k @ CHR 0x09 # v) \<longleftrightarrow>
     (case status_entry ob (TrimRight k '':'') v (new_process 0) of Some (None, q) \<Rightarrow> ps_status q = [] | _ \<Rightarrow> False)"
  by (simp add: line_ok_def status_line_def SplitN2_def str_index_char_append)

lemma line_ok_blank: "line_ok ob []"
  by (simp add: line_ok_def status_line_def SplitN2_def HasPrefix_def new_process_def)

lemma zombie_lines_ok: "list_all (line_ok ob) (take 2 zombie_status @ drop 3 zombie_status)"
proof -
  have n: "line_ok ob (''Name:'' @ CHR 0x09 # ''tcpProxy'')"
    by (subst line_ok_entry) (simp_all add: status_entry_def status_name_def Trim_def TrimRight_def new_process_def)
  have u: "line_ok ob (''Umask:'' @ CHR 0x09 # ''0022'')"
    by (subst line_ok_entry) (simp_all add: status_entry_def status_counter_def TrimRight_def new_process_def)
  have p: "ParseInt32 ''42'' = Some 42" "ParseInt32 ''1'' = Some 1"
    by (simp_all add: ParseInt32_def ParseInt_def digit_val_def byte_of_def in_int64_def Let_def)
  have t: "line_ok ob (''Tgid:'' @ CHR 0x09 # ''42'')" "line_ok ob (''PPid:'' @ CHR 0x09 # ''1'')" "line_ok ob (''Threads:'' @ CHR 0x09 # ''1'')"
    by (subst line_ok_entry; simp add: status_entry_def status_counter_def TrimRight_def new_process_def status_num_def p)+
  show ?thesis using n u t line_ok_blank[of ob] by (simp add: zombie_status_def)
qed

theorem Status_reports_state_witness:
  "\<exists>q. Process_Status (idle_observation\<lparr>o_status := Some (Join zombie_status [CHR 0x0A])\<rparr>) (new_process 42) = Some ((''Z'', None), q)"
proof -
  let ?ob = "idle_observation\<lparr>o_status := Some (Join zombie_status [CHR 0x0A])\<rparr>"
  have z: "zombie_status = take 2 zombie_status @ (''State:'' @ CHR 0x09 # CHR ''Z'' # '' (zombie)'') # drop 3 zombie_status"
    by (simp add: zombie_status_def)
  have "o_status ?ob = Some (Join (take 2 zombie_status @ (''State:'' @ CHR 0x09 # CHR ''Z'' # '' (zombie)'') # drop 3 zombie_status) [CHR 0x0A])"
    using z by simp
  moreover have "\<forall>l\<in>set (take 2 zombie_status @ ['' (zombie)''] @ drop 3 zombie_status). CHR 0x0A \<notin> set l" by (simp add: zombie_status_def)
  ultimately show ?thesis using Status_reports_state[OF _ zombie_lines_ok] by simp
qed

section \<open>Memory and CPU shares\<close>

text \<open>The file \<^verbatim>\<open>statm\<close>: seven numbers of pages and a line end.\<close>

definition statm_text :: "nat list \<Rightarrow> string" where
  "statm_text ns = Join (map nat_str ns) '' '' @ [CHR 0x0A]"

lemma nat_str_no_space: "CHR '' '' \<notin> set (nat_str n)"
  using nat_str_digits digit_not_space space_chars(1) by blast

lemma Split_snoc_last: "xs \<noteq> [] \<Longrightarrow> (\<forall>x\<in>set xs. c \<notin> set x) \<Longrightarrow> d \<noteq> c \<Longrightarrow> Split (Join xs [c] @ [d]) [c] = butlast xs @ [last xs @ [d]]"
  by (induction xs rule: induct_list012) (auto simp: Split_no_sep Split_Cons_sep)

lemma MemoryInfo_statm:
  assumes "o_statm ob = Some (statm_text [size_pages, rss, shared, tx, lib, dat, dt])" "list_all (\<lambda>n. n < 2 ^ 64) [size_pages, rss, shared, tx, lib, dat]"
  shows "MemoryInfo ob = Some (Inr (mem_zero\<lparr>m_RSS := rss * o_page ob mod 2 ^ 64, m_VMS := size_pages * o_page ob mod 2 ^ 64\<rparr>))"
proof -
  have "Split (statm_text [size_pages, rss, shared, tx, lib, dat, dt]) '' '' =
      map nat_str [size_pages, rss, shared, tx, lib, dat] @ [nat_str dt @ [CHR 0x0A]]"
    using Split_snoc_last[of "map nat_str [size_pages, rss, shared, tx, lib, dat, dt]" "CHR '' ''" "CHR 0x0A"] nat_str_no_space
    by (simp add: statm_text_def)
  then show ?thesis using assms by (simp add: MemoryInfo_def fillFromStatm_def parse_at_def uint64_def)
qed

lemma Percent_bounds: "Percent interval ob later p = Some (Inr (r, q)) \<Longrightarrow> 0 \<le> r \<and> r \<le> 100"
  by (auto simp: Percent_def bindp_def percent_since_def calculatePercent_def Let_def split: option.splits sum.splits if_splits)

lemma CPUPercent_bounds: "CPUPercent ob p = Some (Inr (r, q)) \<Longrightarrow> 0 \<le> r \<and> r \<le> 100"
  by (auto simp: CPUPercent_def bindp_def Let_def split: option.splits sum.splits if_splits)

text \<open>
  The share \<^verbatim>\<open>Percent\<close> reports between two calls: the processor time in between over the time in between, as a share of one
  processor; the number of processors, which the code multiplies in twice, does not matter.
\<close>

lemma Percent_share:
  assumes "Times ob = Some (Inr t2)" "ps_lastCPUTimes p = Some t1" "ps_lastCPUTime p < o_now ob" "0 < o_cpus ob"
  shows "Percent 0 ob later p = Some (Inr (min 100 (max 0 (100 * (TimesStat_Total t2 - TimesStat_Total t1) / Seconds (o_now ob - ps_lastCPUTime p))),
    p\<lparr>ps_lastCPUTimes := Some t2, ps_lastCPUTime := o_now ob\<rparr>))"
proof -
  let ?s = "Seconds (o_now ob - ps_lastCPUTime p)"
  have "?s \<noteq> 0" using assms(3) by (simp add: Seconds_def)
  then have "(TimesStat_Total t2 - TimesStat_Total t1) / (?s * of_nat (o_cpus ob)) * 100 * of_nat (o_cpus ob) = 100 * (TimesStat_Total t2 - TimesStat_Total t1) / ?s" "?s * of_nat (o_cpus ob) \<noteq> 0"
    using assms(4) by (simp_all add: field_simps)
  with assms(1,2) show ?thesis by (simp add: Percent_def percent_since_def calculatePercent_def mult.commute)
qed

end
