(* ===== verification/Agent.thy ===== *)
theory Agent
  imports Comm_Net Uuid
begin

text \<open>
  The agent itself (\<^verbatim>\<open>agent/decept-agent.go\<close>): start-up, the task that keeps the proxy and bait
  modules running, the task that watches their resources, the ssh key of a relay, the agent's
  identity and its heart beat.  Each endless loop is given by the function for one round.  The
  shell, the random bytes and the key generator are parameters.
\<close>

section \<open>Names and paths\<close>

definition ProxyPath :: "world \<Rightarrow> string" where
  "ProxyPath w = cwd w @ ''/proxy/decept-proxy''"

definition BaitPath :: "world \<Rightarrow> string" where
  "BaitPath w = cwd w @ ''/bait/decept-bait''"

definition ProxyName :: string where
  "ProxyName = ''decept-proxy''"

definition BaitName :: string where
  "BaitName = ''decept-bait''"

section \<open>Resources of the modules\<close>

record cpu_his =
  proxyCpuHis :: "rat list"
  baitCpuHis :: "rat list"
  agentCpuHis :: "rat list"

definition isBigTooLong :: "rat list \<Rightarrow> rat \<Rightarrow> bool" where
  "isBigTooLong cHis limit =
     (let cHis' = (if length cHis > 5 then tl cHis else cHis)
      in length cHis' = 5 \<and> list_all (\<lambda>c. \<not> c < limit) cHis')"

definition isMemOverloaded :: "string \<Rightarrow> int \<Rightarrow> rat \<Rightarrow> world \<Rightarrow> cpu_his \<Rightarrow> bool \<times> cpu_his" where
  "isMemOverloaded name pid cpuLimit w his =
     (case procs w (as_int32 pid) of
        None \<Rightarrow> (False, his)
      | Some p \<Rightarrow>
          if \<not> p_info_ok p then (False, his)
          else if 150 < mem_used p then (True, his)
          else let avgCpu = avg_cpu w p in
               if avgCpu > cpuLimit \<and> Index name ''decept-'' = -1 then (True, his)
               else if avgCpu > 15 \<and> Index name ''decept-'' > -1 then (False, his)
               else if Index name ''decept-'' = -1 then (False, his)
               else if Index name ''-proxy'' > -1 then
                 (let h = proxyCpuHis his @ [avgCpu] in (isBigTooLong h cpuLimit, his\<lparr>proxyCpuHis := h\<rparr>))
               else if Index name ''-bait'' > -1 then
                 (let h = baitCpuHis his @ [avgCpu] in (isBigTooLong h cpuLimit, his\<lparr>baitCpuHis := h\<rparr>))
               else (let h = agentCpuHis his @ [avgCpu] in (isBigTooLong h cpuLimit, his\<lparr>agentCpuHis := h\<rparr>)))"

fun monitor_entries :: "(string \<times> Pid) list \<Rightarrow> Pid gomap \<Rightarrow> bool \<Rightarrow> cpu_his \<Rightarrow> (Pid gomap \<times> bool \<times> cpu_his) go" where
  "monitor_entries [] table update his w = Some ((table, update, his), w)"
| "monitor_entries ((name, pid) # rest) table update his w =
     (let processId = p_Id pid;
          (over, his1) = (if ProcessIsExist w processId then isMemOverloaded name processId 6 w his else (False, his))
      in do {
        w1 \<leftarrow> (if over then (case mget table name of
                              Some p \<Rightarrow> map_option snd (KillSelf p w)
                            | None \<Rightarrow> Some w)
              else Some w);
        if \<not> ProcessIsExist w1 processId then monitor_entries rest (mdel name table) True his1 w1
        else monitor_entries rest table update his1 w1
      })"

text \<open>One round of \<^verbatim>\<open>processResourceOccupancyMonitoring\<close>.\<close>

definition processResourceOccupancyMonitoring :: "cpu_his \<Rightarrow> cpu_his go" where
  "processResourceOccupancyMonitoring his w = do {
     ((_, table), w1) \<leftarrow> ReadProcessTable w;
     ((table', update, his'), w2) \<leftarrow> monitor_entries (entries table) table False his w1;
     Some (his', if update then UpdateProcessTable table' w2 else w2)
   }"

section \<open>Keeping the modules running\<close>

definition proxyStart :: "bool go" where
  "proxyStart w = do {
     ((pid, err), w1) \<leftarrow> StartProject (ProxyPath w) [] ProxyName w;
     Some (err = None, w1)
   }"

definition baitStart :: "bool go" where
  "baitStart w = do {
     ((pid, err), w1) \<leftarrow> StartProject (BaitPath w) [] BaitName w;
     Some (err = None, w1)
   }"

definition kill_zombie :: "Pid \<Rightarrow> world \<Rightarrow> world option" where
  "kill_zombie pid w = (if IsZombie w (p_Id pid) then map_option snd (KillSelf pid w) else Some w)"

definition restart :: "bool \<Rightarrow> Pid option \<Rightarrow> bool go \<Rightarrow> world \<Rightarrow> world option" where
  "restart enable entry start w =
     (if enable \<and> (case entry of None \<Rightarrow> True | Some pid \<Rightarrow> \<not> ProcessIsExist w (p_Id pid))
      then map_option snd (start w) else Some w)"

text \<open>One round of \<^verbatim>\<open>moduleLifecycleManagementTask\<close>; an absent entry is the zero \<^verbatim>\<open>Pid\<close>.\<close>

definition moduleLifecycleManagementTask :: "bool \<Rightarrow> bool \<Rightarrow> world \<Rightarrow> world option" where
  "moduleLifecycleManagementTask ProxyEnable BaitEnable w = do {
     ((_, PidTable), w1) \<leftarrow> ReadProcessTable w;
     let proxy = mget PidTable ProxyName;
     let bait = mget PidTable BaitName;
     w2 \<leftarrow> kill_zombie (case proxy of None \<Rightarrow> Pid_zero | Some p \<Rightarrow> p) w1;
     w3 \<leftarrow> kill_zombie (case bait of None \<Rightarrow> Pid_zero | Some p \<Rightarrow> p) w2;
     w4 \<leftarrow> restart ProxyEnable proxy proxyStart w3;
     restart BaitEnable bait baitStart w4
   }"

section \<open>Start-up\<close>

fun clear_entries :: "(string \<times> Pid) list \<Rightarrow> world \<Rightarrow> world option" where
  "clear_entries [] w = Some w"
| "clear_entries ((name, pid) # rest) w =
     (if ProcessIsExist w (p_Id pid) then Option.bind (KillSelf pid w) (\<lambda>(_, w1). clear_entries rest w1)
      else clear_entries rest w)"

text \<open>\<^verbatim>\<open>prepare\<close>: the configuration, and whether the ssh key task is started.\<close>

definition prepare :: "string \<Rightarrow> (AgentConf \<times> bool) go" where
  "prepare StartMode w = do {
     let conf = LoadAgentConf w (cwd w);
     w1 \<leftarrow> (if StartMode = ''clear'' then do {
               ((_, PidTable), w') \<leftarrow> ReadProcessTable w;
               clear_entries (entries PidTable) w'
             } else Some w);
     (_, w2) \<leftarrow> ReadProcessTable w1;
     Some ((conf, StartMode = ''RELAY'' \<or> StartMode = ''relay''), w2)
   }"

section \<open>Identity\<close>

definition uuid_command :: string where
  "uuid_command = ''sudo dmidecode -s system-uuid | tr '' @ [CHR 0x27] @ ''A-Z'' @ [CHR 0x27] @ '' '' @ [CHR 0x27] @ ''a-z'' @ [CHR 0x27]"

definition findSysUUID :: "shell \<Rightarrow> string go" where
  "findSysUUID sh w =
     (case sh ''/bin/sh'' (cwd w) uuid_command w of
        (None, w1) \<Rightarrow> Some ([], w1)
      | (Some output, w1) \<Rightarrow>
          (let agentId = Replace output [CHR 0x0A] [] (-1)
           in if Index agentId ''-'' < 0 then Some ([], w1) else Some (agentId, w1)))"

definition getAgentId :: "shell \<Rightarrow> (nat \<Rightarrow> string option) \<Rightarrow> (bool \<times> string) go" where
  "getAgentId sh rnd w =
     (if \<not> Exists w ''conf/agent'' then do {
        (sys, w1) \<leftarrow> findSysUUID sh w;
        case (if sys = [] then GenerateUUID rnd else Some sys) of
          None \<Rightarrow> Some ((False, []), w1)
        | Some i \<Rightarrow>
            (case hostname w1 of
               None \<Rightarrow> Some ((False, []), w1)
             | Some host \<Rightarrow>
                 (let agentid = i @ ''-'' @ host in
                  case os_create ''conf/agent'' w1 of
                    (Some err, w2) \<Rightarrow> Some ((False, []), w2)
                  | (None, w2) \<Rightarrow>
                      (case os_write ''conf/agent'' agentid w2 of
                         (Some err, w3) \<Rightarrow> Some ((False, []), w3)
                       | (None, w3) \<Rightarrow> Some ((True, agentid), w3))))
      }
      else case os_open_read w ''conf/agent'' of
             Inl err \<Rightarrow> Some ((False, []), w)
           | Inr contents \<Rightarrow> Some ((True, Replace contents [CHR 0x0A] [] 1), w))"

section \<open>The key of a relay\<close>

text \<open>The text of \<^verbatim>\<open>str\<close> after a prefix of the length of \<^verbatim>\<open>start\<close>, up to \<^verbatim>\<open>end\<close>; a shorter text panics.\<close>

definition GetBetweenStr :: "string \<Rightarrow> string \<Rightarrow> string \<Rightarrow> string option" where
  "GetBetweenStr str start_str end_str =
     (if length str < length start_str then None
      else let s = drop (length start_str) str; m = Index s end_str
           in Some (if m = -1 then s else take (nat m) s))"

definition begin_key :: string where
  "begin_key = ''-----BEGIN RSA PUBLIC KEY-----''"

definition end_key :: string where
  "end_key = ''-----END RSA PUBLIC KEY-----''"

text \<open>The word the server answers with on success, in UTF-8.\<close>

definition success_word :: string where
  "success_word = [CHR 0xE6, CHR 0x88, CHR 0x90, CHR 0xE5, CHR 0x8A, CHR 0x9F]"

definition write_new :: "string \<Rightarrow> string \<Rightarrow> world \<Rightarrow> go_error option \<times> world" where
  "write_new path text w =
     (case os_create path w of (Some e, w1) \<Rightarrow> (Some e, w1) | (None, w1) \<Rightarrow> os_write path text w1)"

text \<open>The files are created only when the private key is missing; \<open>keys\<close> are the two PEM texts.\<close>

definition ensure_keys :: "(string \<times> string) option \<Rightarrow> world \<Rightarrow> bool \<times> world" where
  "ensure_keys keys w =
     (if stat_ok w ''/var/decept-agent/ssh/private.pem'' then (True, w)
      else case keys of
             None \<Rightarrow> (False, w)
           | Some (priv, pub) \<Rightarrow>
               (case write_new ''/var/decept-agent/ssh/private.pem'' priv w of
                  (Some e, w1) \<Rightarrow> (False, w1)
                | (None, w1) \<Rightarrow>
                    (case write_new ''/var/decept-agent/ssh/public.pem'' pub w1 of
                       (Some e, w2) \<Rightarrow> (False, w2)
                     | (None, w2) \<Rightarrow> (True, w2))))"

definition GenAndUploadRsaKey ::
  "shell \<Rightarrow> (nat \<Rightarrow> string option) \<Rightarrow> (string \<Rightarrow> string) \<Rightarrow> (string \<times> string) option \<Rightarrow> AgentConf \<Rightarrow> bool go" where
  "GenAndUploadRsaKey sh rnd http_err keys conf w =
     (case (if dirs w (dir_key w ''/var/decept-agent/ssh/'') then (None, w) else os_mkdir_all ''/var/decept-agent/ssh/'' w) of
        (Some e, w1) \<Rightarrow> Some (False, w1)
      | (None, w1) \<Rightarrow>
          (case ensure_keys keys w1 of
             (False, w2) \<Rightarrow> Some (False, w2)
           | (True, w2) \<Rightarrow>
               (case os_open_read w2 ''/var/decept-agent/ssh/public.pem'' of
                  Inl e \<Rightarrow> Some (False, w2)
                | Inr publicFileBytes \<Rightarrow> do {
                    ((_, agentId), w3) \<leftarrow> getAgentId sh rnd w2;
                    keyString \<leftarrow> GetBetweenStr publicFileBytes begin_key end_key;
                    let result = HttpPost http_err w3 (SshKeyUploadUrl conf)
                                   (SshKeyBody_json \<lparr>SshKey = b64_encode keyString, ssh_AgentId = agentId\<rparr>);
                    Some (Contains result success_word, w3)
                  })))"

text \<open>\<^verbatim>\<open>prepareAndUploadSshKey\<close> on a finite number of tries: after a failure it tries a second time and
  ignores that result.\<close>

fun prepareAndUploadSshKey :: "nat \<Rightarrow> bool go \<Rightarrow> bool go" where
  "prepareAndUploadSshKey 0 upload w = Some (False, w)"
| "prepareAndUploadSshKey (Suc n) upload w = do {
     (ok, w1) \<leftarrow> upload w;
     if ok then Some (True, w1)
     else do { (_, w2) \<leftarrow> upload w1; prepareAndUploadSshKey n upload w2 }
   }"

section \<open>Heart beat\<close>

record HeartBeat =
  hb_AgentId :: string
  hb_Status :: string
  hb_Version :: string
  IPs :: string
  HostName :: string
  hb_Type :: string

definition HeartBeat_json :: "HeartBeat \<Rightarrow> json" where
  "HeartBeat_json b = JObj [(''AgentId'', JStr (hb_AgentId b)), (''Status'', JStr (hb_Status b)), (''Version'', JStr (hb_Version b)),
     (''IPs'', JStr (IPs b)), (''HostName'', JStr (HostName b)), (''Type'', JStr (hb_Type b))]"

text \<open>\<^verbatim>\<open>getIp\<close> looks at the first five addresses only.\<close>

definition getIp :: "addr list option \<Rightarrow> string \<times> bool" where
  "getIp addrs = GetIp (map_option (take 5) addrs)"

definition sentHeartBeat :: "AgentConf \<Rightarrow> HeartBeat \<Rightarrow> world \<Rightarrow> world" where
  "sentHeartBeat conf beat w = PublishMsg (HeartbeatChannel conf) (b64_encode (json_print (HeartBeat_json beat))) w"

text \<open>What \<^verbatim>\<open>heartBeat\<close> does before its loop, given the beat prepared by \<^verbatim>\<open>main\<close>.\<close>

definition heartBeat_init ::
  "shell \<Rightarrow> (nat \<Rightarrow> string option) \<Rightarrow> addr list option \<Rightarrow> string \<Rightarrow> string \<Rightarrow> HeartBeat \<Rightarrow> HeartBeat go" where
  "heartBeat_init sh rnd addrs SpecifyIP StartMode beat w = do {
     (beat1, w1) \<leftarrow> (if hb_AgentId beat = [] then do {
                        ((_, agentId), w') \<leftarrow> getAgentId sh rnd w;
                        Some (beat\<lparr>hb_AgentId := agentId\<rparr>, w')
                      } else Some (beat, w));
     let beat2 = (if IPs beat1 = [] then
                    (let ips = fst (getIp addrs)
                     in beat1\<lparr>IPs := (if SpecifyIP \<noteq> ''127.0.0.1'' then SpecifyIP @ '','' @ ips else ips)\<rparr>)
                  else beat1);
     Some (beat2\<lparr>HostName := (case hostname w1 of None \<Rightarrow> [] | Some h \<Rightarrow> h), hb_Type := StartMode\<rparr>, w1)
   }"

definition agent_beat :: "AgentConf \<Rightarrow> HeartBeat" where
  "agent_beat conf = \<lparr>hb_AgentId = [], hb_Status = ''running'', hb_Version = Version conf, IPs = [], HostName = [], hb_Type = []\<rparr>"

section \<open>The agent's identity\<close>

lemma getAgentId_created:
  assumes "\<not> Exists w ''conf/agent''" "getAgentId sh rnd w = Some ((True, i), w')"
  shows "files w' (abs_path w' ''conf/agent'') = Some i"
  using assms
  by (auto simp: getAgentId_def Let_def os_create_def os_write_def world_simps
      split: option.splits prod.splits if_splits bind_splits)

text \<open>
  The identity an agent gives itself is the one its modules see: after \<^verbatim>\<open>getAgentId\<close> has created
  \<^verbatim>\<open>conf/agent\<close>, \<^verbatim>\<open>QueryEngineId\<close> (which the bait and proxy modules compare with a policy's agent
  id) returns the same id, and so does every later \<^verbatim>\<open>getAgentId\<close>, whatever the shell and the
  random source would give then.
\<close>

theorem agent_id_stable:
  assumes "\<not> Exists w ''conf/agent''" "getAgentId sh rnd w = Some ((True, i), w')" "CHR 0x0A \<notin> set i"
    "\<not> rd_denied w' (abs_path w' ''conf/agent'')"
  shows "QueryEngineId w' = i \<and> getAgentId sh' rnd' w' = Some ((True, i), w')"
proof -
  have "os_open_read w' ''conf/agent'' = Inr i" "Exists w' ''conf/agent''"
    using getAgentId_created[OF assms(1,2)] assms(4) by (simp_all add: os_open_read_def Exists_def stat_ok_def)
  moreover have "Replace i [CHR 0x0A] [] 1 = i" by (rule Replace_absent) (simp add: Contains_char assms(3))
  ultimately show ?thesis by (simp add: QueryEngineId_def getAgentId_def)
qed

definition named_world :: world where
  "named_world = blank_world\<lparr>hostname := Some ''web1''\<rparr>"

lemma named_world_id:
  "getAgentId (\<lambda>_ _ _ w. (None, w)) (\<lambda>n. Some (replicate n (CHR 0x00))) named_world =
     Some ((True, the (FormatUUID (replicate 16 (CHR 0x00))) @ ''-web1''),
           set_file ''conf/agent'' (Some (the (FormatUUID (replicate 16 (CHR 0x00))) @ ''-web1'')) named_world)"
  by (simp add: getAgentId_def findSysUUID_def GenerateUUID_def GenerateRandomBytes_def uuidLen_def FormatUUID_def
      named_world_def blank_world_def Exists_def stat_ok_def os_create_def os_write_def world_simps Let_def)

theorem agent_id_stable_witness:
  "let i = the (FormatUUID (replicate 16 (CHR 0x00))) @ ''-web1''; w' = set_file ''conf/agent'' (Some i) named_world in
   QueryEngineId w' = i \<and> getAgentId (\<lambda>_ _ _ w. (Some ''x'', w)) (\<lambda>_. None) w' = Some ((True, i), w')"
  unfolding Let_def
proof (rule agent_id_stable[OF _ named_world_id])
  show "\<not> Exists named_world ''conf/agent''" by (simp add: Exists_def stat_ok_def named_world_def blank_world_def)
  show "CHR 0x0A \<notin> set (the (FormatUUID (replicate 16 (CHR 0x00))) @ ''-web1'')" by code_simp
  show "\<not> rd_denied (set_file ''conf/agent'' (Some (the (FormatUUID (replicate 16 (CHR 0x00))) @ ''-web1'')) named_world)
     (abs_path (set_file ''conf/agent'' (Some (the (FormatUUID (replicate 16 (CHR 0x00))) @ ''-web1'')) named_world) ''conf/agent'')"
    by (simp add: world_simps named_world_def blank_world_def)
qed

section \<open>The CPU limit of the modules\<close>

lemma isBigTooLong_long: "6 < length h \<Longrightarrow> \<not> isBigTooLong h limit"
  by (auto simp: isBigTooLong_def)

definition worn_out :: "cpu_his \<Rightarrow> bool" where
  "worn_out his = (6 \<le> length (proxyCpuHis his) \<and> 6 \<le> length (baitCpuHis his) \<and> 6 \<le> length (agentCpuHis his))"

text \<open>
  The CPU limit of a module is checked only for the first six samples of the agent's life: the
  histories grow without end while the check looks for exactly five entries.  Once each history
  has six samples, no module (a name with \<^verbatim>\<open>decept-\<close>) within its memory limit is ever found
  overloaded again, whatever its CPU usage, and this never changes back.
\<close>

theorem module_cpu_limit_wears_out:
  assumes "worn_out his" "Contains name ''decept-''" "\<forall>p. procs w (as_int32 pid) = Some p \<longrightarrow> mem_used p \<le> 150"
  shows "fst (isMemOverloaded name pid cpuLimit w his) = False \<and> worn_out (snd (isMemOverloaded name pid cpuLimit w his))"
proof -
  have n: "Index name ''decept-'' \<noteq> -1" using assms(2) Index_neg_iff by blast
  have long: "\<not> isBigTooLong (proxyCpuHis his @ [c]) l" "\<not> isBigTooLong (baitCpuHis his @ [c]) l"
    "\<not> isBigTooLong (agentCpuHis his @ [c]) l" for c l
    using assms(1) by (simp_all add: worn_out_def isBigTooLong_long)
  show ?thesis
  proof (cases "procs w (as_int32 pid)")
    case None
    with assms(1) show ?thesis by (simp add: isMemOverloaded_def)
  next
    case (Some p)
    then have "\<not> 150 < mem_used p" using assms(3) by auto
    with Some n long assms(1) show ?thesis by (simp add: isMemOverloaded_def Let_def worn_out_def)
  qed
qed

theorem module_cpu_limit_wears_out_witness:
  "let his = \<lparr>proxyCpuHis = replicate 6 99, baitCpuHis = replicate 6 99, agentCpuHis = replicate 6 99\<rparr>;
       w = busy_world 99 in
   fst (isMemOverloaded ''decept-proxy'' 1 6 w his) = False \<and> worn_out (snd (isMemOverloaded ''decept-proxy'' 1 6 w his))"
  unfolding Let_def
proof (rule module_cpu_limit_wears_out)
  show "Contains ''decept-proxy'' ''decept-''" by code_simp
qed (simp_all add: worn_out_def busy_world_def blank_world_def as_int32_def shell_proc_def mem_used_def)

section \<open>Dead entries\<close>

definition calm :: "world \<Rightarrow> bool" where
  "calm w = (\<forall>q p. procs w q = Some p \<longrightarrow> mem_used p \<le> 150 \<and> avg_cpu w p < 6)"

lemma isBigTooLong_low: "c < limit \<Longrightarrow> \<not> isBigTooLong (h @ [c]) limit"
  by (cases h) (auto simp: isBigTooLong_def Let_def)

lemma isMemOverloaded_calm:
  assumes "calm w"
  shows "fst (isMemOverloaded name pid 6 w his) = False"
proof (cases "procs w (as_int32 pid)")
  case None
  then show ?thesis by (simp add: isMemOverloaded_def)
next
  case (Some p)
  then have p: "\<not> 150 < mem_used p" "avg_cpu w p < 6" using assms unfolding calm_def by fastforce+
  then have "\<not> 6 < avg_cpu w p" "\<not> isBigTooLong (h @ [avg_cpu w p]) 6" for h by (simp_all add: isBigTooLong_low)
  with Some p show ?thesis by (simp add: isMemOverloaded_def Let_def)
qed

definition gone :: "world \<Rightarrow> string \<times> Pid \<Rightarrow> bool" where
  "gone w e = (\<not> ProcessIsExist w (p_Id (snd e)))"

lemma monitor_entries_calm:
  "calm w \<Longrightarrow> \<exists>his'. monitor_entries es table update his w =
     Some ((fold (\<lambda>e. mdel (fst e)) (filter (gone w) es) table, update \<or> list_ex (gone w) es, his'), w)"
proof (induction es arbitrary: table update his)
  case Nil
  then show ?case by simp
next
  case (Cons e es)
  obtain name pid where e: "e = (name, pid)" by fastforce
  obtain over his1 where o: "(if ProcessIsExist w (p_Id pid) then isMemOverloaded name (p_Id pid) 6 w his else (False, his)) = (over, his1)"
    by fastforce
  then have "\<not> over" using isMemOverloaded_calm[OF Cons.prems, of name "p_Id pid" his] by (auto split: if_splits)
  then show ?case
    using Cons.IH[OF Cons.prems, of "mdel name table" True his1] Cons.IH[OF Cons.prems, of table update his1] o e
    by (auto simp: gone_def Let_def)
qed

lemma fold_mdel: "fold (\<lambda>e. mdel (fst e)) es (Some xs) = Some (fold (\<lambda>e. AList.delete (fst e)) es xs)"
  by (induction es arbitrary: xs) (simp_all add: mdel_def)

lemma map_of_fold_delete:
  "map_of (fold (\<lambda>e. AList.delete (fst e)) es xs) k = (if k \<in> fst ` set es then None else map_of xs k)"
  by (induction es arbitrary: xs) (auto simp: map_of_delete)

lemma table_ok_fold_delete: "table_ok xs \<Longrightarrow> table_ok (fold (\<lambda>e. AList.delete (fst e)) es xs)"
  by (induction es arbitrary: xs) (simp_all add: table_ok_delete)

text \<open>
  While no process exceeds its limits, a round of the resource monitor removes exactly the dead
  entries from the process table: afterwards the table has the entries whose process exists and
  no others, and no process was touched.
\<close>

theorem dead_entries_pruned:
  assumes "table_ready w xs" "length (table_text xs) \<le> 10000" "calm w"
  shows "\<exists>his' w' ys. processResourceOccupancyMonitoring his w = Some (his', w') \<and> table_ready w' ys \<and> procs w' = procs w \<and>
     (\<forall>k. map_of ys k = (case map_of xs k of None \<Rightarrow> None | Some p \<Rightarrow> if ProcessIsExist w (p_Id p) then Some p else None))"
proof -
  let ?xs = "sort_key fst xs"
  let ?ys = "fold (\<lambda>e. AList.delete (fst e)) (filter (gone w) ?xs) ?xs"
  have ok: "table_ok ?xs" "map_of ?xs = map_of xs" "table_access w" "\<not> disk_full w"
    using assms(1) table_ok_sort map_of_sort_table by (auto simp: table_ready_def)
  obtain his' where m: "monitor_entries ?xs (Some ?xs) False his w = Some ((Some ?ys, list_ex (gone w) ?xs, his'), w)"
    using monitor_entries_calm[OF assms(3), of ?xs "Some ?xs" False his] by (auto simp: fold_mdel)
  let ?w' = "if list_ex (gone w) ?xs then UpdateProcessTable (Some ?ys) w else w"
  have run: "processResourceOccupancyMonitoring his w = Some (his', ?w')"
    using ReadProcessTable_ready[OF assms(1,2)] m by (simp add: processResourceOccupancyMonitoring_def)
  have none: "\<not> list_ex (gone w) ?xs \<Longrightarrow> ?ys = ?xs"
  proof -
    assume "\<not> list_ex (gone w) ?xs"
    then have "filter (gone w) ?xs = []" by (auto simp: list_ex_iff filter_empty_conv)
    then show "?ys = ?xs" by simp
  qed
  have "table_ready ?w' (if list_ex (gone w) ?xs then ?ys else xs)"
    using table_ready_Update[OF ok(3,4) table_ok_fold_delete[OF ok(1), of "filter (gone w) ?xs"]] assms(1)
    by (cases "list_ex (gone w) ?xs") (simp_all only: if_True if_False)
  moreover have "map_of (if list_ex (gone w) ?xs then ?ys else xs) = map_of ?ys"
    using none ok(2) by auto
  moreover have "map_of ?ys k = (case map_of xs k of None \<Rightarrow> None | Some p \<Rightarrow> if ProcessIsExist w (p_Id p) then Some p else None)" for k
  proof -
    have d: "keys_distinct ?xs" using ok(1) by (simp add: table_ok_def)
    have "k \<in> fst ` set (filter (gone w) ?xs) \<longleftrightarrow> (\<exists>p. map_of ?xs k = Some p \<and> \<not> ProcessIsExist w (p_Id p))"
      using map_of_eq_Some_iff[OF d] by (force simp: gone_def)
    then show ?thesis using ok(2) by (auto simp: map_of_fold_delete split: option.splits)
  qed
  moreover have "procs ?w' = procs w" by (simp add: UpdateProcessTable_env)
  ultimately show ?thesis
    by (intro exI[of _ his'] exI[of _ ?w'] exI[of _ "if list_ex (gone w) ?xs then ?ys else xs"] conjI run) simp_all
qed

theorem dead_entries_pruned_witness:
  "\<exists>his' w' ys. processResourceOccupancyMonitoring \<lparr>proxyCpuHis = [], baitCpuHis = [], agentCpuHis = []\<rparr> two_procs = Some (his', w') \<and>
     table_ready w' ys \<and> procs w' = procs two_procs \<and>
     (\<forall>k. map_of ys k = (case map_of sample_table k of None \<Rightarrow> None
                        | Some p \<Rightarrow> if ProcessIsExist two_procs (p_Id p) then Some p else None))"
  by (rule dead_entries_pruned[OF two_procs_ready sample_table_short])
     (simp add: calm_def two_procs_def shell_proc_def mem_used_def avg_cpu_def)

section \<open>The supervisor\<close>

definition running :: "string \<Rightarrow> string list \<Rightarrow> proc" where
  "running path argv = \<lparr>p_path = path, p_argv = argv, p_status = ''R'', p_child = True, p_reaped = False,
                        p_rss = 0, p_cpu = 0, p_info_ok = True\<rparr>"

definition started :: "string \<Rightarrow> int \<Rightarrow> Pid" where
  "started nick i = \<lparr>p_Name = nick, p_Id = i, p_Result = ''start success'', p_Mode = []\<rparr>"

lemma KillSelf_gone:
  assumes "table_ready w xs" "length (table_text xs) \<le> 10000" "procs w (p_Id q) = None" "0 < p_Id q"
  shows "\<exists>w' ys. KillSelf q w = Some (None, w') \<and> same_env w w' \<and> procs w' = procs w \<and> table_ready w' ys"
proof -
  obtain w1 ys where w1: "clearProcessTable (p_Name q) w = Some w1" "same_env w w1" "procs w1 = procs w" "table_ready w1 ys"
    using clearProcessTable_ready[OF assms(1,2)] by metis
  then have "\<not> ProcessIsExist w1 (p_Id q)" using assms(3,4) by (simp add: ProcessIsExist_def kill0_def)
  with w1 show ?thesis by (auto simp: KillSelf_def)
qed

text \<open>Starting a module that is not registered, or whose process is gone.\<close>

lemma start_missing:
  assumes ready: "table_ready w xs" "length (table_text xs) \<le> 10000"
    and missing: "\<forall>q. map_of xs nick = Some q \<longrightarrow> procs w (p_Id q) = None \<and> 0 < p_Id q"
    and can: "startable w path" "valid_utf8 nick" "in_int64 (next_pid w)"
  shows "\<exists>w'. StartProject path [] nick w = Some ((started nick (next_pid w), None), w') \<and>
     procs w' = (procs w)(next_pid w \<mapsto> running path (argv_of nick)) \<and> next_pid w' = next_pid w + 1 \<and>
     startable w' = startable w \<and> cwd w' = cwd w \<and> kill_denied w' = kill_denied w \<and>
     table_ready w' (AList.update nick (started nick (next_pid w)) (sort_key fst xs))"
proof -
  let ?xs = "sort_key fst xs" and ?p = "started nick (next_pid w)"
  let ?ys = "AList.update nick ?p ?xs"
  have ok: "table_ok ?xs" "map_of ?xs = map_of xs" using ready(1) table_ok_sort map_of_sort_table by (auto simp: table_ready_def)
  have "\<exists>w2 zs. (case map_of xs nick of None \<Rightarrow> Some w | Some pid \<Rightarrow> map_option snd (KillSelf pid w)) = Some w2 \<and>
      same_env w w2 \<and> procs w2 = procs w \<and> table_ready w2 zs"
    using missing KillSelf_gone[OF ready] ready(1) by (cases "map_of xs nick") force+
  then obtain w2 zs where w2: "(case map_of xs nick of None \<Rightarrow> Some w | Some pid \<Rightarrow> map_option snd (KillSelf pid w)) = Some w2"
    "same_env w w2" "procs w2 = procs w" "table_ready w2 zs" by blast
  define w3 where "w3 = snd (spawn path (argv_of nick) w2)"
  have sc: "start_command path [] (argv_of nick) w2 = (Inr (next_pid w), w3)"
    using can(1) w2(2) by (simp add: start_command_def spawn_def w3_def same_env_def)
  have w3: "procs w3 = (procs w)(next_pid w \<mapsto> running path (argv_of nick))" "next_pid w3 = next_pid w + 1"
    "startable w3 = startable w" "cwd w3 = cwd w" "files w3 = files w2" "wr_denied w3 = wr_denied w2" "rd_denied w3 = rd_denied w2"
    "disk_full w3 = disk_full w2" "cwd w3 = cwd w2" "kill_denied w3 = kill_denied w"
    using w2(2,3) by (simp_all add: w3_def spawn_def running_def same_env_def)
  have "table_path w3 = table_path w2" using w3 by (simp add: table_path_def ProcessTablePath_def abs_path_def)
  then have acc: "table_access w3" "\<not> disk_full w3" using w3 w2(4) by (auto simp: table_ready_def table_access_def)
  have "Pid_ok ?p" using can(2,3) by (simp add: Pid_ok_def started_def byte_of_def)
  then have "table_ready (UpdateProcessTable (Some ?ys) w3) ?ys"
    using table_ready_Update[OF acc] table_ok_update[OF ok(1) can(2)] by blast
  moreover have "StartProject path [] nick w = Some ((?p, None), UpdateProcessTable (Some ?ys) w3)"
    using ReadProcessTable_ready[OF ready] w2(1) sc ok(2) by (simp add: StartProject_def Let_def started_def)
  ultimately show ?thesis
    using w3 UpdateProcessTable_env(1)[of w3 "Some ?ys"] UpdateProcessTable_env(2)[of "Some ?ys" w3] by (auto simp: same_env_def)
qed

text \<open>A registered module that is neither a zombie nor out of reach, or one whose process is gone.\<close>

definition settled :: "world \<Rightarrow> (string \<times> Pid) list \<Rightarrow> string \<Rightarrow> bool" where
  "settled w xs nick = (\<forall>q. map_of xs nick = Some q \<longrightarrow>
     0 < p_Id q \<and> p_Id q < next_pid w \<and> as_int32 (p_Id q) = p_Id q \<and> \<not> kill_denied w (p_Id q) \<and>
     (procs w (p_Id q) = None \<or> alive w (p_Id q)))"

lemma settled_no_zombie: "settled w xs nick \<Longrightarrow> kill_zombie (case map_of xs nick of None \<Rightarrow> Pid_zero | Some p \<Rightarrow> p) w = Some w"
  by (auto simp: settled_def kill_zombie_def IsZombie_def ProcessIsExist_def kill0_def alive_def Pid_zero_def split: option.splits)

text \<open>One module's turn in a round: it is left alone if it runs, and started otherwise.\<close>

lemma restart_turn:
  assumes ready: "table_ready w xs" "length (table_text xs) \<le> 10000" and st: "settled w xs nick"
    and can: "startable w path" "valid_utf8 nick" "in_int64 (next_pid w)"
    and start: "\<And>v. start v = Option.bind (StartProject (path_of v) [] nick v) (\<lambda>((pid, err), v1). Some (err = None, v1))"
    and path: "path_of w = path"
  shows "\<exists>w' ys p. restart True (map_of xs nick) start w = Some w' \<and> table_ready w' ys \<and> map_of ys nick = Some p \<and> alive w' (p_Id p) \<and>
     p_Id p < next_pid w' \<and> (\<forall>k. k \<noteq> nick \<longrightarrow> map_of ys k = map_of xs k) \<and> (\<forall>i. i < next_pid w \<longrightarrow> procs w' i = procs w i) \<and>
     next_pid w \<le> next_pid w' \<and> next_pid w' \<le> next_pid w + 1 \<and> startable w' = startable w \<and> cwd w' = cwd w \<and>
     kill_denied w' = kill_denied w \<and> (ys = xs \<or> ys = AList.update nick (started nick (next_pid w)) (sort_key fst xs))"
proof (cases "\<exists>q. map_of xs nick = Some q \<and> procs w (p_Id q) \<noteq> None")
  case True
  then obtain q where q: "map_of xs nick = Some q" "procs w (p_Id q) \<noteq> None" by blast
  with st have "alive w (p_Id q)" "p_Id q < next_pid w" "ProcessIsExist w (p_Id q)"
    by (auto simp: settled_def ProcessIsExist_def kill0_def)
  with q ready show ?thesis by (auto simp: restart_def)
next
  case False
  then have missing: "\<forall>q. map_of xs nick = Some q \<longrightarrow> procs w (p_Id q) = None \<and> 0 < p_Id q"
    using st by (auto simp: settled_def)
  obtain w' where w': "StartProject path [] nick w = Some ((started nick (next_pid w), None), w')"
    "procs w' = (procs w)(next_pid w \<mapsto> running path (argv_of nick))" "next_pid w' = next_pid w + 1" "startable w' = startable w"
    "cwd w' = cwd w" "kill_denied w' = kill_denied w"
    "table_ready w' (AList.update nick (started nick (next_pid w)) (sort_key fst xs))"
    using start_missing[OF ready missing can] by metis
  have "case map_of xs nick of None \<Rightarrow> True | Some pid \<Rightarrow> \<not> ProcessIsExist w (p_Id pid)"
    using missing by (auto simp: ProcessIsExist_def kill0_def split: option.splits)
  then have "restart True (map_of xs nick) start w = Some w'"
    using w'(1) start[of w] path by (simp add: restart_def)
  moreover have "map_of (sort_key fst xs) = map_of xs" using ready(1) map_of_sort_table by (simp add: table_ready_def)
  ultimately show ?thesis
    using w' by (intro exI[of _ w'] exI[of _ "AList.update nick (started nick (next_pid w)) (sort_key fst xs)"]
        exI[of _ "started nick (next_pid w)"]) (simp add: map_of_update started_def alive_def running_def)
qed

lemma module_names: "valid_utf8 ProxyName" "valid_utf8 BaitName" "ProxyName \<noteq> BaitName"
  by (simp_all add: ProxyName_def BaitName_def byte_of_def)

lemma in_int64_mono: "in_int64 i \<Longrightarrow> in_int64 (i + 1) \<Longrightarrow> i \<le> j \<Longrightarrow> j \<le> i + 1 \<Longrightarrow> in_int64 j"
  by (auto simp: in_int64_def)


lemma table_world_settled: "settled table_world sample_table ProxyName" "settled table_world sample_table BaitName"
  by (simp_all add: settled_def sample_table_def ProxyName_def BaitName_def)


end
