(* ===== verification/Ps_Monitor.thy ===== *)
theory Ps_Monitor
  imports Ps_Process Agent
begin

text \<open>
  The monitors of \<^verbatim>\<open>util/comm/service.go\<close> and \<^verbatim>\<open>agent/decept-agent.go\<close> on top of the library that observes processes: what the fields of
  the world that they read (state, memory, CPU share) are when they come from the files of \<^verbatim>\<open>/proc\<close>, and what follows for the
  limits.
\<close>

section \<open>Observations as worlds\<close>

text \<open>The world in which the process \<open>pid\<close> has the memory and the CPU share that were measured, on a machine with as many processors.\<close>

definition measured :: "world \<Rightarrow> int \<Rightarrow> proc \<Rightarrow> observation \<Rightarrow> MemoryInfoStat \<Rightarrow> rat \<Rightarrow> world" where
  "measured w pid pr ob m c =
     w\<lparr>procs := (procs w)(as_int32 pid \<mapsto> pr\<lparr>p_rss := m_RSS m, p_cpu := c, p_info_ok := True\<rparr>), num_cpu := o_cpus ob\<rparr>"

text \<open>
  What \<^verbatim>\<open>StartMemCpuMonitor\<close> sees in its rounds: each round reads \<^verbatim>\<open>statm\<close> and asks for the share since the round before.  The result is
  \<^const>\<open>None\<close> when a file cannot be read.
\<close>

fun self_observed :: "world \<Rightarrow> proc \<Rightarrow> Process \<Rightarrow> observation list \<Rightarrow> world list option" where
  "self_observed w pr p [] = Some []"
| "self_observed w pr p (ob # obs) =
     (case MemoryInfo ob of
        Some (Inr m) \<Rightarrow>
          (case Percent 0 ob ob p of
             Some (Inr (c, q)) \<Rightarrow> map_option (Cons (measured w (self_pid w) pr ob m c)) (self_observed w pr q obs)
           | _ \<Rightarrow> None)
      | _ \<Rightarrow> None)"

text \<open>The supervisor makes a new \<^verbatim>\<open>Process\<close> each time and asks for the share since the start of the process.\<close>

definition agent_observed :: "world \<Rightarrow> int \<Rightarrow> proc \<Rightarrow> observation \<Rightarrow> world option" where
  "agent_observed w pid pr ob =
     (case MemoryInfo ob of
        Some (Inr m) \<Rightarrow>
          (case CPUPercent ob (new_process pid) of Some (Inr (c, q)) \<Rightarrow> Some (measured w pid pr ob m c) | _ \<Rightarrow> None)
      | _ \<Rightarrow> None)"

section \<open>Limits that cannot be reached\<close>

definition within_memory :: "observation \<Rightarrow> bool" where
  "within_memory ob = (case MemoryInfo ob of Some (Inr m) \<Rightarrow> m_RSS m div 1024 div 1024 \<le> 150 | _ \<Rightarrow> True)"

lemma share_below:
  fixes c :: rat
  assumes "0 \<le> c" "c \<le> 100" "0 < l" "100 < l * of_nat n"
  shows "c / of_nat n < l"
proof -
  have "0 < (of_nat n :: rat)" using assms by (metis mult_zero_right not_less of_nat_0_le_iff order_less_le zero_less_numeral order.strict_trans)
  with assms show ?thesis by (simp add: pos_divide_less_eq)
qed

lemma mem_cpu_round_below:
  assumes "0 \<le> c" "c \<le> 100" "100 < l * of_nat (o_cpus ob)" "0 < l" "m_RSS m div 1024 div 1024 \<le> 150" "list_all (\<lambda>x. x < l) his"
  shows "\<exists>his'. mem_cpu_round l (measured w (self_pid w) pr ob m c) his = (Continue, his') \<and> list_all (\<lambda>x. x < l) his'"
proof -
  have "c / of_nat (o_cpus ob) < l" using share_below assms by blast
  then have "list_all (\<lambda>x. x < l) (cpu_window his (c / of_nat (o_cpus ob)))"
    using assms(6) by (cases his) (auto simp: cpu_window_def Let_def)
  then show ?thesis using assms(5)
    by (auto simp: mem_cpu_round_def measured_def mem_used_def avg_cpu_def Let_def list_all_iff)
qed

lemma monitor_below:
  assumes "self_observed w pr p obs = Some ws" "\<forall>ob\<in>set obs. 100 < l * of_nat (o_cpus ob) \<and> within_memory ob" "0 < l" "list_all (\<lambda>x. x < l) his"
  shows "fst (StartMemCpuMonitor l ws his) = Continue"
  using assms
proof (induction obs arbitrary: p ws his)
  case (Cons ob obs)
  from Cons.prems(1) obtain m c q ws' where o: "MemoryInfo ob = Some (Inr m)" "Percent 0 ob ob p = Some (Inr (c, q))"
    "self_observed w pr q obs = Some ws'" "ws = measured w (self_pid w) pr ob m c # ws'"
    by (auto split: option.splits sum.splits)
  have "m_RSS m div 1024 div 1024 \<le> 150" "100 < l * of_nat (o_cpus ob)" using Cons.prems(2) o(1) by (auto simp: within_memory_def)
  then obtain his' where h: "mem_cpu_round l (measured w (self_pid w) pr ob m c) his = (Continue, his')" "list_all (\<lambda>x. x < l) his'"
    using mem_cpu_round_below Percent_bounds[OF o(2)] Cons.prems(3,4) by blast
  then show ?case using Cons.IH[OF o(3) _ Cons.prems(3) h(2)] Cons.prems(2) o(4) by simp
qed simp

text \<open>The same for the supervisor, whose limit is 6, on a machine with more than 16 processors.\<close>

lemma many_processors: "k < n * l \<Longrightarrow> (of_nat k :: rat) < of_nat l * of_nat n"
  by (metis mult.commute of_nat_less_iff of_nat_mult)

lemma isBigTooLong_below: "list_all (\<lambda>x. x < l) h \<Longrightarrow> \<not> isBigTooLong h l"
  by (cases h; cases "tl h") (auto simp: isBigTooLong_def Let_def)

lemma agent_limit_unreachable:
  assumes "agent_observed w pid pr ob = Some w'" "16 < o_cpus ob" "within_memory ob"
    "list_all (\<lambda>x. x < 6) (proxyCpuHis his @ baitCpuHis his @ agentCpuHis his)"
  shows "\<exists>his'. isMemOverloaded name pid 6 w' his = (False, his') \<and> list_all (\<lambda>x. x < 6) (proxyCpuHis his' @ baitCpuHis his' @ agentCpuHis his')"
proof -
  obtain m c q where o: "MemoryInfo ob = Some (Inr m)" "CPUPercent ob (new_process pid) = Some (Inr (c, q))" "w' = measured w pid pr ob m c"
    using assms(1) by (auto simp: agent_observed_def split: option.splits sum.splits)
  have "c / of_nat (o_cpus ob) < 6" using share_below[of c 6 "o_cpus ob"] CPUPercent_bounds[OF o(2)] many_processors[of 100 "o_cpus ob" 6] assms(2) by simp
  moreover have "m_RSS m div 1024 div 1024 \<le> 150" using assms(3) o(1) by (simp add: within_memory_def)
  ultimately show ?thesis using assms(4) isBigTooLong_below[of 6]
    by (auto simp: o(3) isMemOverloaded_def measured_def mem_used_def avg_cpu_def Let_def list_all_iff)
qed

text \<open>
  C22. The CPU limit of the self-monitor cannot be exceeded on a machine with more than 20 processors: the library reports the share of one
  processor, at most 100, and the monitor divides it by the number of processors, so that the average stays below the limit of
  5 however busy the process is; as long as its memory stays within the limit, the monitor lets it live for ever.
\<close>

theorem cpu_limit_unreachable:
  assumes "self_observed w pr (new_process pid) obs = Some ws" "\<forall>ob\<in>set obs. 20 < o_cpus ob \<and> within_memory ob"
  shows "fst (StartMemCpuMonitor 5 ws []) = Continue"
proof (rule monitor_below[OF assms(1)])
  show "\<forall>ob\<in>set obs. 100 < (5 :: rat) * of_nat (o_cpus ob) \<and> within_memory ob"
    using assms(2) many_processors[of 100 _ 5] by simp
qed simp_all

definition busy_at :: "int \<Rightarrow> nat \<Rightarrow> observation" where
  "busy_at t ticks = idle_observation\<lparr>o_statm := Some (statm_text [2000, 1000, 300, 10, 0, 500, 0]),
     o_stat := Some (stat_text (sample_kernel\<lparr>k_utime := ticks, k_stime := 0\<rparr>)), o_now := t * 1000000000, o_cpus := 24\<rparr>"

definition plain_proc :: proc where
  "plain_proc = \<lparr>p_path = [], p_argv = [], p_status = ''S'', p_child = False, p_reaped = False, p_rss = 0, p_cpu = 0, p_info_ok = True\<rparr>"

lemma busy_at_reads:
  "MemoryInfo (busy_at t k) = Some (Inr (mem_zero\<lparr>m_RSS := 4096000, m_VMS := 8192000\<rparr>))" "within_memory (busy_at t k)"
  "Times (busy_at t k) = Some (Inr (cpu_times (of_nat k) 0))" "o_cpus (busy_at t k) = 24"
proof -
  show m: "MemoryInfo (busy_at t k) = Some (Inr (mem_zero\<lparr>m_RSS := 4096000, m_VMS := 8192000\<rparr>))"
    using MemoryInfo_statm[of "busy_at t k" 2000 1000 300 10 0 500 0] by (simp add: busy_at_def idle_observation_def)
  show "within_memory (busy_at t k)" by (simp add: within_memory_def m)
  show "Times (busy_at t k) = Some (Inr (cpu_times (of_nat k) 0))"
    using Times_kernel[of "busy_at t k" "sample_kernel\<lparr>k_utime := k, k_stime := 0\<rparr>"] sample_kernel_ok
    by (simp add: busy_at_def kernel_ok_def)
  show "o_cpus (busy_at t k) = 24" by (simp add: busy_at_def)
qed

text \<open>A process that keeps one processor busy all the time, seen every five seconds.\<close>

theorem cpu_limit_unreachable_witness:
  "\<exists>ws. self_observed blank_world plain_proc (new_process 42) (map (\<lambda>i. busy_at (int i * 5) (i * 500)) [0..<8]) = Some ws \<and>
     fst (StartMemCpuMonitor 5 ws []) = Continue"
proof -
  let ?obs = "map (\<lambda>i. busy_at (int i * 5) (i * 500)) [0..<8]"
  have ok: "\<exists>r q. Percent 0 (busy_at t k) (busy_at t k) p = Some (Inr (r, q))" for t k p
    by (simp add: Percent_def busy_at_reads(3) percent_since_def split: option.splits)
  have "\<exists>ws. self_observed blank_world plain_proc p (map (\<lambda>i. busy_at (int i * 5) (i * 500)) js) = Some ws" for p js
  proof (induction js arbitrary: p)
    case (Cons i js)
    then show ?case using ok[of "int i * 5" "i * 500" p] by (fastforce simp: busy_at_reads(1))
  qed simp
  then obtain ws where ws: "self_observed blank_world plain_proc (new_process 42) ?obs = Some ws" by blast
  moreover have "\<forall>ob\<in>set ?obs. 20 < o_cpus ob \<and> within_memory ob" by (auto simp: busy_at_reads)
  ultimately show ?thesis using cpu_limit_unreachable by blast
qed

end
