(* ===== verification/Log_Base.thy ===== *)
theory Log_Base
  imports Go_Paths
begin

text \<open>
  What the outputs of package \<^verbatim>\<open>util/logger\<close> share (\<^verbatim>\<open>log.go\<close>): levels, messages, errors, the
  environment that an output acts on, and the contract of the interface \<^verbatim>\<open>Logger\<close> as the locale
  \<open>log_adapter\<close>.  The console output (\<^verbatim>\<open>console.go\<close>) is here; \<open>Log_File\<close> and \<open>Log_Conn\<close> hold
  the other two.
\<close>

section \<open>Levels\<close>

datatype level = LevelEmergency | LevelAlert | LevelCritical | LevelError | LevelWarning
  | LevelInformational | LevelDebug | LevelTrace

fun level_num :: "level \<Rightarrow> int" where
  "level_num LevelEmergency = 0"
| "level_num LevelAlert = 1"
| "level_num LevelCritical = 2"
| "level_num LevelError = 3"
| "level_num LevelWarning = 4"
| "level_num LevelInformational = 5"
| "level_num LevelDebug = 6"
| "level_num LevelTrace = 7"

fun levelPrefix :: "level \<Rightarrow> string" where
  "levelPrefix LevelEmergency = ''EMER''"
| "levelPrefix LevelAlert = ''ALRT''"
| "levelPrefix LevelCritical = ''CRIT''"
| "levelPrefix LevelError = ''EROR''"
| "levelPrefix LevelWarning = ''WARN''"
| "levelPrefix LevelInformational = ''INFO''"
| "levelPrefix LevelDebug = ''DEBG''"
| "levelPrefix LevelTrace = ''TRAC''"

instantiation level :: linorder
begin

definition less_eq_level :: "level \<Rightarrow> level \<Rightarrow> bool" where
  "less_eq_level a b = (level_num a \<le> level_num b)"

definition less_level :: "level \<Rightarrow> level \<Rightarrow> bool" where
  "less_level a b = (level_num a < level_num b)"

instance
proof
  fix a b :: level
  have inj: "level_num a = level_num b \<Longrightarrow> a = b" by (cases a; cases b) simp_all
  show "a \<le> b \<Longrightarrow> b \<le> a \<Longrightarrow> a = b" unfolding less_eq_level_def by (rule inj) (rule antisym)
qed (auto simp: less_eq_level_def less_level_def)

end

definition LevelMap :: "(string \<times> int) list" where
  "LevelMap = [(''EMER'', level_num LevelEmergency), (''ALRT'', level_num LevelAlert), (''CRIT'', level_num LevelCritical),
     (''EROR'', level_num LevelError), (''WARN'', level_num LevelWarning), (''INFO'', level_num LevelInformational),
     (''DEBG'', level_num LevelDebug), (''TRAC'', level_num LevelTrace)]"

lemma LevelMap_prefix: "map_of LevelMap (levelPrefix l) = Some (level_num l)"
  by (cases l) (simp_all add: LevelMap_def)

section \<open>Messages, errors and the environment\<close>

record loginfo =
  li_Time :: string
  li_Level :: string
  li_Path :: string
  li_Name :: string
  li_Content :: string

datatype log_msg = LogText string | LogInfo loginfo

datatype log_error = SameConfig | UnknownAdapter | JsonError | NoFilename | BadPermit | OsError go_error
  | NoFreeNumber | RotateError log_error | NoService | NotWritable

text \<open>A moment: the day of its month, its text in a layout, and the nanoseconds since the epoch.\<close>

record go_time =
  t_Day :: int
  Format :: "string \<Rightarrow> string"
  UnixNano :: int

text \<open>
  The machine, the clock (\<^verbatim>\<open>time.Now\<close>), the modification times of files, what was written to the
  standard output, which addresses accept a connection and which of these take data, and what
  the peers have received.
\<close>

record log_env =
  le_world :: world
  clock :: go_time
  mtime :: "string \<Rightarrow> int"
  stdout :: string
  dialable :: "string \<Rightarrow> string \<Rightarrow> bool"
  peer_ok :: "string \<Rightarrow> bool"
  received :: "(string \<times> string) list"

definition print_out :: "string \<Rightarrow> log_env \<Rightarrow> log_env" where
  "print_out s e = e\<lparr>stdout := stdout e @ s\<rparr>"

definition newline :: string where
  "newline = [CHR 0x0A]"

definition as_int64 :: "int \<Rightarrow> int" where
  "as_int64 i = (i + 2 ^ 63) mod 2 ^ 64 - 2 ^ 63"

lemma as_int64_id: "in_int64 i \<Longrightarrow> as_int64 i = i"
  by (simp add: as_int64_def in_int64_def)

section \<open>The contract of an output\<close>

text \<open>A run of messages on one output, each with its own time; errors are reported and dropped.\<close>

type_synonym 's log_writer = "go_time \<Rightarrow> log_msg \<Rightarrow> level \<Rightarrow> 's \<Rightarrow> log_env \<Rightarrow> log_error option \<times> 's \<times> log_env"

fun run_writes :: "'s log_writer \<Rightarrow> (go_time \<times> log_msg \<times> level) list \<Rightarrow> 's \<Rightarrow> log_env \<Rightarrow> log_error option list \<times> 's \<times> log_env" where
  "run_writes wr [] s e = ([], s, e)"
| "run_writes wr ((t, m, l) # ms) s e =
     (let (r, s1, e1) = wr t m l s (e\<lparr>clock := t\<rparr>); (rs, s2, e2) = run_writes wr ms s1 e1 in (r # rs, s2, e2))"

lemma run_writes_clock:
  "fst (snd (run_writes wr ms s (e\<lparr>clock := c\<rparr>))) = fst (snd (run_writes wr ms s e)) \<and>
   (snd (snd (run_writes wr ms s (e\<lparr>clock := c\<rparr>))))\<lparr>clock := d\<rparr> = (snd (snd (run_writes wr ms s e)))\<lparr>clock := d\<rparr>"
  by (cases ms) (auto split: prod.splits)

locale log_adapter =
  fixes threshold :: "'s \<Rightarrow> int"
    and level_name :: "'s \<Rightarrow> string"
    and takes :: "'s \<Rightarrow> log_msg \<Rightarrow> bool"
    and init :: "string \<Rightarrow> 's \<Rightarrow> log_env \<Rightarrow> log_error option \<times> 's \<times> log_env"
    and log_write :: "'s log_writer"
  assumes write_above: "threshold s < level_num l \<Longrightarrow> log_write t m l s e = (None, s, e)"
    and write_other: "\<not> takes s m \<Longrightarrow> log_write t m l s e = (None, s, e)"
    and write_threshold: "log_write t m l s e = (r, s', e') \<Longrightarrow> threshold s' = threshold s \<and> takes s' = takes s"
    and init_threshold: "c \<noteq> [] \<Longrightarrow> init c s e = (None, s', e') \<Longrightarrow> map_of LevelMap (level_name s') = Some n \<Longrightarrow> threshold s' = n"
    and init_empty: "fst (init [] s e) = None \<and> fst (snd (init [] s e)) = s"
begin

definition accepted :: "'s \<Rightarrow> go_time \<times> log_msg \<times> level \<Rightarrow> bool" where
  "accepted s x = (takes s (fst (snd x)) \<and> level_num (snd (snd x)) \<le> threshold s)"

lemma write_skips: "\<not> accepted s (t, m, l) \<Longrightarrow> log_write t m l s e = (None, s, e)"
  using write_above[of s l t m e] write_other[of s m t l e] by (auto simp: accepted_def not_le)

lemma accepted_stable: "log_write t m l s e = (r, s', e') \<Longrightarrow> accepted s' = accepted s"
  using write_threshold by (auto simp: accepted_def fun_eq_iff)

text \<open>A run of messages has the effect of the accepted ones among them.\<close>

lemma run_writes_filter:
  "fst (snd (run_writes log_write ms s e)) = fst (snd (run_writes log_write (filter (accepted s) ms) s e)) \<and>
   (snd (snd (run_writes log_write ms s e)))\<lparr>clock := d\<rparr> =
     (snd (snd (run_writes log_write (filter (accepted s) ms) s e)))\<lparr>clock := d\<rparr>"
proof (induction ms arbitrary: s e)
  case (Cons x ms)
  obtain t m l where x: "x = (t, m, l)" by (cases x)
  show ?case
  proof (cases "accepted s x")
    case True
    obtain r s1 e1 where w: "log_write t m l s (e\<lparr>clock := t\<rparr>) = (r, s1, e1)" by (metis prod_cases3)
    from Cons.IH[of s1 e1] show ?thesis
      using True by (simp add: x w accepted_stable[OF w] Let_def case_prod_unfold)
  next
    case False
    then show ?thesis
      using Cons.IH[of s "e\<lparr>clock := t\<rparr>"] run_writes_clock[where wr = log_write and ms = "filter (accepted s) ms" and s = s and e = e and c = t and d = d]
      by (simp add: x write_skips Let_def case_prod_unfold)
  qed
qed simp

text \<open>Once an output is initialised with a level, exactly the messages at least as urgent reach it.\<close>

lemma initialised_accepts:
  assumes "c \<noteq> []" "init c s e = (None, s', e')" "level_name s' = levelPrefix n"
  shows "accepted s' (t, m, l) \<longleftrightarrow> takes s' m \<and> l \<le> n"
  using init_threshold[OF assms(1,2)] LevelMap_prefix[of n] assms(3) by (simp add: accepted_def less_eq_level_def)

end

section \<open>The console output\<close>

definition newBrush :: "string \<Rightarrow> string \<Rightarrow> string" where
  "newBrush color text = [CHR 0x1B] @ ''['' @ color @ ''m'' @ text @ [CHR 0x1B] @ ''[0m''"

fun colors :: "level \<Rightarrow> string \<Rightarrow> string" where
  "colors LevelEmergency = newBrush ''1;41''"
| "colors LevelAlert = newBrush ''1;35''"
| "colors LevelCritical = newBrush ''1;34''"
| "colors LevelError = newBrush ''1;31''"
| "colors LevelWarning = newBrush ''1;33''"
| "colors LevelInformational = newBrush ''1;36''"
| "colors LevelDebug = newBrush ''1;32''"
| "colors LevelTrace = newBrush ''1;32''"

record consoleLogger =
  c_Level :: string
  Colorful :: bool
  c_LogLevel :: int

definition consoleLogger_zero :: consoleLogger where
  "consoleLogger_zero = \<lparr>c_Level = [], Colorful = False, c_LogLevel = 0\<rparr>"

text \<open>As registered, on a system other than Windows.\<close>

definition consoleLogger_registered :: consoleLogger where
  "consoleLogger_registered = \<lparr>c_Level = [], Colorful = True, c_LogLevel = level_num LevelDebug\<rparr>"

definition consoleLogger_json :: "consoleLogger \<Rightarrow> json" where
  "consoleLogger_json c = JObj [(''level'', JStr (c_Level c)), (''color'', JBool (Colorful c)), (''LogLevel'', JNum (Itoa (c_LogLevel c)))]"

definition consoleLogger_fields :: "consoleLogger field list" where
  "consoleLogger_fields =
     [(''level'', str_field (\<lambda>s. c_Level_update (\<lambda>_. s))),
      (''color'', bool_field (\<lambda>b. Colorful_update (\<lambda>_. b))),
      (''LogLevel'', int_field (\<lambda>i. c_LogLevel_update (\<lambda>_. i)))]"

text \<open>A known level name makes \<^verbatim>\<open>Init\<close> succeed even where the JSON text is wrong.\<close>

definition console_Init :: "string \<Rightarrow> consoleLogger \<Rightarrow> log_env \<Rightarrow> log_error option \<times> consoleLogger \<times> log_env" where
  "console_Init jsonConfig c e =
     (if jsonConfig = [] then (None, c, e)
      else let e1 = (if jsonConfig \<noteq> ''{}'' then print_out (''consoleLogger Init:'' @ jsonConfig @ newline) e else e);
               (c1, ok) = unmarshal (dec_struct consoleLogger_fields) jsonConfig c
           in case map_of LevelMap (c_Level c1) of
                Some l \<Rightarrow> (None, c1\<lparr>c_LogLevel := l\<rparr>, e1)
              | None \<Rightarrow> (if ok then None else Some JsonError, c1, e1))"

definition printlnConsole :: "string \<Rightarrow> log_env \<Rightarrow> log_env" where
  "printlnConsole msg e = print_out (msg @ newline) e"

definition console_LogWrite :: "consoleLogger log_writer" where
  "console_LogWrite when msgText l c e =
     (if level_num l > c_LogLevel c then (None, c, e)
      else case msgText of
             LogInfo _ \<Rightarrow> (None, c, e)
           | LogText msg \<Rightarrow> (None, c, printlnConsole (if Colorful c then colors l msg else msg) e))"

fun is_text :: "log_msg \<Rightarrow> bool" where
  "is_text (LogText _) = True"
| "is_text (LogInfo _) = False"

interpretation console_out: log_adapter c_LogLevel c_Level "\<lambda>_. is_text" console_Init console_LogWrite
proof (unfold_locales, goal_cases)
  case (2 s m t l e)
  then show ?case by (cases m) (simp_all add: console_LogWrite_def)
next
  case (4 c s e s' e' n)
  then show ?case
    by (auto simp: console_Init_def Let_def split: option.splits prod.splits if_splits)
qed (auto simp: console_LogWrite_def console_Init_def split: log_msg.splits if_splits)

end
