(* ===== verification/Log_File.thy ===== *)
theory Log_File
  imports Log_Base
begin

text \<open>
  The file output of package \<^verbatim>\<open>util/logger\<close> (\<^verbatim>\<open>file.go\<close>): opening, writing, rotating by size, lines
  and day, and removing old files.  Every operation runs under the logger's lock and is one
  function here; the removal of old files, which the source starts as a goroutine, runs where it
  is started.  File modes are not modelled.
\<close>

section \<open>State\<close>

text \<open>The descriptor: none yet, open on a path, open on a file that has lost its name, or closed.\<close>

datatype file_writer = NoFile | OpenFile string | Unlinked | ClosedFile

record fileLogger =
  fileWriter :: file_writer
  Filename :: string
  Append :: bool
  MaxLines :: int
  MaxSize :: int
  Daily :: bool
  MaxDays :: int
  f_Level :: string
  PermitMask :: string
  f_LogLevel :: int
  maxSizeCurSize :: int
  maxLinesCurLines :: int
  dailyOpenDate :: int
  dailyOpenTime :: go_time
  fileNameOnly :: string
  suffix :: string

definition zero_time :: go_time where
  "zero_time = \<lparr>t_Day = 1, Format = (\<lambda>_. []), UnixNano = 0\<rparr>"

definition fileLogger_zero :: fileLogger where
  "fileLogger_zero = \<lparr>fileWriter = NoFile, Filename = [], Append = False, MaxLines = 0, MaxSize = 0, Daily = False,
     MaxDays = 0, f_Level = [], PermitMask = [], f_LogLevel = 0, maxSizeCurSize = 0, maxLinesCurLines = 0,
     dailyOpenDate = 0, dailyOpenTime = zero_time, fileNameOnly = [], suffix = []\<rparr>"

definition fileLogger_registered :: fileLogger where
  "fileLogger_registered = fileLogger_zero\<lparr>Daily := True, MaxDays := 7, Append := True, f_LogLevel := level_num LevelDebug,
     PermitMask := ''0777'', MaxLines := 10, MaxSize := 10 * 1024 * 1024\<rparr>"

definition fileLogger_json :: "fileLogger \<Rightarrow> json" where
  "fileLogger_json f = JObj [(''filename'', JStr (Filename f)), (''append'', JBool (Append f)), (''maxlines'', JNum (Itoa (MaxLines f))),
     (''maxsize'', JNum (Itoa (MaxSize f))), (''daily'', JBool (Daily f)), (''maxdays'', JNum (Itoa (MaxDays f))),
     (''level'', JStr (f_Level f)), (''permit'', JStr (PermitMask f)), (''LogLevel'', JNum (Itoa (f_LogLevel f)))]"

definition fileLogger_fields :: "fileLogger field list" where
  "fileLogger_fields =
     [(''filename'', str_field (\<lambda>s. Filename_update (\<lambda>_. s))),
      (''append'', bool_field (\<lambda>b. Append_update (\<lambda>_. b))),
      (''maxlines'', int_field (\<lambda>i. MaxLines_update (\<lambda>_. i))),
      (''maxsize'', int_field (\<lambda>i. MaxSize_update (\<lambda>_. i))),
      (''daily'', bool_field (\<lambda>b. Daily_update (\<lambda>_. b))),
      (''maxdays'', int_field (\<lambda>i. MaxDays_update (\<lambda>_. i))),
      (''level'', str_field (\<lambda>s. f_Level_update (\<lambda>_. s))),
      (''permit'', str_field (\<lambda>s. PermitMask_update (\<lambda>_. s))),
      (''LogLevel'', int_field (\<lambda>i. f_LogLevel_update (\<lambda>_. i)))]"

section \<open>The file system\<close>

definition le_path :: "log_env \<Rightarrow> string \<Rightarrow> string" where
  "le_path e p = abs_path (le_world e) p"

definition isExist :: "log_env \<Rightarrow> string \<Rightarrow> bool" where
  "isExist e p = (stat_ok (le_world e) p \<or> dirs (le_world e) (dir_key (le_world e) p))"

definition touch :: "string \<Rightarrow> log_env \<Rightarrow> log_env" where
  "touch p e = e\<lparr>mtime := (mtime e)(le_path e p := UnixNano (clock e))\<rparr>"

text \<open>\<^verbatim>\<open>OpenFile\<close> with \<^verbatim>\<open>O_WRONLY|O_APPEND|O_CREATE\<close>: a missing file is created empty.\<close>

definition open_append :: "string \<Rightarrow> log_env \<Rightarrow> log_error option \<times> log_env" where
  "open_append p e =
     (let w = le_world e in
      if dirs w (abs_path w p) \<or> wr_denied w (abs_path w p) then (Some (OsError EPermission), e)
      else if files w (abs_path w p) = None then (None, touch p (e\<lparr>le_world := set_file p (Some []) w\<rparr>))
      else (None, e))"

definition write_to :: "file_writer \<Rightarrow> string \<Rightarrow> log_env \<Rightarrow> log_error option \<times> log_env" where
  "write_to fw s e =
     (case fw of
        OpenFile p \<Rightarrow>
          (case os_write p s (le_world e) of
             (Some err, w) \<Rightarrow> (Some (OsError err), e\<lparr>le_world := w\<rparr>)
           | (None, w) \<Rightarrow> (None, touch p (e\<lparr>le_world := w\<rparr>)))
      | Unlinked \<Rightarrow> (if disk_full (le_world e) then (Some (OsError ENoSpace), e) else (None, e))
      | _ \<Rightarrow> (Some NotWritable, e))"

definition os_rename :: "string \<Rightarrow> string \<Rightarrow> log_env \<Rightarrow> log_error option \<times> log_env" where
  "os_rename src dst e =
     (let w = le_world e in
      if files w (abs_path w src) = None then (Some (OsError ENotExist), e)
      else if dirs w (abs_path w dst) \<or> wr_denied w (abs_path w src) \<or> wr_denied w (abs_path w dst) then (Some (OsError EPermission), e)
      else (None, e\<lparr>le_world := set_file dst (files w (abs_path w src)) (set_file src None w),
                    mtime := (mtime e)(le_path e dst := mtime e (le_path e src))\<rparr>))"

section \<open>Opening and counting\<close>

function count_lines :: "string \<Rightarrow> int \<Rightarrow> int" where
  "count_lines content cnt =
     (if content = [] then cnt
      else count_lines (drop 32768 content) (cnt + int (count_list (take 32768 content) (CHR 0x0A))))"
  by pat_completeness auto
termination by (relation "measure (\<lambda>(content, cnt). length content)") auto

declare count_lines.simps [simp del]

definition lines :: "fileLogger \<Rightarrow> log_env \<Rightarrow> log_error + int" where
  "lines f e =
     (case os_open_read (le_world e) (Filename f) of
        Inl err \<Rightarrow> Inl (OsError err)
      | Inr content \<Rightarrow> Inr (count_lines content 0))"

definition createLogFile :: "fileLogger \<Rightarrow> log_env \<Rightarrow> (log_error + file_writer) \<times> log_env" where
  "createLogFile f e =
     (case ParseInt 8 (PermitMask f) of
        None \<Rightarrow> (Inl BadPermit, e)
      | Some perm \<Rightarrow>
          (let filePath = fst (Split_path (Filename f));
               (err, w1) = (if filePath \<noteq> [] \<and> \<not> isExist e filePath then os_mkdir_all filePath (le_world e) else (None, le_world e))
           in case err of
                Some err' \<Rightarrow> (Inl (OsError err'), e\<lparr>le_world := w1\<rparr>)
              | None \<Rightarrow>
                  (case open_append (Filename f) (e\<lparr>le_world := w1\<rparr>) of
                     (Some err', e2) \<Rightarrow> (Inl err', e2)
                   | (None, e2) \<Rightarrow> (Inr (OpenFile (Filename f)), e2))))"

definition newFile :: "fileLogger \<Rightarrow> log_env \<Rightarrow> log_error option \<times> fileLogger \<times> log_env" where
  "newFile f e =
     (case createLogFile f e of
        (Inl err, e1) \<Rightarrow> (Some err, f, e1)
      | (Inr file, e1) \<Rightarrow>
          (let fsize = (case files (le_world e1) (le_path e1 (Filename f)) of None \<Rightarrow> 0 | Some c \<Rightarrow> int (length c));
               f1 = f\<lparr>fileWriter := file, maxSizeCurSize := fsize, dailyOpenTime := clock e1,
                      dailyOpenDate := t_Day (clock e1), maxLinesCurLines := 0\<rparr>
           in if fsize > 0 then
                (case lines f1 e1 of
                   Inl err \<Rightarrow> (Some err, f1, e1)
                 | Inr cnt \<Rightarrow> (None, f1\<lparr>maxLinesCurLines := cnt\<rparr>, e1))
              else (None, f1, e1)))"

definition file_Init :: "string \<Rightarrow> fileLogger \<Rightarrow> log_env \<Rightarrow> log_error option \<times> fileLogger \<times> log_env" where
  "file_Init jsonConfig f e0 =
     (let e = print_out (''fileLogger Init:'' @ jsonConfig @ newline) e0 in
      if jsonConfig = [] then (None, f, e)
      else let (f1, ok) = unmarshal (dec_struct fileLogger_fields) jsonConfig f in
           if \<not> ok then (Some JsonError, f1, e)
           else if Filename f1 = [] then (Some NoFilename, f1, e)
           else let suf = Ext (Filename f1);
                    f2 = f1\<lparr>suffix := (if suf = [] then ''.log'' else suf), fileNameOnly := TrimSuffix (Filename f1) suf,
                            MaxSize := as_int64 (MaxSize f1 * (1024 * 1024))\<rparr>;
                    f3 = (case map_of LevelMap (f_Level f2) of Some l \<Rightarrow> f2\<lparr>f_LogLevel := l\<rparr> | None \<Rightarrow> f2)
                in newFile f3 e)"

section \<open>Rotation\<close>

definition needCreateFresh :: "fileLogger \<Rightarrow> int \<Rightarrow> int \<Rightarrow> bool" where
  "needCreateFresh f len day =
     ((MaxLines f > 0 \<and> maxLinesCurLines f \<ge> MaxLines f) \<or>
      (MaxSize f > 0 \<and> maxSizeCurSize f + len \<ge> MaxSize f) \<or>
      (Daily f \<and> day \<noteq> dailyOpenDate f))"

definition rotated_name :: "fileLogger \<Rightarrow> string \<Rightarrow> nat \<Rightarrow> string" where
  "rotated_name f date num = fileNameOnly f @ ''.'' @ date @ ''.'' @ pad0 3 (nat_str num) @ suffix f"

text \<open>The loops over the numbers up to 999: the first number whose name is free.\<close>

function free_number :: "(nat \<Rightarrow> bool) \<Rightarrow> nat \<Rightarrow> nat option" where
  "free_number used num = (if num \<le> 999 then (if used num then free_number used (num + 1) else Some num) else None)"
  by pat_completeness auto
termination by (relation "measure (\<lambda>(used, num). 1000 - num)") auto

declare free_number.simps [simp del]

definition expired :: "fileLogger \<Rightarrow> log_env \<Rightarrow> string \<Rightarrow> bool" where
  "expired f e p = (MaxDays f \<noteq> -1 \<and>
     mtime e p + as_int64 (24 * 3600 * 1000000000 * MaxDays f) < UnixNano (clock e) \<and>
     HasPrefix (Base p) (Base (fileNameOnly f)) \<and> HasSuffix (Base p) (suffix f))"

text \<open>\<^verbatim>\<open>Walk\<close> visits every file below the directory; a file that cannot be removed stays.\<close>

definition removed :: "fileLogger \<Rightarrow> log_env \<Rightarrow> string \<Rightarrow> bool" where
  "removed f e p = (HasPrefix p (dir_key (le_world e) (Dir (Filename f)) @ ''/'') \<and> expired f e p \<and> \<not> wr_denied (le_world e) p)"

definition deleteOldLog :: "fileLogger \<Rightarrow> log_env \<Rightarrow> fileLogger \<times> log_env" where
  "deleteOldLog f e =
     (f\<lparr>fileWriter := (case fileWriter f of OpenFile p \<Rightarrow> if removed f e (le_path e p) then Unlinked else OpenFile p | fw \<Rightarrow> fw)\<rparr>,
      e\<lparr>le_world := (le_world e)\<lparr>files := \<lambda>p. if removed f e p then None else files (le_world e) p\<rparr>\<rparr>)"

text \<open>The part of \<^verbatim>\<open>createFreshFile\<close> after its label, given the error so far.\<close>

definition restart_logger :: "log_error option \<Rightarrow> fileLogger \<Rightarrow> log_env \<Rightarrow> log_error option \<times> fileLogger \<times> log_env" where
  "restart_logger err f e =
     (let (startLoggerErr, f1, e1) = newFile f e; (f2, e2) = deleteOldLog f1 e1
      in (map_option RotateError (case startLoggerErr of Some s \<Rightarrow> Some s | None \<Rightarrow> err), f2, e2))"

definition createFreshFile :: "go_time \<Rightarrow> fileLogger \<Rightarrow> log_env \<Rightarrow> log_error option \<times> fileLogger \<times> log_env" where
  "createFreshFile logTime f e =
     (case ParseInt 8 (PermitMask f) of
        None \<Rightarrow> (Some BadPermit, f, e)
      | Some rotatePerm \<Rightarrow>
          if \<not> isExist e (Filename f) then restart_logger (Some (OsError ENotExist)) f e
          else let date = Format (if dailyOpenDate f \<noteq> t_Day logTime then dailyOpenTime f else logTime) ''2006-01-02''
               in case free_number (\<lambda>num. isExist e (rotated_name f date num)) 1 of
                    None \<Rightarrow> (Some NoFreeNumber, f, e)
                  | Some num \<Rightarrow>
                      (let (err, e1) = os_rename (Filename f) (rotated_name f date num) e
                       in restart_logger err (f\<lparr>fileWriter := ClosedFile\<rparr>) e1))"

definition file_LogWrite :: "fileLogger log_writer" where
  "file_LogWrite when msgText l f e =
     (case msgText of
        LogInfo _ \<Rightarrow> (None, f, e)
      | LogText text \<Rightarrow>
          if level_num l > f_LogLevel f then (None, f, e)
          else let msg = text @ newline;
                   (f1, e1) = (if Append f \<and> needCreateFresh f (int (length msg)) (t_Day when)
                               then snd (createFreshFile when f e) else (f, e))
               in case write_to (fileWriter f1) msg e1 of
                    (Some err, e2) \<Rightarrow> (Some err, f1, e2)
                  | (None, e2) \<Rightarrow> (None, f1\<lparr>maxLinesCurLines := maxLinesCurLines f1 + 1,
                                           maxSizeCurSize := maxSizeCurSize f1 + int (length msg)\<rparr>, e2))"

definition file_Destroy :: "fileLogger \<Rightarrow> fileLogger" where
  "file_Destroy f = f\<lparr>fileWriter := (case fileWriter f of NoFile \<Rightarrow> NoFile | _ \<Rightarrow> ClosedFile)\<rparr>"

section \<open>Loops\<close>

lemma count_lines_eq: "count_lines content cnt = cnt + int (count_list content (CHR 0x0A))"
proof (induction content cnt rule: count_lines.induct)
  case (1 content cnt)
  have split: "count_list content c = count_list (take 32768 content) c + count_list (drop 32768 content) c" for c
    by (metis append_take_drop_id count_list_append)
  show ?case
  proof (cases "content = []")
    case False
    with 1 show ?thesis using split[of "CHR 0x0A"] by (subst count_lines.simps) simp
  qed (simp add: count_lines.simps)
qed

text \<open>
  C39. The search for a free number ends, with the least number from the start up to 999 whose
  name is not in use, or with none when all are.
\<close>

theorem free_number_spec: "free_number used num = find (\<lambda>n. \<not> used n) [num..<1000]"
proof (induction used num rule: free_number.induct)
  case (1 used num)
  show ?case
  proof (cases "num \<le> 999")
    case True
    then have "[num..<1000] = num # [num + 1..<1000]" by (simp add: upt_conv_Cons)
    with 1 True show ?thesis by (subst free_number.simps) simp
  qed (simp add: free_number.simps)
qed

lemma free_number_free: "free_number used num = Some n \<Longrightarrow> \<not> used n \<and> num \<le> n \<and> n \<le> 999"
  by (induction used num rule: free_number.induct) (auto split: if_splits simp: free_number.simps[of used num for used num])

section \<open>What the operations leave alone\<close>

definition same_conf :: "fileLogger \<Rightarrow> fileLogger \<Rightarrow> bool" where
  "same_conf f f' = (Filename f' = Filename f \<and> Append f' = Append f \<and> MaxLines f' = MaxLines f \<and> MaxSize f' = MaxSize f \<and>
     Daily f' = Daily f \<and> MaxDays f' = MaxDays f \<and> f_Level f' = f_Level f \<and> PermitMask f' = PermitMask f \<and>
     f_LogLevel f' = f_LogLevel f \<and> fileNameOnly f' = fileNameOnly f \<and> suffix f' = suffix f)"

lemma same_conf_newFile: "same_conf f (fst (snd (newFile f e)))"
  by (auto simp: newFile_def same_conf_def Let_def split: sum.splits prod.splits)

lemma same_conf_deleteOldLog: "same_conf f (fst (deleteOldLog f e))"
  by (simp add: deleteOldLog_def same_conf_def)

lemma same_conf_trans: "same_conf f g \<Longrightarrow> same_conf g h \<Longrightarrow> same_conf f h"
  by (simp add: same_conf_def)

lemma same_conf_restart: "same_conf f (fst (snd (restart_logger err f e)))"
  using same_conf_trans[OF same_conf_newFile[of f e] same_conf_deleteOldLog]
  by (simp add: restart_logger_def Let_def case_prod_unfold)

lemma same_conf_writer: "same_conf (f\<lparr>fileWriter := fw\<rparr>) g = same_conf f g"
  by (simp add: same_conf_def)

lemma same_conf_fresh: "same_conf f (fst (snd (createFreshFile t f e)))"
proof -
  have "same_conf f f" by (simp add: same_conf_def)
  moreover have "same_conf f (fst (snd (restart_logger err (f\<lparr>fileWriter := ClosedFile\<rparr>) e1)))" for err e1
    using same_conf_restart[of "f\<lparr>fileWriter := ClosedFile\<rparr>" err e1] by (simp add: same_conf_writer)
  ultimately show ?thesis
    by (simp add: createFreshFile_def Let_def case_prod_unfold same_conf_restart split: option.splits)
qed

lemma same_conf_LogWrite: "file_LogWrite t m l f e = (r, f', e') \<Longrightarrow> same_conf f f'"
proof -
  have refl: "same_conf f f" by (simp add: same_conf_def)
  have upd: "same_conf f g \<Longrightarrow> same_conf f (g\<lparr>maxLinesCurLines := i, maxSizeCurSize := j\<rparr>)" for g i j by (simp add: same_conf_def)
  assume "file_LogWrite t m l f e = (r, f', e')"
  then show ?thesis
    using refl same_conf_fresh[of f t e]
    by (auto simp: file_LogWrite_def Let_def case_prod_unfold upd split: log_msg.splits option.splits if_splits prod.splits)
qed

lemma file_Init_conf:
  assumes "c \<noteq> []" "file_Init c f e = (None, f', e')" "map_of LevelMap (f_Level f') = Some n"
  shows "f_LogLevel f' = n"
proof -
  obtain f1 ok where u: "unmarshal (dec_struct fileLogger_fields) c f = (f1, ok)" by (cases "unmarshal (dec_struct fileLogger_fields) c f")
  have conf: "newFile g e1 = (None, f', e') \<Longrightarrow> f_LogLevel f' = f_LogLevel g \<and> f_Level f' = f_Level g" for g e1
    using same_conf_newFile[of g e1] by (simp add: same_conf_def)
  from assms u show ?thesis
    by (auto simp: file_Init_def Let_def split: if_splits option.splits dest!: conf)
qed

interpretation file_out: log_adapter f_LogLevel f_Level "\<lambda>_. is_text" file_Init file_LogWrite
proof (unfold_locales, goal_cases)
  case (2 s m t l e)
  then show ?case by (cases m) (simp_all add: file_LogWrite_def)
next
  case (3 t m l s e r s' e')
  then show ?case using same_conf_LogWrite by (simp add: same_conf_def)
next
  case (4 c s e s' e' n)
  then show ?case by (rule file_Init_conf)
qed (auto simp: file_LogWrite_def file_Init_def Let_def split: log_msg.splits)

section \<open>The log as one text\<close>

text \<open>
  A file output in working order: its file is open and exists, its directory exists, the disk
  has room, nothing is protected and old files are kept (\<^verbatim>\<open>maxdays\<close> is -1).
\<close>

definition working :: "fileLogger \<Rightarrow> log_env \<Rightarrow> bool" where
  "working f e = (let w = le_world e in
     fileWriter f = OpenFile (Filename f) \<and> ParseInt 8 (PermitMask f) \<noteq> None \<and> MaxDays f = -1 \<and>
     \<not> disk_full w \<and> wr_denied w = (\<lambda>_. False) \<and> rd_denied w = (\<lambda>_. False) \<and>
     (fst (Split_path (Filename f)) = [] \<or> dirs w (dir_key w (fst (Split_path (Filename f))))) \<and>
     \<not> dirs w (abs_path w (Filename f)))"

definition stored :: "log_env \<Rightarrow> string \<Rightarrow> string option" where
  "stored e p = files (le_world e) p"

lemma deleteOldLog_off: "MaxDays f = -1 \<Longrightarrow> deleteOldLog f e = (f, e)"
  by (cases "fileWriter f") (simp_all add: deleteOldLog_def removed_def expired_def)

lemma le_path_simps [simp]:
  "le_path (e\<lparr>clock := t\<rparr>) p = le_path e p" "le_path (e\<lparr>mtime := m\<rparr>) p = le_path e p"
  "le_path (e\<lparr>le_world := set_file q c w\<rparr>) p = abs_path w p"
  by (simp_all add: le_path_def world_simps)

lemma le_path_clock: "le_path (e\<lparr>clock := t\<rparr>) = le_path e"
  by (simp add: fun_eq_iff)

lemma working_clock: "working f (e\<lparr>clock := t\<rparr>) = working f e"
  by (simp add: working_def)

lemma stored_clock: "stored (e\<lparr>clock := t\<rparr>) = stored e"
  by (simp add: stored_def fun_eq_iff)

lemma write_working:
  assumes "working f e" "stored e (le_path e (Filename f)) = Some c"
  shows "\<exists>e'. write_to (fileWriter f) s e = (None, e') \<and> working f e' \<and> le_path e' = le_path e \<and>
     stored e' = (stored e)(le_path e (Filename f) \<mapsto> c @ s)"
  using assms
  by (auto simp: working_def write_to_def os_write_def Let_def stored_def le_path_def touch_def world_simps fun_eq_iff dir_key_def)

text \<open>The rename and the new file of a rotation, for a name that is free.\<close>

lemma rotate_files:
  assumes "working f e" "stored e (le_path e (Filename f)) = Some c" "\<not> isExist e a"
  shows "\<exists>e1 e2. os_rename (Filename f) a e = (None, e1) \<and> createLogFile (f\<lparr>fileWriter := ClosedFile\<rparr>) e1 = (Inr (OpenFile (Filename f)), e2) \<and>
    le_world e2 = set_file (Filename f) (Some []) (set_file a (Some c) (set_file (Filename f) None (le_world e))) \<and>
    abs_path (le_world e) a \<noteq> le_path e (Filename f) \<and> stored e (abs_path (le_world e) a) = None"
proof -
  let ?w = "le_world e"
  have files: "files ?w (abs_path ?w (Filename f)) = Some c" "files ?w (abs_path ?w a) = None" "\<not> dirs ?w (abs_path ?w a)"
    using assms(2,3) by (auto simp: isExist_def stat_ok_def stored_def le_path_def)
  then have ne: "abs_path ?w a \<noteq> abs_path ?w (Filename f)" by auto
  obtain e1 where e1: "os_rename (Filename f) a e = (None, e1)" "le_world e1 = set_file a (Some c) (set_file (Filename f) None ?w)"
    using assms(1) files by (auto simp: os_rename_def Let_def working_def)
  obtain e2 where e2: "open_append (Filename f) e1 = (None, e2)" "le_world e2 = set_file (Filename f) (Some []) (le_world e1)"
    using assms(1) ne e1(2) by (auto simp: open_append_def Let_def working_def world_simps touch_def)
  have "filePath = [] \<or> isExist e1 filePath" if "filePath = fst (Split_path (Filename f))" for filePath
    using assms(1) that e1(2) by (auto simp: working_def Let_def isExist_def dir_key_def world_simps)
  then have "createLogFile (f\<lparr>fileWriter := ClosedFile\<rparr>) e1 = (Inr (OpenFile (Filename f)), e2)"
    using assms(1) e2(1) by (auto simp: createLogFile_def Let_def working_def)
  then show ?thesis using e1 e2(2) ne files(2) by (auto simp: stored_def le_path_def)
qed

text \<open>A rotation moves the log to a name that was free and starts an empty file.\<close>

lemma rotate_working:
  assumes "working f e" "stored e (le_path e (Filename f)) = Some c"
  shows "\<exists>f' e'. snd (createFreshFile t f e) = (f', e') \<and> working f' e' \<and> same_conf f f' \<and> le_path e' = le_path e \<and>
     (stored e' = stored e \<and> f' = f \<or>
      maxSizeCurSize f' = 0 \<and> maxLinesCurLines f' = 0 \<and>
      (\<exists>a. a \<noteq> le_path e (Filename f) \<and> stored e a = None \<and>
           stored e' = (stored e)(a \<mapsto> c, le_path e (Filename f) \<mapsto> [])))"
proof -
  let ?date = "Format (if dailyOpenDate f \<noteq> t_Day t then dailyOpenTime f else t) ''2006-01-02''"
  have perm: "\<exists>p. ParseInt 8 (PermitMask f) = Some p" and ex: "isExist e (Filename f)"
    using assms by (auto simp: working_def Let_def isExist_def stat_ok_def stored_def le_path_def)
  show ?thesis
  proof (cases "free_number (\<lambda>num. isExist e (rotated_name f ?date num)) 1")
    case None
    then have "createFreshFile t f e = (Some NoFreeNumber, f, e)" using perm ex by (auto simp: createFreshFile_def Let_def)
    then show ?thesis using assms(1) by (simp add: same_conf_def)
  next
    case (Some num)
    let ?a = "rotated_name f ?date num" and ?w = "le_world e"
    obtain e1 e2 where e: "os_rename (Filename f) ?a e = (None, e1)" "createLogFile (f\<lparr>fileWriter := ClosedFile\<rparr>) e1 = (Inr (OpenFile (Filename f)), e2)"
      "le_world e2 = set_file (Filename f) (Some []) (set_file ?a (Some c) (set_file (Filename f) None ?w))"
      "abs_path ?w ?a \<noteq> le_path e (Filename f)" "stored e (abs_path ?w ?a) = None"
      using rotate_files[OF assms, of ?a] free_number_free[OF Some] by blast
    obtain f' where nf: "newFile (f\<lparr>fileWriter := ClosedFile\<rparr>) e1 = (None, f', e2)" "fileWriter f' = OpenFile (Filename f)"
      and zero: "maxSizeCurSize f' = 0" "maxLinesCurLines f' = 0"
      using e(2,3) by (simp add: newFile_def Let_def le_path_def world_simps)
    have conf: "same_conf f f'" using same_conf_newFile[of "f\<lparr>fileWriter := ClosedFile\<rparr>" e1] nf(1) by (simp add: same_conf_writer)
    then have off: "MaxDays f' = -1" "Filename f' = Filename f" "PermitMask f' = PermitMask f"
      using assms(1) by (simp_all add: same_conf_def working_def Let_def)
    have "snd (createFreshFile t f e) = (f', e2)"
      using perm ex Some e(1) nf(1) deleteOldLog_off[OF off(1)] by (auto simp: createFreshFile_def Let_def restart_logger_def)
    moreover have "working f' e2" using assms(1) nf(2) off e(3) by (simp add: working_def Let_def world_simps dir_key_def)
    moreover have "le_path e2 = le_path e" using e(3) by (simp add: le_path_def fun_eq_iff world_simps)
    moreover have "stored e2 = (stored e)(abs_path ?w ?a \<mapsto> c, le_path e (Filename f) \<mapsto> [])"
      using e(3,4) by (auto simp: stored_def le_path_def world_simps fun_eq_iff)
    ultimately show ?thesis using conf e(4,5) zero by auto
  qed
qed

definition text_at :: "log_env \<Rightarrow> string \<Rightarrow> string" where
  "text_at e p = (case stored e p of None \<Rightarrow> [] | Some c \<Rightarrow> c)"

fun line_of :: "go_time \<times> log_msg \<times> level \<Rightarrow> string" where
  "line_of (t, LogText s, l) = s @ newline"
| "line_of (t, LogInfo i, l) = []"

text \<open>Before a message the log may be rotated: \<open>f1\<close> and \<open>e1\<close> are what the rotation leaves.\<close>

definition rotated_to :: "fileLogger \<Rightarrow> string \<Rightarrow> log_env \<Rightarrow> fileLogger \<Rightarrow> log_env \<Rightarrow> bool" where
  "rotated_to f c e f1 e1 = (maxSizeCurSize f1 = 0 \<and> maxLinesCurLines f1 = 0 \<and>
     (\<exists>a. a \<noteq> le_path e (Filename f) \<and> stored e a = None \<and> stored e1 = (stored e)(a \<mapsto> c, le_path e (Filename f) \<mapsto> [])))"

lemma maybe_rotate_working:
  assumes "working f e" "stored e (le_path e (Filename f)) = Some c"
  shows "\<exists>f1 e1 d. (if b then snd (createFreshFile t f e) else (f, e)) = (f1, e1) \<and> working f1 e1 \<and> same_conf f f1 \<and> le_path e1 = le_path e \<and>
    stored e1 (le_path e (Filename f)) = Some d \<and> (stored e1 = stored e \<and> f1 = f \<and> d = c \<or> rotated_to f c e f1 e1 \<and> d = [])"
proof (cases b)
  case True
  obtain f1 e1 where r: "snd (createFreshFile t f e) = (f1, e1)" "working f1 e1" "same_conf f f1" "le_path e1 = le_path e"
    and how: "stored e1 = stored e \<and> f1 = f \<or> rotated_to f c e f1 e1"
    using rotate_working[OF assms, of t] unfolding rotated_to_def by blast
  from how have "\<exists>d. stored e1 (le_path e (Filename f)) = Some d \<and> (stored e1 = stored e \<and> f1 = f \<and> d = c \<or> rotated_to f c e f1 e1 \<and> d = [])"
    using assms(2) by (auto simp: rotated_to_def)
  with r True show ?thesis by auto
next
  case False
  then show ?thesis using assms by (auto simp: same_conf_def)
qed

text \<open>What one accepted message does: it is appended to the file, or to a new file after the old one was moved.\<close>

lemma LogWrite_working:
  assumes "working f e" "stored e (le_path e (Filename f)) = Some c" "file_out.accepted f (t, m, l)"
  shows "\<exists>f' e'. file_LogWrite t m l f e = (None, f', e') \<and> working f' e' \<and> same_conf f f' \<and> le_path e' = le_path e \<and>
     (stored e' = (stored e)(le_path e (Filename f) \<mapsto> c @ line_of (t, m, l)) \<and>
      maxSizeCurSize f' = maxSizeCurSize f + int (length (line_of (t, m, l))) \<and> maxLinesCurLines f' = maxLinesCurLines f + 1 \<or>
      maxSizeCurSize f' = int (length (line_of (t, m, l))) \<and> maxLinesCurLines f' = 1 \<and>
      (\<exists>a. a \<noteq> le_path e (Filename f) \<and> stored e a = None \<and>
           stored e' = (stored e)(a \<mapsto> c, le_path e (Filename f) \<mapsto> line_of (t, m, l))))"
proof -
  obtain s where m: "m = LogText s" using assms(3) by (cases m) (simp_all add: file_out.accepted_def)
  obtain f1 e1 d where fe: "(if Append f \<and> needCreateFresh f (int (length (s @ newline))) (t_Day t) then snd (createFreshFile t f e) else (f, e)) = (f1, e1)"
    and one: "working f1 e1" "same_conf f f1" "le_path e1 = le_path e" "stored e1 (le_path e (Filename f)) = Some d"
    and how: "stored e1 = stored e \<and> f1 = f \<and> d = c \<or> rotated_to f c e f1 e1 \<and> d = []"
    using maybe_rotate_working[OF assms(1,2)] by blast
  have name: "Filename f1 = Filename f" using one(2) by (simp add: same_conf_def)
  obtain e2 where e2: "write_to (fileWriter f1) (s @ newline) e1 = (None, e2)" "working f1 e2" "le_path e2 = le_path e"
    "stored e2 = (stored e1)(le_path e (Filename f) \<mapsto> d @ s @ newline)"
    using write_working[of f1 e1 d "s @ newline"] one name by auto
  let ?f2 = "f1\<lparr>maxLinesCurLines := maxLinesCurLines f1 + 1, maxSizeCurSize := maxSizeCurSize f1 + int (length (s @ newline))\<rparr>"
  have "file_LogWrite t m l f e = (None, ?f2, e2)"
    using assms(3) fe e2(1) by (simp add: file_LogWrite_def m file_out.accepted_def Let_def)
  moreover have "working ?f2 e2" "same_conf f ?f2" using e2(2) one(2) by (simp_all add: working_def same_conf_def)
  moreover have "stored e2 = (stored e)(le_path e (Filename f) \<mapsto> c @ s @ newline) \<and>
      maxSizeCurSize ?f2 = maxSizeCurSize f + int (length (s @ newline)) \<and> maxLinesCurLines ?f2 = maxLinesCurLines f + 1 \<or>
      maxSizeCurSize ?f2 = int (length (s @ newline)) \<and> maxLinesCurLines ?f2 = 1 \<and>
      (\<exists>a. a \<noteq> le_path e (Filename f) \<and> stored e a = None \<and> stored e2 = (stored e)(a \<mapsto> c, le_path e (Filename f) \<mapsto> s @ newline))"
    using how e2(4) by (auto simp: rotated_to_def)
  ultimately show ?thesis using e2(3) by (simp add: m)
qed

text \<open>
  After some messages the log is the files that were rotated away, each new, followed by the current file \<open>cur\<close>; nothing else has changed.
\<close>

definition history_of :: "log_env \<Rightarrow> log_env \<Rightarrow> string \<Rightarrow> string \<Rightarrow> bool" where
  "history_of e e' cur text = (\<exists>archive. distinct archive \<and> (\<forall>a\<in>set archive. stored e a = None) \<and>
     concat (map (text_at e') archive) @ text_at e' cur = text \<and>
     (\<forall>p. p \<noteq> cur \<longrightarrow> p \<notin> set archive \<longrightarrow> stored e' p = stored e p))"

lemma history_written: "stored e1 = (stored e)(cur \<mapsto> d) \<Longrightarrow> history_of e1 e' cur text \<Longrightarrow> history_of e e' cur text"
  unfolding history_of_def by (auto split: if_splits)

lemma history_rotated:
  assumes "a \<noteq> cur" "stored e a = None" "stored e1 = (stored e)(a \<mapsto> c, cur \<mapsto> d)" "history_of e1 e' cur text"
  shows "history_of e e' cur (c @ text)"
proof -
  obtain archive where ih: "distinct archive" "\<forall>b\<in>set archive. stored e1 b = None" "concat (map (text_at e') archive) @ text_at e' cur = text"
    "\<forall>p. p \<noteq> cur \<longrightarrow> p \<notin> set archive \<longrightarrow> stored e' p = stored e1 p" using assms(4) unfolding history_of_def by blast
  have "a \<notin> set archive" using ih(2) assms(1,3) by auto
  moreover from this have "text_at e' a = c" using ih(4) assms(1,3) by (simp add: text_at_def)
  ultimately show ?thesis unfolding history_of_def using ih assms by (intro exI[of _ "a # archive"]) (auto split: if_splits)
qed

lemma log_history_accepted:
  assumes "working f e" "stored e (le_path e (Filename f)) = Some c" "run_writes file_LogWrite ms f e = (rs, f', e')"
  shows "(\<forall>r\<in>set rs. r = None) \<and>
    history_of e e' (le_path e (Filename f)) (c @ concat (map line_of (filter (file_out.accepted f) ms)))"
  using assms
proof (induction ms arbitrary: f e c rs)
  case Nil
  then show ?case by (auto simp: text_at_def history_of_def intro!: exI[of _ "[]"])
next
  case (Cons x ms)
  obtain t m l where x: "x = (t, m, l)" by (cases x)
  let ?e = "e\<lparr>clock := t\<rparr>" and ?cur = "le_path e (Filename f)" and ?rest = "concat (map line_of (filter (file_out.accepted f) ms))"
  have ready: "working f ?e" "stored ?e (le_path ?e (Filename f)) = Some c"
    using Cons.prems(1,2) by (simp_all add: working_clock stored_clock)
  obtain r f1 e1 where one: "file_LogWrite t m l f ?e = (r, f1, e1)" by (metis prod_cases3)
  obtain rs' where rest: "run_writes file_LogWrite ms f1 e1 = (rs', f', e')" "rs = r # rs'"
    using Cons.prems(3) by (auto simp: x one split: prod.splits)
  have acc: "file_out.accepted f1 = file_out.accepted f" using file_out.accepted_stable[OF one] .
  show ?case
  proof (cases "file_out.accepted f x")
    case False
    then have "r = None" "f1 = f" "e1 = ?e" using one file_out.write_skips[of f t m l ?e] by (auto simp: x)
    with Cons.IH[OF ready] rest False show ?thesis by (simp add: stored_clock history_of_def)
  next
    case True
    then have step: "r = None" "working f1 e1" "le_path e1 (Filename f1) = ?cur"
      "stored e1 = (stored e)(?cur \<mapsto> c @ line_of x) \<or>
       (\<exists>a. a \<noteq> ?cur \<and> stored e a = None \<and> stored e1 = (stored e)(a \<mapsto> c, ?cur \<mapsto> line_of x))"
      using LogWrite_working[OF ready, of t m l, unfolded one le_path_clock stored_clock] by (auto simp: x same_conf_def)
    have ih: "(\<forall>r\<in>set rs'. r = None) \<and> history_of e1 e' ?cur (d @ ?rest)" if "stored e1 ?cur = Some d" for d
      using Cons.IH[OF step(2) _ rest(1), of d] that step(3) acc by simp
    from step(4) show ?thesis
    proof (elim disjE exE conjE)
      assume s: "stored e1 = (stored e)(?cur \<mapsto> c @ line_of x)"
      from ih[of "c @ line_of x"] history_written[OF s] s show ?thesis using True step(1) rest(2) by simp
    next
      fix a assume a: "a \<noteq> ?cur" "stored e a = None" and s: "stored e1 = (stored e)(a \<mapsto> c, ?cur \<mapsto> line_of x)"
      from ih[of "line_of x"] history_rotated[OF a s] s show ?thesis using True step(1) rest(2) by simp
    qed
  qed
qed


section \<open>The counters\<close>

text \<open>The size counter is the size of the file; the line counter never exceeds its number of lines.\<close>

definition counted :: "fileLogger \<Rightarrow> log_env \<Rightarrow> bool" where
  "counted f e = (case stored e (le_path e (Filename f)) of None \<Rightarrow> False
     | Some c \<Rightarrow> maxSizeCurSize f = int (length c) \<and> maxLinesCurLines f \<le> int (count_list c (CHR 0x0A)))"

lemma newFile_counted: "newFile f e = (None, f', e') \<Longrightarrow> counted f' e'"
proof -
  assume nf: "newFile f e = (None, f', e')"
  then obtain fw e1 where c: "createLogFile f e = (Inr fw, e1)" by (auto simp: newFile_def split: prod.splits sum.splits)
  then have "\<exists>c. files (le_world e1) (le_path e1 (Filename f)) = Some c"
    by (auto simp: createLogFile_def open_append_def Let_def touch_def le_path_def world_simps
        split: option.splits prod.splits if_splits)
  then obtain c where "files (le_world e1) (le_path e1 (Filename f)) = Some c" by blast
  with nf \<open>createLogFile f e = (Inr fw, e1)\<close> show ?thesis
    by (auto simp: newFile_def Let_def counted_def stored_def lines_def count_lines_eq os_open_read_def le_path_def
        split: if_splits sum.splits option.splits)
qed

lemma LogWrite_counted:
  assumes "working f e" "counted f e" "file_LogWrite t m l f e = (r, f', e')"
  shows "working f' e' \<and> counted f' e'"
proof (cases "file_out.accepted f (t, m, l)")
  case True
  obtain c where c: "stored e (le_path e (Filename f)) = Some c" "maxSizeCurSize f = int (length c)"
    "maxLinesCurLines f \<le> int (count_list c (CHR 0x0A))" using assms(2) by (auto simp: counted_def split: option.splits)
  have "1 \<le> count_list (line_of (t, m, l)) (CHR 0x0A)"
    using True by (cases m) (auto simp: file_out.accepted_def newline_def)
  with LogWrite_working[OF assms(1) c(1) True] c(2,3) assms(3) show ?thesis
    by (auto simp: counted_def same_conf_def)
next
  case False
  with assms show ?thesis using file_out.write_skips by fastforce
qed

text \<open>
  From the moment a log file is opened and in working order, the counters that decide about rotation stay
  right through any sequence of messages: the size counter is the size of the current file, and
  the line counter is at most the number of its lines.
\<close>

theorem counters_right:
  assumes "newFile f0 e0 = (None, f, e)" "working f e" "run_writes file_LogWrite ms f e = (rs, f', e')"
  shows "counted f' e'"
proof -
  have "working f e \<Longrightarrow> counted f e \<Longrightarrow> run_writes file_LogWrite ms f e = (rs, f', e') \<Longrightarrow> counted f' e'" for f e rs
  proof (induction ms arbitrary: f e rs)
    case (Cons x ms)
    obtain t m l r f1 e1 rs' where x: "x = (t, m, l)" "file_LogWrite t m l f (e\<lparr>clock := t\<rparr>) = (r, f1, e1)"
      "run_writes file_LogWrite ms f1 e1 = (rs', f', e')"
      using Cons.prems(3) by (cases x) (auto split: prod.splits)
    have "working f (e\<lparr>clock := t\<rparr>)" "counted f (e\<lparr>clock := t\<rparr>)"
      using Cons.prems(1,2) by (simp_all add: working_clock counted_def stored_clock)
    from LogWrite_counted[OF this x(2)] Cons.IH[OF _ _ x(3)] show ?case by blast
  qed simp
  then show ?thesis using newFile_counted[OF assms(1)] assms(2,3) by blast
qed

section \<open>Retention\<close>

text \<open>
  Retention takes the log itself: when the clean-up finds the current log file expired (with
  \<^verbatim>\<open>maxdays\<close> 0, the value a configuration without it gets, any file last written before now), it
  removes it, and every later message that needs no rotation is written successfully and stored nowhere.
\<close>

theorem expired_log_swallows_messages:
  assumes "fileWriter f = OpenFile (Filename f)" "removed f e (le_path e (Filename f))" "\<not> disk_full (le_world e)"
    "deleteOldLog f e = (f', e')" "\<not> (Append f \<and> needCreateFresh f (int (length (s @ newline))) (t_Day t))" "level_num l \<le> f_LogLevel f"
  shows "stored e' (le_path e (Filename f)) = None \<and>
    (\<exists>f''. file_LogWrite t (LogText s) l f' e' = (None, f'', e'))"
proof -
  have f': "f' = f\<lparr>fileWriter := Unlinked\<rparr>" "e' = e\<lparr>le_world := (le_world e)\<lparr>files := \<lambda>p. if removed f e p then None else files (le_world e) p\<rparr>\<rparr>"
    using assms(1,2,4) by (simp_all add: deleteOldLog_def)
  have "\<not> (Append f' \<and> needCreateFresh f' (int (length (s @ newline))) (t_Day t))"
    using assms(5) by (simp add: f'(1) needCreateFresh_def)
  then show ?thesis
    using assms(2,3,6) by (auto simp: file_LogWrite_def f' Let_def write_to_def stored_def)
qed

section \<open>Examples\<close>

definition sample_log :: fileLogger where
  "sample_log = fileLogger_registered\<lparr>fileWriter := OpenFile ''/var/a.log'', Filename := ''/var/a.log'', MaxLines := 2, MaxSize := 0,
     Daily := False, MaxDays := -1, fileNameOnly := ''/var/a'', suffix := ''.log'', maxSizeCurSize := 4, maxLinesCurLines := 1,
     dailyOpenDate := 1\<rparr>"

definition sample_env :: log_env where
  "sample_env = \<lparr>le_world = blank_world\<lparr>files := [''/var/a.log'' \<mapsto> ''old'' @ newline], dirs := (\<lambda>d. d = ''/var'')\<rparr>,
     clock = zero_time, mtime = (\<lambda>_. 0), stdout = [], dialable = (\<lambda>_ _. False), peer_ok = (\<lambda>_. True), received = []\<rparr>"

definition sample_messages :: "(go_time \<times> log_msg \<times> level) list" where
  "sample_messages = [(zero_time, LogText ''one'', LevelError), (zero_time, LogText ''noise'', LevelTrace), (zero_time, LogText ''two'', LevelDebug)]"

lemma sample_dir: "Split_path ''/var/a.log'' = (''/var/'', ''a.log'')" "Clean ''/var/'' = ''/var''" "ParseInt 8 ''0777'' = Some 511"
  by code_simp+

lemma sample_working: "working sample_log sample_env"
  by (simp add: working_def sample_log_def sample_env_def fileLogger_registered_def fileLogger_zero_def blank_world_def sample_dir
      dir_key_def abs_path_def HasPrefix_def)

lemma sample_stored: "stored sample_env (le_path sample_env (Filename sample_log)) = Some (''old'' @ newline)"
  by (simp add: stored_def le_path_def abs_path_def sample_env_def sample_log_def HasPrefix_def)


lemma sample_opened: "newFile sample_log sample_env = (None, sample_log\<lparr>dailyOpenTime := zero_time\<rparr>, sample_env)"
proof -
  have "count_lines (''old'' @ newline) 0 = 1" by (simp add: count_lines_eq newline_def)
  then show ?thesis
    by (simp add: newFile_def createLogFile_def sample_log_def sample_env_def fileLogger_registered_def fileLogger_zero_def blank_world_def
      sample_dir isExist_def dir_key_def abs_path_def HasPrefix_def open_append_def Let_def le_path_def lines_def os_open_read_def newline_def zero_time_def)
qed

theorem counters_right_witness:
  "counted (fst (snd (run_writes file_LogWrite sample_messages sample_log sample_env)))
           (snd (snd (run_writes file_LogWrite sample_messages sample_log sample_env)))"
proof -
  have same: "sample_log\<lparr>dailyOpenTime := zero_time\<rparr> = sample_log"
    by (simp add: sample_log_def fileLogger_registered_def fileLogger_zero_def)
  show ?thesis
    by (rule counters_right[OF sample_opened[unfolded same] sample_working, of _ "fst (run_writes file_LogWrite sample_messages sample_log sample_env)"]) simp
qed

definition zero_days :: fileLogger where
  "zero_days = sample_log\<lparr>MaxDays := 0\<rparr>"

definition later_env :: log_env where
  "later_env = sample_env\<lparr>clock := zero_time\<lparr>UnixNano := 5\<rparr>\<rparr>"

lemma zero_days_removed: "removed zero_days later_env (le_path later_env (Filename zero_days))"
proof -
  have "Dir ''/var/a.log'' = ''/var''" "Base ''/var/a.log'' = ''a.log''" "Base ''/var/a'' = ''a''" "Clean ''/var'' = ''/var''" by code_simp+
  then show ?thesis
    by (simp add: removed_def expired_def zero_days_def later_env_def sample_log_def sample_env_def blank_world_def le_path_def
        abs_path_def HasPrefix_def HasSuffix_def dir_key_def as_int64_def)
qed

theorem expired_log_swallows_messages_witness:
  "stored (snd (deleteOldLog zero_days later_env)) ''/var/a.log'' = None \<and>
   (\<exists>f''. file_LogWrite zero_time (LogText ''lost'') LevelError (fst (deleteOldLog zero_days later_env)) (snd (deleteOldLog zero_days later_env)) =
      (None, f'', snd (deleteOldLog zero_days later_env)))"
proof -
  have "le_path later_env (Filename zero_days) = ''/var/a.log''"
    by (simp add: le_path_def abs_path_def HasPrefix_def zero_days_def sample_log_def)
  then show ?thesis
    using expired_log_swallows_messages[OF _ zero_days_removed, of "fst (deleteOldLog zero_days later_env)" "snd (deleteOldLog zero_days later_env)"
        "''lost''" zero_time LevelError]
    by (simp add: zero_days_def sample_log_def later_env_def sample_env_def blank_world_def needCreateFresh_def fileLogger_registered_def zero_time_def)
qed

end
