(* ===== verification/Log_Conn.thy ===== *)
theory Log_Conn
  imports Log_Base
begin

text \<open>
  The network output of package \<^verbatim>\<open>util/logger\<close> (\<^verbatim>\<open>conn.go\<close>): it sends each message as one line of
  JSON to the first address of a list that accepts a connection, and connects again after an
  error.  Which addresses accept a connection and take data is part of the environment.
\<close>

text \<open>The connection: the address it was made to, and whether it is still open.\<close>

record connLogger =
  innerWriter :: "(string \<times> bool) option"
  ReconnectOnMsg :: bool
  Reconnect :: bool
  n_Net :: string
  n_Addr :: string
  n_Level :: string
  n_LogLevel :: int
  illNetFlag :: bool

definition connLogger_zero :: connLogger where
  "connLogger_zero = \<lparr>innerWriter = None, ReconnectOnMsg = False, Reconnect = False, n_Net = [], n_Addr = [], n_Level = [],
     n_LogLevel = 0, illNetFlag = False\<rparr>"

definition connLogger_registered :: connLogger where
  "connLogger_registered = connLogger_zero\<lparr>n_LogLevel := level_num LevelTrace\<rparr>"

definition connLogger_json :: "connLogger \<Rightarrow> json" where
  "connLogger_json c = JObj [(''reconnectOnMsg'', JBool (ReconnectOnMsg c)), (''reconnect'', JBool (Reconnect c)), (''net'', JStr (n_Net c)),
     (''addr'', JStr (n_Addr c)), (''level'', JStr (n_Level c)), (''LogLevel'', JNum (Itoa (n_LogLevel c)))]"

definition connLogger_fields :: "connLogger field list" where
  "connLogger_fields =
     [(''reconnectOnMsg'', bool_field (\<lambda>b. ReconnectOnMsg_update (\<lambda>_. b))),
      (''reconnect'', bool_field (\<lambda>b. Reconnect_update (\<lambda>_. b))),
      (''net'', str_field (\<lambda>s. n_Net_update (\<lambda>_. s))),
      (''addr'', str_field (\<lambda>s. n_Addr_update (\<lambda>_. s))),
      (''level'', str_field (\<lambda>s. n_Level_update (\<lambda>_. s))),
      (''LogLevel'', int_field (\<lambda>i. n_LogLevel_update (\<lambda>_. i)))]"

definition conn_Init :: "string \<Rightarrow> connLogger \<Rightarrow> log_env \<Rightarrow> log_error option \<times> connLogger \<times> log_env" where
  "conn_Init jsonConfig c e0 =
     (if jsonConfig = [] then (None, c, e0)
      else let e = print_out (''consoleWriter Init:'' @ jsonConfig @ newline) e0;
               (c1, ok) = unmarshal (dec_struct connLogger_fields) jsonConfig c
           in if \<not> ok then (Some JsonError, c1, e)
              else let c2 = (case map_of LevelMap (n_Level c1) of Some l \<Rightarrow> c1\<lparr>n_LogLevel := l\<rparr> | None \<Rightarrow> c1)
                   in (None, c2\<lparr>innerWriter := None\<rparr>, e))"

definition close_writer :: "connLogger \<Rightarrow> connLogger" where
  "close_writer c = c\<lparr>innerWriter := map_option (\<lambda>(addr, _). (addr, False)) (innerWriter c)\<rparr>"

definition conn_Destroy :: "connLogger \<Rightarrow> connLogger" where
  "conn_Destroy c = close_writer c"

fun dial_first :: "(string \<Rightarrow> bool) \<Rightarrow> string list \<Rightarrow> string option" where
  "dial_first ok [] = None"
| "dial_first ok (addr # rest) = (if ok addr then Some addr else dial_first ok rest)"

definition conn_connect :: "connLogger \<Rightarrow> log_env \<Rightarrow> log_error option \<times> connLogger" where
  "conn_connect c e =
     (case dial_first (dialable e (n_Net c)) (Split (n_Addr c) '';'') of
        Some addr \<Rightarrow> (None, c\<lparr>innerWriter := Some (addr, True)\<rparr>)
      | None \<Rightarrow> (Some NoService, c\<lparr>innerWriter := None\<rparr>))"

definition needToConnectOnMsg :: "connLogger \<Rightarrow> bool \<times> connLogger" where
  "needToConnectOnMsg c =
     (if Reconnect c then (True, c\<lparr>Reconnect := False\<rparr>)
      else if innerWriter c = None then (True, c)
      else if illNetFlag c then (True, c)
      else (ReconnectOnMsg c, c))"

definition loginfo_json :: "loginfo \<Rightarrow> json" where
  "loginfo_json i = JObj [(''Time'', JStr (li_Time i)), (''Level'', JStr (li_Level i)), (''Path'', JStr (li_Path i)),
     (''Name'', JStr (li_Name i)), (''Content'', JStr (li_Content i))]"

definition conn_line :: "loginfo \<Rightarrow> string" where
  "conn_line msg = json_print (loginfo_json msg) @ newline"

text \<open>\<^verbatim>\<open>println\<close>; a closed connection and a peer that takes no data give an error.\<close>

definition conn_println :: "connLogger \<Rightarrow> loginfo \<Rightarrow> log_env \<Rightarrow> log_error option \<times> log_env" where
  "conn_println c msg e =
     (case innerWriter c of
        Some (addr, True) \<Rightarrow>
          if peer_ok e addr then (None, e\<lparr>received := received e @ [(addr, conn_line msg)]\<rparr>) else (Some NotWritable, e)
      | _ \<Rightarrow> (Some NotWritable, e))"

definition conn_LogWrite :: "connLogger log_writer" where
  "conn_LogWrite when msgText l c e =
     (if level_num l > n_LogLevel c then (None, c, e)
      else case msgText of
             LogText _ \<Rightarrow> (None, c, e)
           | LogInfo msg \<Rightarrow>
               (let (need, c1) = needToConnectOnMsg c;
                    (err, c2) = (if need then (case conn_connect c1 e of
                                                 (Some err, c') \<Rightarrow> (Some err, c')
                                               | (None, c') \<Rightarrow> (None, c'\<lparr>illNetFlag := False\<rparr>))
                                 else (None, c1))
                in case err of
                     Some err' \<Rightarrow> (Some err', c2, e)
                   | None \<Rightarrow>
                       (let (err', c3, e3) =
                          (if \<not> illNetFlag c2 then
                             (case conn_println c2 msg e of
                                (Some err', e') \<Rightarrow> (Some err', c2\<lparr>illNetFlag := True\<rparr>, e')
                              | (None, e') \<Rightarrow> (None, c2, e'))
                           else (None, c2, e))
                        in (err', if ReconnectOnMsg c2 then close_writer c3 else c3, e3))))"

fun is_info :: "log_msg \<Rightarrow> bool" where
  "is_info (LogInfo _) = True"
| "is_info (LogText _) = False"

lemma close_writer_simps [simp]:
  "n_LogLevel (close_writer c) = n_LogLevel c" "n_Addr (close_writer c) = n_Addr c" "n_Net (close_writer c) = n_Net c"
  "illNetFlag (close_writer c) = illNetFlag c" "ReconnectOnMsg (close_writer c) = ReconnectOnMsg c"
  by (simp_all add: close_writer_def)

lemma conn_conf: "conn_LogWrite t m l c e = (r, c', e') \<Longrightarrow> n_LogLevel c' = n_LogLevel c \<and> n_Addr c' = n_Addr c \<and> n_Net c' = n_Net c"
  by (auto simp: conn_LogWrite_def needToConnectOnMsg_def conn_connect_def conn_println_def Let_def
      split: if_splits log_msg.splits option.splits prod.splits bool.splits)

interpretation conn_out: log_adapter n_LogLevel n_Level "\<lambda>_. is_info" conn_Init conn_LogWrite
proof (unfold_locales, goal_cases)
  case (2 s m t l e)
  then show ?case by (cases m) (simp_all add: conn_LogWrite_def)
next
  case (3 t m l s e r s' e')
  then show ?case using conn_conf by blast
next
  case (4 c s e s' e' n)
  then show ?case by (auto simp: conn_Init_def Let_def split: option.splits prod.splits if_splits)
qed (auto simp: conn_LogWrite_def conn_Init_def split: log_msg.splits if_splits)

section \<open>Delivery\<close>

text \<open>The address list is tried in order.\<close>

lemma dial_first_find: "dial_first ok addrs = find ok addrs"
  by (induction addrs) auto

text \<open>
  The network output delivers a message exactly when it reports success: a call for a message
  below the threshold either returns no error and one line with that message was received by the
  connected address, or returns an error and nothing was received; after such a failed send the
  output is marked so that the next message connects again.
\<close>

theorem conn_delivery:
  assumes "level_num l \<le> n_LogLevel c" "conn_LogWrite t (LogInfo i) l c e = (r, c', e')"
  shows "(r = None \<and> (\<exists>addr. innerWriter c' \<noteq> None \<and> fst (the (innerWriter c')) = addr \<and> received e' = received e @ [(addr, conn_line i)])) \<or>
         (r \<noteq> None \<and> received e' = received e \<and> (illNetFlag c' \<or> innerWriter c' = None) \<and> fst (needToConnectOnMsg c'))"
  using assms
  by (auto simp: conn_LogWrite_def needToConnectOnMsg_def conn_connect_def conn_println_def close_writer_def Let_def
      split: if_splits log_msg.splits option.splits prod.splits bool.splits)

definition sample_info :: loginfo where
  "sample_info = \<lparr>li_Time = ''2024-01-01'', li_Level = ''INFO'', li_Path = ''a.go:1'', li_Name = ''[NONE]'', li_Content = ''hello''\<rparr>"

definition sample_conn :: connLogger where
  "sample_conn = connLogger_registered\<lparr>n_Net := ''tcp'', n_Addr := ''h1:1;h2:2''\<rparr>"

definition net_env :: log_env where
  "net_env = \<lparr>le_world = blank_world, clock = \<lparr>t_Day = 1, Format = (\<lambda>_. []), UnixNano = 0\<rparr>, mtime = (\<lambda>_. 0), stdout = [],
     dialable = (\<lambda>n a. a = ''h2:2''), peer_ok = (\<lambda>_. True), received = []\<rparr>"

lemma sample_addrs: "Split ''h1:1;h2:2'' '';'' = [''h1:1'', ''h2:2'']"
  by code_simp

lemma sample_conn_write:
  "conn_LogWrite (clock net_env) (LogInfo sample_info) LevelTrace sample_conn net_env =
     (None, sample_conn\<lparr>innerWriter := Some (''h2:2'', True)\<rparr>, net_env\<lparr>received := [(''h2:2'', conn_line sample_info)]\<rparr>)"
  by (simp add: conn_LogWrite_def needToConnectOnMsg_def conn_connect_def conn_println_def sample_conn_def connLogger_registered_def
      connLogger_zero_def net_env_def sample_addrs)

theorem conn_delivery_witness:
  "\<exists>addr. received (net_env\<lparr>received := [(''h2:2'', conn_line sample_info)]\<rparr>) = received net_env @ [(addr, conn_line sample_info)]"
  using conn_delivery[OF _ sample_conn_write] by (simp add: sample_conn_def connLogger_registered_def net_env_def)

section \<open>A stream of messages\<close>

text \<open>Some address accepts connections, every peer takes data, and a closed connection is known to be closed.\<close>

definition reachable :: "connLogger \<Rightarrow> log_env \<Rightarrow> bool" where
  "reachable c e = (dial_first (dialable e (n_Net c)) (Split (n_Addr c) '';'') \<noteq> None \<and> peer_ok e = (\<lambda>_. True) \<and>
     (\<forall>a. innerWriter c = Some (a, False) \<longrightarrow> Reconnect c \<or> illNetFlag c \<or> ReconnectOnMsg c))"

lemma conn_LogWrite_reachable:
  assumes "reachable c e" "conn_out.accepted c (t, LogInfo i, l)" "conn_LogWrite t (LogInfo i) l c e = (r, c', e')"
  shows "r = None \<and> reachable c' e' \<and> map snd (received e') = map snd (received e) @ [conn_line i]"
proof -
  obtain addr where "dial_first (dialable e (n_Net c)) (Split (n_Addr c) '';'') = Some addr" using assms(1) by (auto simp: reachable_def)
  with assms show ?thesis
    by (auto simp: conn_LogWrite_def needToConnectOnMsg_def conn_connect_def conn_println_def close_writer_def Let_def reachable_def
        conn_out.accepted_def split: if_splits option.splits prod.splits bool.splits)
qed

fun info_line :: "go_time \<times> log_msg \<times> level \<Rightarrow> string" where
  "info_line (t, LogInfo i, l) = conn_line i"
| "info_line (t, LogText s, l) = []"


lemma sample_reachable: "reachable sample_conn net_env"
  by (simp add: reachable_def sample_conn_def connLogger_registered_def connLogger_zero_def net_env_def sample_addrs)


end
