(* ===== verification/Logger.thy ===== *)
theory Logger
  imports Log_File Log_Conn
begin

text \<open>
  Package \<^verbatim>\<open>util/logger\<close> itself (\<^verbatim>\<open>log.go\<close>): the registry of outputs, a \<^verbatim>\<open>LocalLogger\<close> with its list of
  outputs, the functions that log a message at a level, and the configuration.  The registry
  holds one object per output, and every logger that uses an output points to that object; here
  the pointer is the name under which the object is registered.
\<close>

section \<open>The registry\<close>

datatype adapter = AConsole consoleLogger | AFile fileLogger | AConn connLogger

definition AdapterConsole :: string where
  "AdapterConsole = ''console''"

definition AdapterFile :: string where
  "AdapterFile = ''file''"

definition AdapterConn :: string where
  "AdapterConn = ''conn''"

text \<open>The interface \<^verbatim>\<open>Logger\<close>, dispatched on the object.\<close>

fun Init :: "string \<Rightarrow> adapter \<Rightarrow> log_env \<Rightarrow> log_error option \<times> adapter \<times> log_env" where
  "Init config (AConsole c) e = (let (r, c', e') = console_Init config c e in (r, AConsole c', e'))"
| "Init config (AFile f) e = (let (r, f', e') = file_Init config f e in (r, AFile f', e'))"
| "Init config (AConn c) e = (let (r, c', e') = conn_Init config c e in (r, AConn c', e'))"

fun LogWrite :: "adapter log_writer" where
  "LogWrite when msg l (AConsole c) e = (let (r, c', e') = console_LogWrite when msg l c e in (r, AConsole c', e'))"
| "LogWrite when msg l (AFile f) e = (let (r, f', e') = file_LogWrite when msg l f e in (r, AFile f', e'))"
| "LogWrite when msg l (AConn c) e = (let (r, c', e') = conn_LogWrite when msg l c e in (r, AConn c', e'))"

fun Destroy :: "adapter \<Rightarrow> adapter" where
  "Destroy (AConsole c) = AConsole c"
| "Destroy (AFile f) = AFile (file_Destroy f)"
| "Destroy (AConn c) = AConn (conn_Destroy c)"

record logsys =
  adapters :: "(string \<times> adapter) list"
  ls_env :: log_env

text \<open>\<^verbatim>\<open>Register\<close>; a missing object and a second registration panic.\<close>

definition Register :: "string \<Rightarrow> adapter option \<Rightarrow> (string \<times> adapter) list \<Rightarrow> (string \<times> adapter) list option" where
  "Register name lg reg =
     (case lg of
        None \<Rightarrow> None
      | Some a \<Rightarrow> if map_of reg name \<noteq> None then None else Some (AList.update name a reg))"

text \<open>The three \<^verbatim>\<open>init\<close> functions, in the order of their files.\<close>

definition package_init :: "(string \<times> adapter) list option" where
  "package_init = do {
     r1 \<leftarrow> Register AdapterConn (Some (AConn connLogger_registered)) [];
     r2 \<leftarrow> Register AdapterConsole (Some (AConsole consoleLogger_registered)) r1;
     Register AdapterFile (Some (AFile fileLogger_registered)) r2
   }"

section \<open>Loggers\<close>

record nameLogger =
  nl_name :: string
  nl_config :: string

record LocalLogger =
  l_init :: bool
  outputs :: "nameLogger list"
  appName :: string
  callDepth :: int
  timeFormat :: string
  usePath :: string

definition LocalLogger_zero :: LocalLogger where
  "LocalLogger_zero = \<lparr>l_init = False, outputs = [], appName = [], callDepth = 0, timeFormat = [], usePath = []\<rparr>"

definition SetCallDepth :: "int \<Rightarrow> LocalLogger \<Rightarrow> LocalLogger" where
  "SetCallDepth depth l = l\<lparr>callDepth := depth\<rparr>"

definition defaultLogger :: LocalLogger where
  "defaultLogger = SetCallDepth 3 LocalLogger_zero"

definition SetLogPathTrim :: "string \<Rightarrow> LocalLogger \<Rightarrow> LocalLogger" where
  "SetLogPathTrim trimPath l = l\<lparr>usePath := trimPath\<rparr>"

definition destroy_output :: "string \<Rightarrow> logsys \<Rightarrow> logsys" where
  "destroy_output name s =
     (case map_of (adapters s) name of
        Some a \<Rightarrow> s\<lparr>adapters := AList.update name (Destroy a) (adapters s)\<rparr>
      | None \<Rightarrow> s)"

definition init_output :: "string \<Rightarrow> string \<Rightarrow> logsys \<Rightarrow> log_error option \<times> logsys" where
  "init_output name config s =
     (case map_of (adapters s) name of
        None \<Rightarrow> (Some UnknownAdapter, s)
      | Some a \<Rightarrow> (let (r, a', e') = Init config a (ls_env s)
                  in (r, s\<lparr>adapters := AList.update name a' (adapters s), ls_env := e'\<rparr>)))"

fun output_index :: "string \<Rightarrow> nameLogger list \<Rightarrow> nat option" where
  "output_index name [] = None"
| "output_index name (o1 # os) = (if nl_name o1 = name then Some 0 else map_option Suc (output_index name os))"

text \<open>\<^verbatim>\<open>(*LocalLogger).SetLogger\<close>: a second configuration closes the output before it opens it again.\<close>

definition LocalLogger_SetLogger :: "string \<Rightarrow> string list \<Rightarrow> LocalLogger \<Rightarrow> logsys \<Rightarrow> log_error option \<times> LocalLogger \<times> logsys" where
  "LocalLogger_SetLogger adapterName configs l0 s =
     (let l = (if \<not> l_init l0 then l0\<lparr>outputs := [], l_init := True\<rparr> else l0);
          config = hd (configs @ [''{}'']);
          new = \<lparr>nl_name = adapterName, nl_config = config\<rparr>
      in case output_index adapterName (outputs l) of
           None \<Rightarrow>
             (case init_output adapterName config s of
                (Some err, s1) \<Rightarrow> (Some err, l, s1)
              | (None, s1) \<Rightarrow> (None, l\<lparr>outputs := outputs l @ [new]\<rparr>, s1))
         | Some i \<Rightarrow>
             if nl_config (outputs l ! i) = config then (Some SameConfig, l, s)
             else (case init_output adapterName config (destroy_output adapterName s) of
                     (Some err, s1) \<Rightarrow> (Some err, l, s1)
                   | (None, s1) \<Rightarrow> (None, l\<lparr>outputs := (outputs l)[i := new]\<rparr>, s1)))"

definition NewLogger :: "int list \<Rightarrow> string \<Rightarrow> logsys \<Rightarrow> LocalLogger \<times> logsys" where
  "NewLogger depth APPSN s =
     (let dep = hd (depth @ [2]);
          appSn = (if APPSN = [] then ''NONE'' else APPSN);
          (_, l, s1) = LocalLogger_SetLogger AdapterConsole [] (LocalLogger_zero\<lparr>appName := ''['' @ appSn @ '']'', callDepth := dep\<rparr>) s
      in (l\<lparr>timeFormat := ''2006-01-02 15:04:05''\<rparr>, s1))"

definition DelLogger :: "string \<Rightarrow> LocalLogger \<Rightarrow> logsys \<Rightarrow> log_error option \<times> LocalLogger \<times> logsys" where
  "DelLogger adapterName l s =
     (let kept = filter (\<lambda>lg. nl_name lg \<noteq> adapterName) (outputs l);
          s1 = fold (\<lambda>lg. destroy_output (nl_name lg)) (filter (\<lambda>lg. nl_name lg = adapterName) (outputs l)) s
      in if length kept = length (outputs l) then (Some UnknownAdapter, l, s1) else (None, l\<lparr>outputs := kept\<rparr>, s1))"

text \<open>\<^verbatim>\<open>Close\<close> and \<^verbatim>\<open>Reset\<close> have the same body; the logger stays initialised.\<close>

definition LocalLogger_Close :: "LocalLogger \<Rightarrow> logsys \<Rightarrow> LocalLogger \<times> logsys" where
  "LocalLogger_Close l s = (l\<lparr>outputs := []\<rparr>, fold (\<lambda>lg. destroy_output (nl_name lg)) (outputs l) s)"

definition Reset :: "LocalLogger \<Rightarrow> logsys \<Rightarrow> LocalLogger \<times> logsys" where
  "Reset l s = (l\<lparr>outputs := []\<rparr>, fold (\<lambda>lg. destroy_output (nl_name lg)) (outputs l) s)"

section \<open>Messages\<close>

definition stringTrim :: "string \<Rightarrow> string \<Rightarrow> string" where
  "stringTrim s cutset = (case SplitN2 s cutset of [a] \<Rightarrow> a | a # b # _ \<Rightarrow> b | [] \<Rightarrow> [])"

definition write_output :: "string \<Rightarrow> go_time \<Rightarrow> log_msg \<Rightarrow> level \<Rightarrow> logsys \<Rightarrow> logsys" where
  "write_output name when msg l s =
     (case map_of (adapters s) name of
        Some a \<Rightarrow> (let (_, a', e') = LogWrite when msg l a (ls_env s)
                  in s\<lparr>adapters := AList.update name a' (adapters s), ls_env := e'\<rparr>)
      | None \<Rightarrow> s)"

definition text_line :: "string \<Rightarrow> go_time \<Rightarrow> loginfo \<Rightarrow> string" where
  "text_line fmt when msg = Format when fmt @ '' ['' @ li_Level msg @ ''] '' @ ''['' @ li_Path msg @ ''] '' @ li_Content msg"

fun writeToLoggers :: "string \<Rightarrow> go_time \<Rightarrow> loginfo \<Rightarrow> level \<Rightarrow> nameLogger list \<Rightarrow> logsys \<Rightarrow> logsys" where
  "writeToLoggers fmt when msg l [] s = s"
| "writeToLoggers fmt when msg l (lg # rest) s =
     writeToLoggers fmt when msg l rest
       (write_output (nl_name lg) when
          (if nl_name lg = AdapterConn then LogInfo msg else LogText (text_line fmt when msg)) l s)"

text \<open>
  \<^verbatim>\<open>fmt.Sprintf\<close> for verbs without flags: an argument is a string, an int, or a value with a
  \<^verbatim>\<open>String\<close> or \<^verbatim>\<open>Error\<close> method, given by its type and text.  A
  verb that does not fit, a missing and a superfluous argument are marked as Go does.
\<close>

datatype fmt_arg = AStr string | AInt int | AVal string string

fun arg_text :: "fmt_arg \<Rightarrow> string" where
  "arg_text (AStr s) = s"
| "arg_text (AInt i) = Itoa i"
| "arg_text (AVal ty s) = s"

fun arg_type :: "fmt_arg \<Rightarrow> string" where
  "arg_type (AStr s) = ''string''"
| "arg_type (AInt i) = ''int''"
| "arg_type (AVal ty s) = ty"

definition fmt_verb :: "char \<Rightarrow> fmt_arg \<Rightarrow> string" where
  "fmt_verb v a =
     (if v = CHR ''v'' \<or> (v = CHR ''s'' \<and> arg_type a \<noteq> ''int'') \<or> (v = CHR ''d'' \<and> arg_type a = ''int'') then arg_text a
      else ''%!'' @ [v] @ ''('' @ arg_type a @ ''='' @ arg_text a @ '')'')"

fun Sprintf :: "string \<Rightarrow> fmt_arg list \<Rightarrow> string" where
  "Sprintf [] vs = (if vs = [] then [] else ''%!(EXTRA '' @ Join (map (\<lambda>a. arg_type a @ ''='' @ arg_text a) vs) '', '' @ '')'')"
| "Sprintf [c] vs = (if c = CHR ''%'' then ''%!(NOVERB)'' @ Sprintf [] vs else c # Sprintf [] vs)"
| "Sprintf (c # v # cs) vs =
     (if c \<noteq> CHR ''%'' then c # Sprintf (v # cs) vs
      else if v = CHR ''%'' then CHR ''%'' # Sprintf cs vs
      else case vs of
             [] \<Rightarrow> ''%!'' @ [v] @ ''(MISSING)'' @ Sprintf cs []
           | a # vs' \<Rightarrow> fmt_verb v a @ Sprintf cs vs')"

definition formatLog :: "fmt_arg \<Rightarrow> fmt_arg list \<Rightarrow> string" where
  "formatLog f v =
     (case f of
        AStr msg \<Rightarrow>
          if v = [] then msg
          else Sprintf (if Contains msg ''%'' \<and> \<not> Contains msg ''%%'' then msg else msg @ Repeat '' %v'' (length v)) v
      | _ \<Rightarrow> if v = [] then arg_text f else Sprintf (arg_text f @ Repeat '' %v'' (length v)) v)"

type_synonym caller = "int \<Rightarrow> (string \<times> int) option"

text \<open>\<^verbatim>\<open>runtime.Caller\<close> is a parameter: the file and line of the caller at a depth.\<close>

definition writeMsg :: "caller \<Rightarrow> level \<Rightarrow> string \<Rightarrow> fmt_arg list \<Rightarrow> LocalLogger \<Rightarrow> logsys \<Rightarrow> LocalLogger \<times> logsys" where
  "writeMsg caller logLevel msg v l0 s0 =
     (let (l, s) = (if \<not> l_init l0 then snd (LocalLogger_SetLogger AdapterConsole [] l0 s0) else (l0, s0));
          content = (if v \<noteq> [] then Sprintf msg v else msg);
          when = clock (ls_env s);
          strim = (if usePath l \<noteq> [] then usePath l else ''src/'');
          src = (case caller (callDepth l) of
                   None \<Rightarrow> []
                 | Some (path, lineno) \<Rightarrow> Replace (stringTrim path strim @ '':'' @ Itoa lineno) ''%2e'' ''.'' (-1));
          msgSt = \<lparr>li_Time = Format when (timeFormat l), li_Level = levelPrefix logLevel, li_Path = src,
                   li_Name = appName l, li_Content = content\<rparr>
      in (l, writeToLoggers (timeFormat l) when msgSt logLevel (outputs l) s))"

datatype log_end = Running | Exited int | Panicked string

definition LocalLogger_Emer :: "caller \<Rightarrow> string \<Rightarrow> fmt_arg list \<Rightarrow> LocalLogger \<Rightarrow> logsys \<Rightarrow> LocalLogger \<times> logsys" where
  "LocalLogger_Emer caller format v = writeMsg caller LevelEmergency format v"

definition LocalLogger_Alert :: "caller \<Rightarrow> string \<Rightarrow> fmt_arg list \<Rightarrow> LocalLogger \<Rightarrow> logsys \<Rightarrow> LocalLogger \<times> logsys" where
  "LocalLogger_Alert caller format v = writeMsg caller LevelAlert format v"

definition LocalLogger_Crit :: "caller \<Rightarrow> string \<Rightarrow> fmt_arg list \<Rightarrow> LocalLogger \<Rightarrow> logsys \<Rightarrow> LocalLogger \<times> logsys" where
  "LocalLogger_Crit caller format v = writeMsg caller LevelCritical format v"

definition LocalLogger_Error :: "caller \<Rightarrow> string \<Rightarrow> fmt_arg list \<Rightarrow> LocalLogger \<Rightarrow> logsys \<Rightarrow> LocalLogger \<times> logsys" where
  "LocalLogger_Error caller format v = writeMsg caller LevelError format v"

definition LocalLogger_Warn :: "caller \<Rightarrow> string \<Rightarrow> fmt_arg list \<Rightarrow> LocalLogger \<Rightarrow> logsys \<Rightarrow> LocalLogger \<times> logsys" where
  "LocalLogger_Warn caller format v = writeMsg caller LevelWarning format v"

definition LocalLogger_Info :: "caller \<Rightarrow> string \<Rightarrow> fmt_arg list \<Rightarrow> LocalLogger \<Rightarrow> logsys \<Rightarrow> LocalLogger \<times> logsys" where
  "LocalLogger_Info caller format v = writeMsg caller LevelInformational format v"

definition LocalLogger_Debug :: "caller \<Rightarrow> string \<Rightarrow> fmt_arg list \<Rightarrow> LocalLogger \<Rightarrow> logsys \<Rightarrow> LocalLogger \<times> logsys" where
  "LocalLogger_Debug caller format v = writeMsg caller LevelDebug format v"

definition LocalLogger_Trace :: "caller \<Rightarrow> string \<Rightarrow> fmt_arg list \<Rightarrow> LocalLogger \<Rightarrow> logsys \<Rightarrow> LocalLogger \<times> logsys" where
  "LocalLogger_Trace caller format v = writeMsg caller LevelTrace format v"

definition LocalLogger_Fatal :: "caller \<Rightarrow> string \<Rightarrow> fmt_arg list \<Rightarrow> LocalLogger \<Rightarrow> logsys \<Rightarrow> log_end \<times> LocalLogger \<times> logsys" where
  "LocalLogger_Fatal caller format args l s = (Exited 1, LocalLogger_Emer caller (''###Exec Panic:'' @ format) args l s)"

definition LocalLogger_Panic :: "caller \<Rightarrow> string \<Rightarrow> fmt_arg list \<Rightarrow> LocalLogger \<Rightarrow> logsys \<Rightarrow> log_end \<times> LocalLogger \<times> logsys" where
  "LocalLogger_Panic caller format args l s =
     (Panicked (Sprintf format args), LocalLogger_Emer caller (''###Exec Panic:'' @ format) args l s)"

text \<open>The functions of the package format their arguments first and log to the default logger.\<close>

definition log_at :: "(caller \<Rightarrow> string \<Rightarrow> fmt_arg list \<Rightarrow> LocalLogger \<Rightarrow> logsys \<Rightarrow> 'r) \<Rightarrow> caller \<Rightarrow> fmt_arg \<Rightarrow> fmt_arg list \<Rightarrow> LocalLogger \<Rightarrow> logsys \<Rightarrow> 'r" where
  "log_at meth caller f v dl s = meth caller (formatLog f v) [] dl s"

definition Emer :: "caller \<Rightarrow> fmt_arg \<Rightarrow> fmt_arg list \<Rightarrow> LocalLogger \<Rightarrow> logsys \<Rightarrow> LocalLogger \<times> logsys" where
  "Emer = log_at LocalLogger_Emer"

definition Alert :: "caller \<Rightarrow> fmt_arg \<Rightarrow> fmt_arg list \<Rightarrow> LocalLogger \<Rightarrow> logsys \<Rightarrow> LocalLogger \<times> logsys" where
  "Alert = log_at LocalLogger_Alert"

definition Crit :: "caller \<Rightarrow> fmt_arg \<Rightarrow> fmt_arg list \<Rightarrow> LocalLogger \<Rightarrow> logsys \<Rightarrow> LocalLogger \<times> logsys" where
  "Crit = log_at LocalLogger_Crit"

definition Error :: "caller \<Rightarrow> fmt_arg \<Rightarrow> fmt_arg list \<Rightarrow> LocalLogger \<Rightarrow> logsys \<Rightarrow> LocalLogger \<times> logsys" where
  "Error = log_at LocalLogger_Error"

definition Warn :: "caller \<Rightarrow> fmt_arg \<Rightarrow> fmt_arg list \<Rightarrow> LocalLogger \<Rightarrow> logsys \<Rightarrow> LocalLogger \<times> logsys" where
  "Warn = log_at LocalLogger_Warn"

definition Info :: "caller \<Rightarrow> fmt_arg \<Rightarrow> fmt_arg list \<Rightarrow> LocalLogger \<Rightarrow> logsys \<Rightarrow> LocalLogger \<times> logsys" where
  "Info = log_at LocalLogger_Info"

definition Debug :: "caller \<Rightarrow> fmt_arg \<Rightarrow> fmt_arg list \<Rightarrow> LocalLogger \<Rightarrow> logsys \<Rightarrow> LocalLogger \<times> logsys" where
  "Debug = log_at LocalLogger_Debug"

definition Trace :: "caller \<Rightarrow> fmt_arg \<Rightarrow> fmt_arg list \<Rightarrow> LocalLogger \<Rightarrow> logsys \<Rightarrow> LocalLogger \<times> logsys" where
  "Trace = log_at LocalLogger_Trace"

definition Fatal :: "caller \<Rightarrow> fmt_arg \<Rightarrow> fmt_arg list \<Rightarrow> LocalLogger \<Rightarrow> logsys \<Rightarrow> log_end \<times> LocalLogger \<times> logsys" where
  "Fatal = log_at LocalLogger_Fatal"

definition Painc :: "caller \<Rightarrow> fmt_arg \<Rightarrow> fmt_arg list \<Rightarrow> LocalLogger \<Rightarrow> logsys \<Rightarrow> log_end \<times> LocalLogger \<times> logsys" where
  "Painc = log_at LocalLogger_Panic"

section \<open>Configuration\<close>

record logConfig =
  TimeFormat :: string
  Console :: "consoleLogger option"
  File :: "fileLogger option"
  Conn :: "connLogger option"

definition logConfig_zero :: logConfig where
  "logConfig_zero = \<lparr>TimeFormat = [], Console = None, File = None, Conn = None\<rparr>"

text \<open>A pointer field: \<^verbatim>\<open>null\<close> clears it, anything else is decoded into the object, made if there is none.\<close>

definition ptr_field ::
  "(json \<Rightarrow> 'a \<Rightarrow> 'a \<times> bool) \<Rightarrow> 'a \<Rightarrow> ('r \<Rightarrow> 'a option) \<Rightarrow> ('a option \<Rightarrow> 'r \<Rightarrow> 'r) \<Rightarrow> json \<Rightarrow> 'r \<Rightarrow> 'r \<times> bool" where
  "ptr_field dec zero get upd j r =
     (if j = JNull then (upd None r, True)
      else let (x, ok) = dec j (case get r of None \<Rightarrow> zero | Some x \<Rightarrow> x) in (upd (Some x) r, ok))"

definition logConfig_fields :: "logConfig field list" where
  "logConfig_fields =
     [(''TimeFormat'', str_field (\<lambda>s. TimeFormat_update (\<lambda>_. s))),
      (''Console'', ptr_field (dec_struct consoleLogger_fields) consoleLogger_zero Console (\<lambda>x. Console_update (\<lambda>_. x))),
      (''File'', ptr_field (dec_struct fileLogger_fields) fileLogger_zero File (\<lambda>x. File_update (\<lambda>_. x))),
      (''Conn'', ptr_field (dec_struct connLogger_fields) connLogger_zero Conn (\<lambda>x. Conn_update (\<lambda>_. x)))]"

text \<open>The text is a configuration or the name of a file with one; \<^const>\<open>None\<close> where the process exits.\<close>

definition read_config :: "world \<Rightarrow> string \<Rightarrow> logConfig option" where
  "read_config w c =
     (let (conf, ok) = unmarshal (dec_struct logConfig_fields) c logConfig_zero in
      if ok then Some conf
      else case os_open_read w c of
             Inl err \<Rightarrow> None
           | Inr contents \<Rightarrow>
               (let (conf', ok') = unmarshal (dec_struct logConfig_fields) contents conf in if ok' then Some conf' else None))"

definition set_section :: "string \<Rightarrow> json option \<Rightarrow> LocalLogger \<times> logsys \<Rightarrow> LocalLogger \<times> logsys" where
  "set_section name sec ls =
     (case sec of None \<Rightarrow> ls | Some j \<Rightarrow> snd (LocalLogger_SetLogger name [json_print j] (fst ls) (snd ls)))"

definition apply_config :: "logConfig \<Rightarrow> LocalLogger \<Rightarrow> logsys \<Rightarrow> LocalLogger \<times> logsys" where
  "apply_config conf l s =
     (let l1 = (if TimeFormat conf \<noteq> [] then l\<lparr>timeFormat := TimeFormat conf\<rparr> else l)
      in set_section AdapterConn (map_option connLogger_json (Conn conf))
           (set_section AdapterFile (map_option fileLogger_json (File conf))
             (set_section AdapterConsole (map_option consoleLogger_json (Console conf)) (l1, s))))"

definition SetNewLogger :: "LocalLogger \<Rightarrow> string list \<Rightarrow> logsys \<Rightarrow> log_end \<times> LocalLogger \<times> logsys" where
  "SetNewLogger newLogger param s =
     (case param of
        [] \<Rightarrow> (Running, snd (LocalLogger_SetLogger AdapterConsole [] newLogger s))
      | c # _ \<Rightarrow>
          (case read_config (le_world (ls_env s)) c of
             None \<Rightarrow> (Exited 1, newLogger, s)
           | Some conf \<Rightarrow> (Running, apply_config conf newLogger s)))"

text \<open>\<^verbatim>\<open>SetLogger\<close> is the same code on the default logger.\<close>

definition SetLogger :: "string list \<Rightarrow> LocalLogger \<Rightarrow> logsys \<Rightarrow> log_end \<times> LocalLogger \<times> logsys" where
  "SetLogger param dl s = SetNewLogger dl param s"

section \<open>The contract of the registered outputs\<close>

fun adapter_threshold :: "adapter \<Rightarrow> int" where
  "adapter_threshold (AConsole c) = c_LogLevel c"
| "adapter_threshold (AFile f) = f_LogLevel f"
| "adapter_threshold (AConn c) = n_LogLevel c"

fun adapter_level :: "adapter \<Rightarrow> string" where
  "adapter_level (AConsole c) = c_Level c"
| "adapter_level (AFile f) = f_Level f"
| "adapter_level (AConn c) = n_Level c"

fun adapter_takes :: "adapter \<Rightarrow> log_msg \<Rightarrow> bool" where
  "adapter_takes (AConsole c) = is_text"
| "adapter_takes (AFile f) = is_text"
| "adapter_takes (AConn c) = is_info"

interpretation any_out: log_adapter adapter_threshold adapter_level adapter_takes Init LogWrite
proof (unfold_locales, goal_cases)
  case (1 s l t m e)
  then show ?case by (cases s) (simp_all add: console_out.write_above file_out.write_above conn_out.write_above)
next
  case (2 s m t l e)
  then show ?case by (cases s) (simp_all add: console_out.write_other file_out.write_other conn_out.write_other)
next
  case (3 t m l s e r s' e')
  then show ?case
    by (cases s) (auto split: prod.splits dest: console_out.write_threshold file_out.write_threshold conn_out.write_threshold)
next
  case (4 c s e s' e' n)
  then show ?case
    by (cases s) (auto split: prod.splits dest: console_out.init_threshold file_out.init_threshold conn_out.init_threshold)
next
  case (5 s e)
  show ?case
    by (cases s) (use console_out.init_empty file_out.init_empty conn_out.init_empty in \<open>auto simp: case_prod_unfold Let_def\<close>)
qed

lemma update_same: "map_of xs k = Some v \<Longrightarrow> AList.update k v xs = xs"
  by (induction xs) (auto split: if_splits)

lemma write_output_quiet:
  "\<forall>a. map_of (adapters s) name = Some a \<longrightarrow> adapter_threshold a < level_num l \<Longrightarrow> write_output name t m l s = s"
  by (auto simp: write_output_def any_out.write_above update_same split: option.splits)

lemma writeToLoggers_quiet:
  "\<forall>lg\<in>set outs. \<forall>a. map_of (adapters s) (nl_name lg) = Some a \<longrightarrow> adapter_threshold a < level_num l \<Longrightarrow>
   writeToLoggers fmt t m l outs s = s"
  by (induction outs) (auto simp: write_output_quiet)

text \<open>
  A message that is less urgent than the threshold of every output of a logger has no effect: no
  output, no file, no peer and no counter changes.
\<close>

theorem writeMsg_below_threshold:
  assumes "l_init lg" "\<forall>out\<in>set (outputs lg). \<forall>a. map_of (adapters s) (nl_name out) = Some a \<longrightarrow> adapter_threshold a < level_num lev"
  shows "writeMsg caller lev msg v lg s = (lg, s)"
  using assms writeToLoggers_quiet[of "outputs lg" s lev] by (simp add: writeMsg_def Let_def)

section \<open>The list of outputs\<close>

text \<open>Every output is listed once and is registered, and a logger with outputs is initialised.\<close>

definition wf_logger :: "LocalLogger \<Rightarrow> logsys \<Rightarrow> bool" where
  "wf_logger l s = (distinct (map nl_name (outputs l)) \<and> (\<forall>n\<in>set (map nl_name (outputs l)). map_of (adapters s) n \<noteq> None) \<and>
     (outputs l \<noteq> [] \<longrightarrow> l_init l))"

inductive logger_step :: "LocalLogger \<times> logsys \<Rightarrow> LocalLogger \<times> logsys \<Rightarrow> bool" where
  set: "LocalLogger_SetLogger name configs l s = (r, l', s') \<Longrightarrow> logger_step (l, s) (l', s')"
| del: "DelLogger name l s = (r, l', s') \<Longrightarrow> logger_step (l, s) (l', s')"
| close: "LocalLogger_Close l s = (l', s') \<Longrightarrow> logger_step (l, s) (l', s')"
| reset: "Reset l s = (l', s') \<Longrightarrow> logger_step (l, s) (l', s')"
| msg: "writeMsg caller lev m v l s = (l', s') \<Longrightarrow> logger_step (l, s) (l', s')"
| config: "SetNewLogger l param s = (r, l', s') \<Longrightarrow> logger_step (l, s) (l', s')"

definition names_kept :: "logsys \<Rightarrow> logsys \<Rightarrow> bool" where
  "names_kept s s' = (\<forall>n. map_of (adapters s) n \<noteq> None \<longrightarrow> map_of (adapters s') n \<noteq> None)"

lemma names_kept_trans: "names_kept s s1 \<Longrightarrow> names_kept s1 s2 \<Longrightarrow> names_kept s s2"
  by (simp add: names_kept_def)

lemma names_kept_destroy: "names_kept s (destroy_output n s)"
  by (auto simp: names_kept_def destroy_output_def map_of_update split: option.splits)

lemma names_kept_init: "init_output n c s = (r, s') \<Longrightarrow> names_kept s s'"
  by (auto simp: names_kept_def init_output_def map_of_update split: option.splits prod.splits)

lemma names_kept_write: "names_kept s (write_output n t m l s)"
  by (auto simp: names_kept_def write_output_def map_of_update split: option.splits prod.splits)

lemma names_kept_writeTo: "names_kept s (writeToLoggers fmt t m l outs s)"
proof (induction outs arbitrary: s)
  case (Cons lg outs)
  show ?case using names_kept_trans[OF names_kept_write Cons.IH] by simp
qed (simp add: names_kept_def)

lemma names_kept_destroy_all: "names_kept s (fold (\<lambda>lg. destroy_output (nl_name lg)) lgs s)"
proof (induction lgs arbitrary: s)
  case (Cons lg lgs)
  show ?case using names_kept_trans[OF names_kept_destroy Cons.IH] by simp
qed (simp add: names_kept_def)

lemma init_output_known: "init_output n c s = (None, s') \<Longrightarrow> map_of (adapters s') n \<noteq> None"
  by (auto simp: init_output_def map_of_update split: option.splits prod.splits)

lemma output_index_None: "output_index n outs = None \<longleftrightarrow> n \<notin> set (map nl_name outs)"
  by (induction outs) auto

lemma output_index_Some: "output_index n outs = Some i \<Longrightarrow> i < length outs \<and> nl_name (outs ! i) = n"
  by (induction outs arbitrary: i) (auto split: if_splits)

lemma wf_names_kept: "wf_logger l s \<Longrightarrow> names_kept s s' \<Longrightarrow> wf_logger l s'"
  by (auto simp: wf_logger_def names_kept_def)

lemma SetLogger_wf:
  assumes "wf_logger l s" "LocalLogger_SetLogger name configs l s = (r, l', s')"
  shows "wf_logger l' s'"
proof -
  define l1 where "l1 = (if \<not> l_init l then l\<lparr>outputs := [], l_init := True\<rparr> else l)"
  define config where "config = hd (configs @ [''{}''])"
  let ?new = "\<lparr>nl_name = name, nl_config = config\<rparr>"
  have eq: "(case output_index name (outputs l1) of
       None \<Rightarrow> (case init_output name config s of
                  (Some err, s1) \<Rightarrow> (Some err, l1, s1)
                | (None, s1) \<Rightarrow> (None, l1\<lparr>outputs := outputs l1 @ [?new]\<rparr>, s1))
     | Some i \<Rightarrow> if nl_config (outputs l1 ! i) = config then (Some SameConfig, l1, s)
                else (case init_output name config (destroy_output name s) of
                        (Some err, s1) \<Rightarrow> (Some err, l1, s1)
                      | (None, s1) \<Rightarrow> (None, l1\<lparr>outputs := (outputs l1)[i := ?new]\<rparr>, s1))) = (r, l', s')"
    using assms(2) unfolding LocalLogger_SetLogger_def Let_def l1_def[symmetric] config_def[symmetric] .
  have wf: "wf_logger l1 s" "l_init l1" using assms(1) by (auto simp: wf_logger_def l1_def)
  show ?thesis
  proof (cases "output_index name (outputs l1)")
    case None
    obtain r1 s1 where i: "init_output name config s = (r1, s1)" by (cases "init_output name config s")
    then have "wf_logger l1 s1" using wf(1) names_kept_init wf_names_kept by blast
    moreover have "name \<notin> set (map nl_name (outputs l1))" using None by (simp add: output_index_None)
    ultimately show ?thesis
      using None i eq wf(2) init_output_known[of name config s] by (cases r1) (auto simp: wf_logger_def)
  next
    case (Some i)
    obtain r1 s1 where d: "init_output name config (destroy_output name s) = (r1, s1)" by (cases "init_output name config (destroy_output name s)")
    have wf1: "wf_logger l1 s1" using wf_names_kept[OF wf_names_kept[OF wf(1) names_kept_destroy] names_kept_init[OF d]] .
    have same: "map nl_name ((outputs l1)[i := ?new]) = map nl_name (outputs l1)"
      using output_index_Some[OF Some] by (simp add: map_update list_update_same_conv)
    have "wf_logger (l1\<lparr>outputs := os\<rparr>) s1" if "map nl_name os = map nl_name (outputs l1)" for os
      using that wf1 wf(2) by (simp add: wf_logger_def flip: set_map)
    with same Some d eq wf(1) wf1 show ?thesis by (cases r1) (auto split: if_splits)
  qed
qed

abbreviation wf_pair :: "LocalLogger \<times> logsys \<Rightarrow> bool" where
  "wf_pair ls \<equiv> wf_logger (fst ls) (snd ls)"

lemma SetLogger_wf_pair: "wf_logger l s \<Longrightarrow> wf_pair (snd (LocalLogger_SetLogger name configs l s))"
  by (rule SetLogger_wf[of l s name configs "fst (LocalLogger_SetLogger name configs l s)"]) simp_all

lemma set_section_wf: "wf_pair ls \<Longrightarrow> wf_pair (set_section name sec ls)"
  by (cases sec) (simp_all add: set_section_def SetLogger_wf_pair)

lemma apply_config_wf:
  assumes "wf_logger l s"
  shows "wf_pair (apply_config conf l s)"
proof -
  have "wf_logger (l\<lparr>timeFormat := x\<rparr>) s" for x using assms by (simp add: wf_logger_def)
  then show ?thesis using assms by (simp add: apply_config_def Let_def set_section_wf)
qed

lemma SetNewLogger_wf: "wf_logger l s \<Longrightarrow> wf_pair (snd (SetNewLogger l param s))"
  by (auto simp: SetNewLogger_def SetLogger_wf_pair apply_config_wf split: list.splits option.splits)

lemma writeMsg_wf:
  assumes "wf_logger l s" "writeMsg caller lev m v l s = (l', s')"
  shows "wf_logger l' s'"
proof -
  define ls where "ls = (if \<not> l_init l then snd (LocalLogger_SetLogger AdapterConsole [] l s) else (l, s))"
  have "wf_logger (fst ls) (snd ls)" using assms(1) SetLogger_wf_pair unfolding ls_def by simp
  moreover have "l' = fst ls" "\<exists>fmt t i. s' = writeToLoggers fmt t i lev (outputs (fst ls)) (snd ls)"
    using assms(2) unfolding writeMsg_def ls_def[symmetric] by (auto simp: Let_def case_prod_unfold)
  ultimately show ?thesis using names_kept_writeTo wf_names_kept by blast
qed

lemma logger_step_wf: "logger_step ls ls' \<Longrightarrow> wf_logger (fst ls) (snd ls) \<Longrightarrow> wf_logger (fst ls') (snd ls')"
proof (induction rule: logger_step.induct)
  case (set name configs l s r l' s')
  then show ?case using SetLogger_wf by simp
next
  case (del name l s r l' s')
  have "names_kept s s'" using del.hyps names_kept_destroy_all by (auto simp: DelLogger_def Let_def split: if_splits)
  moreover have "wf_logger (l\<lparr>outputs := filter P (outputs l)\<rparr>) s" for P
    using del.prems by (auto simp: wf_logger_def distinct_map inj_on_def)
  ultimately show ?case using del wf_names_kept by (auto simp: DelLogger_def Let_def split: if_splits)
next
  case (close l s l' s')
  then show ?case by (auto simp: LocalLogger_Close_def wf_logger_def)
next
  case (reset l s l' s')
  then show ?case by (auto simp: Reset_def wf_logger_def)
next
  case (msg caller lev m v l s l' s')
  then show ?case using writeMsg_wf by simp
next
  case (config l param s r l' s')
  then show ?case using SetNewLogger_wf[of l s param] by simp
qed

text \<open>
  C37. Whatever sequence of configuring, removing, resetting and logging a program performs on a fresh
  logger, its list of outputs names each output at most once and only registered outputs.
\<close>

theorem outputs_wf:
  assumes "package_init = Some reg" "logger_step\<^sup>*\<^sup>* (defaultLogger, \<lparr>adapters = reg, ls_env = e\<rparr>) (l, s)"
  shows "wf_logger l s"
proof -
  have "wf_logger (fst ls) (snd ls)" if "logger_step\<^sup>*\<^sup>* (defaultLogger, \<lparr>adapters = reg, ls_env = e\<rparr>) ls" for ls
    using that
  proof (induction rule: rtranclp_induct)
    case base
    show ?case by (simp add: wf_logger_def defaultLogger_def SetCallDepth_def LocalLogger_zero_def)
  next
    case (step y z)
    then show ?case using logger_step_wf by blast
  qed
  from this[OF assms(2)] show ?thesis by simp
qed

section \<open>Configuring the file output\<close>

definition file_conf_ok :: "fileLogger \<Rightarrow> bool" where
  "file_conf_ok f = (valid_utf8 (Filename f) \<and> in_int64 (MaxLines f) \<and> in_int64 (MaxSize f) \<and> in_int64 (MaxDays f) \<and>
     valid_utf8 (f_Level f) \<and> valid_utf8 (PermitMask f) \<and> in_int64 (f_LogLevel f))"

text \<open>Decoding a marshalled section overwrites every configurable field of the registered output.\<close>

lemma fileLogger_decode:
  assumes "file_conf_ok f"
  shows "unmarshal (dec_struct fileLogger_fields) (json_print (fileLogger_json f)) g =
    (g\<lparr>Filename := Filename f, Append := Append f, MaxLines := MaxLines f, MaxSize := MaxSize f, Daily := Daily f, MaxDays := MaxDays f,
       f_Level := f_Level f, PermitMask := PermitMask f, f_LogLevel := f_LogLevel f\<rparr>, True)"
proof -
  have "json_ok (fileLogger_json f)" using assms by (auto simp: fileLogger_json_def file_conf_ok_def byte_of_def)
  moreover have "dec_struct fileLogger_fields (fileLogger_json f) g =
    (g\<lparr>Filename := Filename f, Append := Append f, MaxLines := MaxLines f, MaxSize := MaxSize f, Daily := Daily f, MaxDays := MaxDays f,
       f_Level := f_Level f, PermitMask := PermitMask f, f_LogLevel := f_LogLevel f\<rparr>, True)"
    using assms by (simp add: dec_struct_def fileLogger_json_def fileLogger_fields_def file_conf_ok_def find_field_tl)
  ultimately show ?thesis by (simp add: unmarshal_def json_parse_print)
qed

lemma file_Init_bad_permit:
  assumes "file_conf_ok f" "PermitMask f = []"
  shows "fst (file_Init (json_print (fileLogger_json f)) g e) \<noteq> None"
proof -
  have "json_print (fileLogger_json f) \<noteq> []" by (simp add: fileLogger_json_def)
  moreover have "ParseInt 8 [] = None" by (simp add: ParseInt_def)
  ultimately show ?thesis
    using assms by (auto simp: file_Init_def fileLogger_decode newFile_def createLogFile_def Let_def split: option.splits)
qed

lemma SetLogger_names:
  "set (map nl_name (outputs (fst (snd (LocalLogger_SetLogger name configs l s))))) \<subseteq> insert name (set (map nl_name (outputs l)))"
proof -
  have upd: "set (map nl_name (os[i := \<lparr>nl_name = name, nl_config = c\<rparr>])) \<subseteq> insert name (set (map nl_name os))" for os i c
    by (metis map_update nameLogger.select_convs(1) set_update_subset_insert)
  show ?thesis
    using upd by (auto simp: LocalLogger_SetLogger_def Let_def split: option.splits prod.splits if_splits)
qed

lemma SetLogger_other: "n \<noteq> name \<Longrightarrow> map_of (adapters (snd (snd (LocalLogger_SetLogger name configs l s)))) n = map_of (adapters s) n"
  by (auto simp: LocalLogger_SetLogger_def init_output_def destroy_output_def map_of_update Let_def split: option.splits prod.splits if_splits)

lemma SetLogger_init_fails:
  assumes "name \<notin> set (map nl_name (outputs l))" "fst (init_output name config s) \<noteq> None"
  shows "name \<notin> set (map nl_name (outputs (fst (snd (LocalLogger_SetLogger name [config] l s)))))"
proof -
  define l1 where "l1 = (if \<not> l_init l then l\<lparr>outputs := [], l_init := True\<rparr> else l)"
  have "name \<notin> set (map nl_name (outputs l1))" using assms(1) by (auto simp: l1_def)
  moreover from this have "output_index name (outputs l1) = None" by (simp add: output_index_None)
  ultimately show ?thesis
    using assms(2) unfolding LocalLogger_SetLogger_def l1_def[symmetric] by (auto simp: Let_def split: option.splits prod.splits)
qed

text \<open>
  A configuration whose file section has no \<^verbatim>\<open>permit\<close> switches file logging off silently: although the
  registered file output has the default mode 0777, the section is marshalled with an empty mode,
  which \<^verbatim>\<open>Init\<close> rejects; \<^verbatim>\<open>SetLogger\<close> returns as if all were well, and the logger has no file output.
\<close>

theorem config_without_permit:
  assumes "read_config (le_world (ls_env s)) c = Some conf" "File conf = Some f" "file_conf_ok f" "PermitMask f = []"
    "AdapterFile \<notin> set (map nl_name (outputs l))" "map_of (adapters s) AdapterFile = Some (AFile g)"
  shows "\<exists>l' s'. SetLogger [c] l s = (Running, l', s') \<and> AdapterFile \<notin> set (map nl_name (outputs l'))"
proof -
  have ne: "AdapterFile \<noteq> AdapterConsole" "AdapterFile \<noteq> AdapterConn" by (simp_all add: AdapterFile_def AdapterConsole_def AdapterConn_def)
  let ?l = "if TimeFormat conf \<noteq> [] then l\<lparr>timeFormat := TimeFormat conf\<rparr> else l"
  have other: "AdapterFile \<notin> set (map nl_name (outputs (fst (set_section n sec ls))))"
    if "AdapterFile \<notin> set (map nl_name (outputs (fst ls)))" "AdapterFile \<noteq> n" for n sec ls
    using that SetLogger_names[of n _ "fst ls" "snd ls"] by (cases sec) (auto simp: set_section_def)
  define ls1 where "ls1 = set_section AdapterConsole (map_option consoleLogger_json (Console conf)) (?l, s)"
  have "map_of (adapters (snd ls1)) AdapterFile = Some (AFile g)"
    using assms(6) ne(1) by (auto simp: ls1_def set_section_def SetLogger_other split: option.splits)
  moreover have "AdapterFile \<notin> set (map nl_name (outputs (fst ls1)))"
    unfolding ls1_def by (rule other[OF _ ne(1)]) (use assms(5) in simp)
  moreover from calculation have "fst (init_output AdapterFile (json_print (fileLogger_json f)) (snd ls1)) \<noteq> None"
    using file_Init_bad_permit[OF assms(3,4), of g "ls_env (snd ls1)"] by (auto simp: init_output_def split: prod.splits)
  ultimately have "AdapterFile \<notin> set (map nl_name (outputs (fst (set_section AdapterFile (Some (fileLogger_json f)) ls1))))"
    using SetLogger_init_fails by (simp add: set_section_def)
  from other[OF this ne(2)] have "AdapterFile \<notin> set (map nl_name (outputs (fst (apply_config conf l s))))"
    using assms(2) by (simp add: apply_config_def Let_def ls1_def)
  then show ?thesis
    using assms(1) by (simp add: SetLogger_def SetNewLogger_def) (metis prod.collapse)
qed

text \<open>
  A failed reconfiguration breaks a working output: when a logger with an open file output is
  given a configuration that is not JSON, it reports the error and keeps listing the output, but the file
  has been closed, so that every later message that needs no rotation fails and is stored nowhere.
\<close>

theorem failed_reconfiguration_closes_file:
  assumes "l_init l" "outputs l = [\<lparr>nl_name = AdapterFile, nl_config = old\<rparr>]" "config \<noteq> old" "config \<noteq> []" "json_parse config = None"
    "map_of (adapters s) AdapterFile = Some (AFile f)" "fileWriter f = OpenFile p"
  shows "\<exists>s' f'. LocalLogger_SetLogger AdapterFile [config] l s = (Some JsonError, l, s') \<and>
    map_of (adapters s') AdapterFile = Some (AFile f') \<and>
    (\<forall>t txt lev e. level_num lev \<le> f_LogLevel f' \<longrightarrow> \<not> (Append f' \<and> needCreateFresh f' (int (length (txt @ newline))) (t_Day t)) \<longrightarrow>
       file_LogWrite t (LogText txt) lev f' e = (Some NotWritable, f', e))"
proof -
  let ?f = "file_Destroy f"
  have "map_of (adapters (destroy_output AdapterFile s)) AdapterFile = Some (AFile ?f)" using assms(6) by (simp add: destroy_output_def)
  moreover have "unmarshal (dec_struct fileLogger_fields) config ?f = (?f, False)" using assms(5) by (simp add: unmarshal_def)
  ultimately obtain s' where "init_output AdapterFile config (destroy_output AdapterFile s) = (Some JsonError, s')"
    "map_of (adapters s') AdapterFile = Some (AFile ?f)"
    using assms(4) by (simp add: init_output_def file_Init_def Let_def)
  moreover have "fileWriter ?f = ClosedFile" using assms(7) by (simp add: file_Destroy_def)
  ultimately show ?thesis
    using assms(1-3) by (intro exI[of _ s'] exI[of _ ?f])
      (auto simp: LocalLogger_SetLogger_def Let_def file_LogWrite_def write_to_def)
qed

section \<open>Formatting\<close>

lemma Sprintf_plain: "CHR ''%'' \<notin> set msg \<Longrightarrow> msg @ rest \<noteq> [] \<Longrightarrow> rest \<noteq> [] \<Longrightarrow> Sprintf (msg @ rest) vs = msg @ Sprintf rest vs"
proof (induction msg)
  case (Cons c msg)
  then show ?case by (cases "msg @ rest") auto
qed simp

lemma Sprintf_args: "Sprintf (Repeat '' %v'' (length vs)) vs = concat (map (\<lambda>v. '' '' @ arg_text v) vs)"
proof (induction vs)
  case (Cons v vs)
  have "Repeat '' %v'' (length (v # vs)) = '' %v'' @ Repeat '' %v'' (length vs)" by (simp add: Repeat_def)
  moreover have "Sprintf ('' %v'' @ cs) (v # vs) = '' '' @ arg_text v @ Sprintf cs vs" for cs
    by (cases cs) (simp_all add: fmt_verb_def)
  ultimately show ?case using Cons.IH by simp
qed (simp add: Repeat_def)

text \<open>
  A message text without a percent sign is logged with its arguments appended in order, each after a
  blank; nothing of the text or of the arguments is lost.
\<close>

theorem formatLog_appends:
  assumes "CHR ''%'' \<notin> set msg"
  shows "formatLog (AStr msg) vs = msg @ concat (map (\<lambda>v. '' '' @ arg_text v) vs)"
proof (cases "vs = []")
  case False
  then have "Repeat '' %v'' (length vs) \<noteq> []" by (cases vs) (simp_all add: Repeat_def)
  moreover have "\<not> Contains msg ''%''" using assms by (simp add: Contains_char)
  ultimately show ?thesis using False assms by (simp add: formatLog_def Sprintf_plain Sprintf_args)
qed (simp add: formatLog_def)

theorem formatLog_appends_witness: "formatLog (AStr ''pid'') [AInt 7, AStr ''up''] = ''pid 7 up''"
proof -
  have "Itoa 7 = ''7''" by code_simp
  then show ?thesis using formatLog_appends[of "''pid''" "[AInt 7, AStr ''up'']"] by simp
qed

section \<open>A message on its way to the file\<close>

lemma write_output_file:
  assumes "map_of (adapters s) AdapterFile = Some (AFile f)" "working f (ls_env s)"
    "stored (ls_env s) (le_path (ls_env s) (Filename f)) = Some c" "level_num lev \<le> f_LogLevel f"
  shows "let e' = ls_env (write_output AdapterFile t (LogText txt) lev s); p = le_path (ls_env s) (Filename f) in
    stored e' p = Some (c @ txt @ newline) \<or> stored e' p = Some (txt @ newline) \<and> (\<exists>a. stored (ls_env s) a = None \<and> stored e' a = Some c)"
proof -
  have "file_out.accepted f (t, LogText txt, lev)" using assms(4) by (simp add: file_out.accepted_def)
  from LogWrite_working[OF assms(2,3) this] obtain f' e' where w: "file_LogWrite t (LogText txt) lev f (ls_env s) = (None, f', e')"
    and alt: "stored e' = (stored (ls_env s))(le_path (ls_env s) (Filename f) \<mapsto> c @ txt @ newline) \<or>
      (\<exists>a. a \<noteq> le_path (ls_env s) (Filename f) \<and> stored (ls_env s) a = None \<and>
         stored e' = (stored (ls_env s))(a \<mapsto> c, le_path (ls_env s) (Filename f) \<mapsto> txt @ newline))" by auto
  have "ls_env (write_output AdapterFile t (LogText txt) lev s) = e'" using assms(1) w by (simp add: write_output_def)
  with alt show ?thesis by (auto simp: Let_def)
qed


section \<open>Examples\<close>

lemma package_init_reg: "package_init = Some [(''conn'', AConn connLogger_registered), (''console'', AConsole consoleLogger_registered),
    (''file'', AFile fileLogger_registered)]"
  by (simp add: package_init_def Register_def AdapterConn_def AdapterConsole_def AdapterFile_def)

definition sample_sys :: logsys where
  "sample_sys = \<lparr>adapters = [(''file'', AFile sample_log)], ls_env = sample_env\<rparr>"

definition sample_logger :: LocalLogger where
  "sample_logger = LocalLogger_zero\<lparr>l_init := True, outputs := [\<lparr>nl_name = AdapterFile, nl_config = ''x''\<rparr>], callDepth := 2\<rparr>"

theorem writeMsg_below_threshold_witness:
  "writeMsg (\<lambda>_. None) LevelTrace ''m'' [] sample_logger sample_sys = (sample_logger, sample_sys)"
  by (rule writeMsg_below_threshold)
    (simp_all add: sample_logger_def sample_sys_def AdapterFile_def sample_log_def fileLogger_registered_def)

theorem outputs_wf_witness:
  "let reg = the package_init; s = \<lparr>adapters = reg, ls_env = sample_env\<rparr>; ls = writeMsg (\<lambda>_. None) LevelError ''m'' [] defaultLogger s
   in wf_logger (fst ls) (snd ls)"
proof -
  let ?s = "\<lparr>adapters = the package_init, ls_env = sample_env\<rparr>"
  let ?ls = "writeMsg (\<lambda>_. None) LevelError ''m'' [] defaultLogger ?s"
  have "logger_step (defaultLogger, ?s) (fst ?ls, snd ?ls)" by (rule logger_step.msg) simp
  then have "logger_step\<^sup>*\<^sup>* (defaultLogger, ?s) (fst ?ls, snd ?ls)" by (rule r_into_rtranclp)
  moreover have "package_init = Some (the package_init)" by (simp add: package_init_reg)
  ultimately show ?thesis using outputs_wf unfolding Let_def by blast
qed

definition no_permit :: string where
  "no_permit = json_print (JObj [(''File'', JObj [(''filename'', JStr ''/var/a.log''), (''level'', JStr ''INFO'')])])"

lemma no_permit_conf:
  "read_config w no_permit = Some (logConfig_zero\<lparr>File := Some (fileLogger_zero\<lparr>Filename := ''/var/a.log'', f_Level := ''INFO''\<rparr>)\<rparr>)"
proof -
  have "json_parse no_permit = Some (JObj [(''File'', JObj [(''filename'', JStr ''/var/a.log''), (''level'', JStr ''INFO'')])])"
    unfolding no_permit_def by (rule json_parse_print) (simp add: byte_of_def)
  then show ?thesis
    by (simp add: read_config_def unmarshal_def dec_struct_def logConfig_fields_def find_field_tl ptr_field_def logConfig_zero_def
        fileLogger_fields_def)
qed

theorem config_without_permit_witness:
  "\<exists>l' s'. SetLogger [no_permit] defaultLogger sample_sys = (Running, l', s') \<and> AdapterFile \<notin> set (map nl_name (outputs l'))"
  by (rule config_without_permit[OF no_permit_conf, where f = "fileLogger_zero\<lparr>Filename := ''/var/a.log'', f_Level := ''INFO''\<rparr>" and g = sample_log])
    (simp_all add: file_conf_ok_def fileLogger_zero_def in_int64_def defaultLogger_def SetCallDepth_def LocalLogger_zero_def sample_sys_def
      AdapterFile_def byte_of_def)

theorem failed_reconfiguration_closes_file_witness:
  "\<exists>s' f'. LocalLogger_SetLogger AdapterFile [''?''] sample_logger sample_sys = (Some JsonError, sample_logger, s') \<and>
     map_of (adapters s') AdapterFile = Some (AFile f')"
proof -
  have "json_parse ''?'' = None" by code_simp
  from failed_reconfiguration_closes_file[OF _ _ _ _ this, of sample_logger "''x''" sample_sys sample_log "''/var/a.log''"] show ?thesis
    by (auto simp: sample_logger_def sample_sys_def AdapterFile_def sample_log_def)
qed


end
