(* ===== verification/Goredis_Proto.thy ===== *)
theory Goredis_Proto
  imports Redis_Sock Go_Strings
begin

text \<open>
  The second redis client the program links (\<^verbatim>\<open>github.com/go-redis/redis\<close>), its protocol layer: the errors it tells apart
  (\<^verbatim>\<open>error.go\<close>), a connection with its buffered reader and writer (\<^verbatim>\<open>internal/pool/conn.go\<close>), how the
  arguments of a command are written (\<^verbatim>\<open>internal/proto/writer.go\<close>) and how a reply is read
  (\<^verbatim>\<open>internal/proto/reader.go\<close>).  The network delivers the list \<open>arriving\<close> of pieces, one
  per read of the socket, and then the error \<open>rd_end\<close>; the reader fetches a piece at a time into a buffer of 4096 bytes, so that what it has
  fetched and not used is part of the state.  A Go panic is \<^const>\<open>None\<close>.
\<close>

section \<open>Errors\<close>

text \<open>
  A reply of the server that is an error is \<open>GRedis\<close>; \<open>GNet\<close> is an error of the network with its answer to \<^verbatim>\<open>Timeout\<close>; \<open>GReply\<close> a reply
  that cannot be parsed; \<open>GNum\<close> a number that cannot; \<open>GCause\<close> what an error of the standard library wraps.
\<close>

datatype gerr =
    GRedis string
  | GEOF
  | GUnexpectedEOF
  | GNet bool
  | GBufferFull
  | GReply string
  | GNum string
  | GMarshal string
  | GErrClosed
  | GPoolTimeout
  | GBadConn gerr
  | GCause gerr

definition redis_Nil :: gerr where
  "redis_Nil = GRedis ''redis: nil''"

fun gerr_text :: "gerr \<Rightarrow> string" where
  "gerr_text (GRedis s) = s"
| "gerr_text GEOF = ''EOF''"
| "gerr_text GUnexpectedEOF = ''unexpected EOF''"
| "gerr_text (GNet t) = (if t then ''i/o timeout'' else ''connection error'')"
| "gerr_text GBufferFull = ''bufio: buffer full''"
| "gerr_text (GReply s) = ''redis: '' @ s"
| "gerr_text (GNum s) = ''strconv: parsing '' @ s"
| "gerr_text (GMarshal s) = ''redis: cannot marshal '' @ s"
| "gerr_text GErrClosed = ''redis: client is closed''"
| "gerr_text GPoolTimeout = ''redis: connection pool timeout''"
| "gerr_text (GBadConn e) = ''redis: Conn is in a bad state: '' @ gerr_text e"
| "gerr_text (GCause e) = ''cause of '' @ gerr_text e"

fun is_net_error :: "gerr \<Rightarrow> bool option" where
  "is_net_error (GNet t) = Some t"
| "is_net_error (GCause (GNet True)) = Some True"
| "is_net_error _ = None"

definition isRetryableError :: "gerr option \<Rightarrow> bool \<Rightarrow> bool" where
  "isRetryableError err retryTimeout =
     (case err of
        None \<Rightarrow> False
      | Some e \<Rightarrow>
          if e = GEOF then True
          else (case is_net_error e of
                 Some timeout \<Rightarrow> (if timeout then retryTimeout else True)
               | None \<Rightarrow>
                   (let s = gerr_text e
                    in if s = ''ERR max number of clients reached'' then True
                       else if HasPrefix s ''LOADING '' then True
                       else if HasPrefix s ''READONLY '' then True
                       else if HasPrefix s ''CLUSTERDOWN '' then True
                       else False)))"

fun isRedisError :: "gerr \<Rightarrow> bool" where
  "isRedisError (GRedis s) = True"
| "isRedisError _ = False"

definition isReadOnlyError :: "gerr \<Rightarrow> bool" where
  "isReadOnlyError e = HasPrefix (gerr_text e) ''READONLY ''"

definition isBadConn :: "gerr option \<Rightarrow> bool \<Rightarrow> bool" where
  "isBadConn err allowTimeout =
     (case err of
        None \<Rightarrow> False
      | Some e \<Rightarrow>
          if isRedisError e then isReadOnlyError e
          else if allowTimeout \<and> is_net_error e = Some True then False
          else True)"

fun Unwrap :: "gerr \<Rightarrow> gerr option" where
  "Unwrap (GBadConn e) = Some e"
| "Unwrap (GNet t) = Some (GCause (GNet t))"
| "Unwrap (GNum s) = Some (GCause (GNum s))"
| "Unwrap _ = None"

section \<open>Connections\<close>

record gconn = bsock +
  rd_buf :: string
  arriving :: "string list"
  rd_end :: gerr
  Inited :: bool
  pooled :: bool
  createdAt :: int
  usedAt :: int

definition nanos :: int where
  "nanos = 1000000000"

text \<open>The socket a dial yields: how much it takes, what it delivers, and the error after that.\<close>

type_synonym netConn = "nat \<times> string list \<times> gerr"

definition pool_NewConn :: "int \<Rightarrow> netConn \<Rightarrow> gconn" where
  "pool_NewConn now = (\<lambda>(n, ps, e).
     \<lparr>bw_buf = [], bw_err = None, wire = [], room = n, shut = False,
      rd_buf = [], arriving = ps, rd_end = e, Inited = False, pooled = False, createdAt = now, usedAt = now div nanos\<rparr>)"

definition SetUsedAt :: "int \<Rightarrow> gconn \<Rightarrow> gconn" where
  "SetUsedAt now c = c\<lparr>usedAt := now div nanos\<rparr>"

definition Conn_Close :: "gconn \<Rightarrow> gerr option \<times> gconn" where
  "Conn_Close c = (if shut c then (Some (GNet False), c) else (None, c\<lparr>shut := True\<rparr>))"

section \<open>The writer\<close>

text \<open>One step after the other, the first error ending the sequence.\<close>

definition and_then :: "gerr option \<times> gconn \<Rightarrow> (gconn \<Rightarrow> gerr option \<times> gconn) \<Rightarrow> gerr option \<times> gconn" where
  "and_then r f = (case r of (Some e, c) \<Rightarrow> (Some e, c) | (None, c) \<Rightarrow> f c)"

definition wr_status :: "gconn \<Rightarrow> gerr option \<times> gconn" where
  "wr_status c = (map_option (\<lambda>_. GNet False) (bw_err c), c)"

definition wr_WriteByte :: "char \<Rightarrow> gconn \<Rightarrow> gerr option \<times> gconn" where
  "wr_WriteByte b c = wr_status (bw_WriteByte b c)"

definition wr_Write :: "string \<Rightarrow> gconn \<Rightarrow> gerr option \<times> gconn" where
  "wr_Write p c = wr_status (bw_Write p c)"

definition wr_crlf :: "gconn \<Rightarrow> gerr option \<times> gconn" where
  "wr_crlf c = and_then (wr_WriteByte (CHR 0x0D) c) (wr_WriteByte (CHR 0x0A))"

definition wr_writeLen :: "nat \<Rightarrow> gconn \<Rightarrow> gerr option \<times> gconn" where
  "wr_writeLen n c = wr_Write (nat_str n @ [CHR 0x0D, CHR 0x0A]) c"

definition wr_bytes :: "string \<Rightarrow> gconn \<Rightarrow> gerr option \<times> gconn" where
  "wr_bytes b c =
     and_then (wr_WriteByte (CHR ''$'') c) (\<lambda>c.
     and_then (wr_writeLen (length b) c) (\<lambda>c.
     and_then (wr_Write b c) wr_crlf))"

definition wr_string :: "string \<Rightarrow> gconn \<Rightarrow> gerr option \<times> gconn" where
  "wr_string s = wr_bytes s"

definition wr_uint :: "nat \<Rightarrow> gconn \<Rightarrow> gerr option \<times> gconn" where
  "wr_uint n = wr_bytes (nat_str n)"

definition wr_int :: "int \<Rightarrow> gconn \<Rightarrow> gerr option \<times> gconn" where
  "wr_int n = wr_bytes (Itoa n)"

text \<open>
  The arguments by their dynamic type: a float and a time carry the text \<^verbatim>\<open>strconv.AppendFloat\<close> and \<^verbatim>\<open>Format\<close> give them, a value that
  marshals itself the outcome of \<^verbatim>\<open>MarshalBinary\<close>, and a value of any other type the name of that type.
\<close>

datatype garg =
    GNil
  | GString string
  | GBytes string
  | GInt int
  | GUint nat
  | GFloat string
  | GBool bool
  | GTime string
  | GBinary "gerr + string"
  | GOtherArg string

definition wr_float :: "string \<Rightarrow> gconn \<Rightarrow> gerr option \<times> gconn" where
  "wr_float t = wr_bytes t"

fun wr_writeArg :: "garg \<Rightarrow> gconn \<Rightarrow> gerr option \<times> gconn" where
  "wr_writeArg GNil c = wr_string [] c"
| "wr_writeArg (GString s) c = wr_string s c"
| "wr_writeArg (GBytes b) c = wr_bytes b c"
| "wr_writeArg (GInt n) c = wr_int n c"
| "wr_writeArg (GUint n) c = wr_uint n c"
| "wr_writeArg (GFloat t) c = wr_float t c"
| "wr_writeArg (GBool b) c = (if b then wr_int 1 c else wr_int 0 c)"
| "wr_writeArg (GTime t) c = wr_string t c"
| "wr_writeArg (GBinary r) c = (case r of Inl e \<Rightarrow> (Some e, c) | Inr b \<Rightarrow> wr_bytes b c)"
| "wr_writeArg (GOtherArg t) c = (Some (GMarshal t), c)"

fun wr_args :: "garg list \<Rightarrow> gconn \<Rightarrow> gerr option \<times> gconn" where
  "wr_args [] c = (None, c)"
| "wr_args (a # as) c = and_then (wr_writeArg a c) (wr_args as)"

definition WriteArgs :: "garg list \<Rightarrow> gconn \<Rightarrow> gerr option \<times> gconn" where
  "WriteArgs args c =
     and_then (wr_WriteByte (CHR ''*'') c) (\<lambda>c.
     and_then (wr_writeLen (length args) c) (wr_args args))"

text \<open>Both set a deadline first, which fails on a closed socket and notes the time of use.\<close>

definition WithWriter :: "int \<Rightarrow> (gconn \<Rightarrow> gerr option \<times> gconn) \<Rightarrow> gconn \<Rightarrow> gerr option \<times> gconn" where
  "WithWriter now fn c =
     (let c1 = SetUsedAt now c
      in if shut c1 then (Some (GNet False), c1)
         else and_then (fn (if bw_buf c1 \<noteq> [] then bw_Reset c1 else c1)) (\<lambda>c. wr_status (bw_flush c)))"

definition WithReader :: "int \<Rightarrow> ('v \<Rightarrow> gconn \<Rightarrow> ((gerr option \<times> 'v) \<times> gconn) option) \<Rightarrow> 'v \<Rightarrow> gconn \<Rightarrow> ((gerr option \<times> 'v) \<times> gconn) option" where
  "WithReader now fn v c =
     (let c1 = SetUsedAt now c in if shut c1 then Some ((Some (GNet False), v), c1) else fn v c1)"

section \<open>The buffered reader\<close>

definition rd_size :: nat where
  "rd_size = 4096"

text \<open>A read of the socket into \<open>k\<close> bytes: at most the next piece, and never nothing without an error.\<close>

fun next_piece :: "string list \<Rightarrow> (string \<times> string list) option" where
  "next_piece [] = None"
| "next_piece (p # ps) = (if p = [] then next_piece ps else Some (p, ps))"

definition net_read :: "nat \<Rightarrow> gconn \<Rightarrow> (gerr + string) \<times> gconn" where
  "net_read k c =
     (if shut c then (Inl (GNet False), c)
      else case next_piece (arriving c) of
             None \<Rightarrow> (Inl (rd_end c), c\<lparr>arriving := []\<rparr>)
           | Some (p, ps) \<Rightarrow> (Inr (take k p), c\<lparr>arriving := (if length p \<le> k then ps else drop k p # ps)\<rparr>))"

definition rd_fill :: "gconn \<Rightarrow> gerr option \<times> gconn" where
  "rd_fill c =
     (case net_read (rd_size - length (rd_buf c)) c of
        (Inl e, c') \<Rightarrow> (Some e, c')
      | (Inr p, c') \<Rightarrow> (None, c'\<lparr>rd_buf := rd_buf c' @ p\<rparr>))"

definition Buffered :: "gconn \<Rightarrow> nat" where
  "Buffered c = length (rd_buf c)"

lemma next_piece_Some: "next_piece ps = Some (p, qs) \<Longrightarrow> p \<noteq> [] \<and> concat ps = p @ concat qs"
  by (induction ps) (auto split: if_splits)

lemma net_read_pieces:
  assumes "net_read k c = (Inr p, c')"
  shows "(0 < k \<longrightarrow> p \<noteq> []) \<and> length p \<le> k \<and> concat (arriving c) = p @ concat (arriving c')"
proof -
  obtain q qs where q: "next_piece (arriving c) = Some (q, qs)"
    using assms by (auto simp: net_read_def split: if_splits option.splits)
  then have "p = take k q" "arriving c' = (if length q \<le> k then qs else drop k q # qs)"
    using assms by (simp_all add: net_read_def split: if_splits) auto
  with next_piece_Some[OF q] show ?thesis by simp
qed

lemma net_read_shorter:
  "net_read k c = (Inr p, c') \<Longrightarrow> 0 < k \<Longrightarrow> length (concat (arriving c')) < length (concat (arriving c))"
  using net_read_pieces[of k c p c'] by simp

lemma rd_fill_shorter:
  "rd_fill c = (None, c') \<Longrightarrow> length (rd_buf c) < rd_size \<Longrightarrow> length (concat (arriving c')) < length (concat (arriving c))"
  by (auto simp: rd_fill_def split: prod.splits sum.splits dest: net_read_shorter)

function ReadSlice :: "char \<Rightarrow> gconn \<Rightarrow> (gerr + string) \<times> gconn" where
  "ReadSlice delim c =
     (if delim \<in> set (rd_buf c) then
        (Inr (takeWhile (\<lambda>b. b \<noteq> delim) (rd_buf c) @ [delim]), c\<lparr>rd_buf := tl (dropWhile (\<lambda>b. b \<noteq> delim) (rd_buf c))\<rparr>)
      else if rd_size \<le> length (rd_buf c) then (Inl GBufferFull, c\<lparr>rd_buf := []\<rparr>)
      else case rd_fill c of
             (Some e, c') \<Rightarrow> (Inl e, c'\<lparr>rd_buf := []\<rparr>)
           | (None, c') \<Rightarrow> ReadSlice delim c')"
  by pat_completeness auto

termination by (relation "measure (\<lambda>(d, c). length (concat (arriving c)))") (auto dest: rd_fill_shorter[OF sym])

declare ReadSlice.simps [simp del]

text \<open>\<^verbatim>\<open>Read\<close> into \<open>k > 0\<close> bytes: what is buffered, or one read of the socket, which bypasses the buffer when the destination is no smaller.\<close>

definition bufio_Read :: "nat \<Rightarrow> gconn \<Rightarrow> (gerr + string) \<times> gconn" where
  "bufio_Read k c =
     (if rd_buf c \<noteq> [] then (Inr (take k (rd_buf c)), c\<lparr>rd_buf := drop k (rd_buf c)\<rparr>)
      else if rd_size \<le> k then net_read k c
      else case net_read rd_size c of
             (Inl e, c') \<Rightarrow> (Inl e, c')
           | (Inr p, c') \<Rightarrow> (Inr (take k p), c'\<lparr>rd_buf := drop k p\<rparr>))"

lemma bufio_Read_nonempty: "bufio_Read k c = (Inr p, c') \<Longrightarrow> 0 < k \<Longrightarrow> p \<noteq> [] "
  by (auto simp: bufio_Read_def rd_size_def split: if_splits prod.splits sum.splits dest: net_read_pieces)

function read_full :: "nat \<Rightarrow> string \<Rightarrow> gconn \<Rightarrow> (gerr + string) \<times> gconn" where
  "read_full k got c =
     (if k = 0 then (Inr got, c)
      else case bufio_Read k c of
             (Inl e, c') \<Rightarrow> (Inl (if e = GEOF \<and> got \<noteq> [] then GUnexpectedEOF else e), c')
           | (Inr p, c') \<Rightarrow> read_full (k - length p) (got @ p) c')"
  by pat_completeness auto

termination by (relation "measure fst") (auto dest: bufio_Read_nonempty[OF sym])

declare read_full.simps [simp del]

definition bufio_ReadFull :: "nat \<Rightarrow> gconn \<Rightarrow> (gerr + string) \<times> gconn" where
  "bufio_ReadFull k c = read_full k [] c"

section \<open>Reading replies\<close>

definition proto_readLine :: "gconn \<Rightarrow> (gerr + string) \<times> gconn" where
  "proto_readLine c =
     (case ReadSlice (CHR 0x0A) c of
        (Inl e, c') \<Rightarrow> (Inl e, c')
      | (Inr b, c') \<Rightarrow>
          if length b \<le> 2 \<or> b ! (length b - 1) \<noteq> CHR 0x0A \<or> b ! (length b - 2) \<noteq> CHR 0x0D
          then (Inl (GReply b), c')
          else (Inr (take (length b - 2) b), c'))"

definition isNilReply :: "string \<Rightarrow> bool" where
  "isNilReply b = (length b = 3 \<and> (b ! 0 = CHR ''$'' \<or> b ! 0 = CHR ''*'') \<and> b ! 1 = CHR ''-'' \<and> b ! 2 = CHR ''1'')"

definition ParseErrorReply :: "string \<Rightarrow> gerr" where
  "ParseErrorReply line = GRedis (drop 1 line)"

definition ReadLine :: "gconn \<Rightarrow> (gerr + string) \<times> gconn" where
  "ReadLine c =
     (case proto_readLine c of
        (Inl e, c') \<Rightarrow> (Inl e, c')
      | (Inr line, c') \<Rightarrow> if isNilReply line then (Inl redis_Nil, c') else (Inr line, c'))"

definition parse_int64 :: "string \<Rightarrow> gerr + int" where
  "parse_int64 s = (case Atoi s of None \<Rightarrow> Inl (GNum s) | Some n \<Rightarrow> Inr n)"

definition readStringReply :: "string \<Rightarrow> gconn \<Rightarrow> ((gerr + string) \<times> gconn) option" where
  "readStringReply line c =
     (if isNilReply line then Some (Inl redis_Nil, c)
      else case parse_int64 (drop 1 line) of
             Inl e \<Rightarrow> Some (Inl e, c)
           | Inr replyLen \<Rightarrow>
               if replyLen + 2 < 0 \<or> maxAlloc < replyLen + 2 then None
               else case bufio_ReadFull (nat (replyLen + 2)) c of
                      (Inl e, c') \<Rightarrow> Some (Inl e, c')
                    | (Inr b, c') \<Rightarrow> if replyLen < 0 then None else Some (Inr (take (nat replyLen) b), c'))"

definition ReadIntReply :: "gconn \<Rightarrow> ((gerr + int) \<times> gconn) option" where
  "ReadIntReply c =
     (case ReadLine c of
        (Inl e, c') \<Rightarrow> Some (Inl e, c')
      | (Inr line, c') \<Rightarrow>
          if line ! 0 = CHR ''-'' then Some (Inl (ParseErrorReply line), c')
          else if line ! 0 = CHR '':'' then Some (parse_int64 (drop 1 line), c')
          else Some (Inl (GReply line), c'))"

definition ReadString :: "gconn \<Rightarrow> ((gerr + string) \<times> gconn) option" where
  "ReadString c =
     (case ReadLine c of
        (Inl e, c') \<Rightarrow> Some (Inl e, c')
      | (Inr line, c') \<Rightarrow>
          if line ! 0 = CHR ''-'' then Some (Inl (ParseErrorReply line), c')
          else if line ! 0 = CHR ''$'' then readStringReply line c'
          else if line ! 0 = CHR ''+'' then Some (Inr (drop 1 line), c')
          else if line ! 0 = CHR '':'' then Some (Inr (drop 1 line), c')
          else Some (Inl (GReply line), c'))"

section \<open>What the writer puts on the wire\<close>

text \<open>A step of the writer that, given an open socket with room for them, adds exactly the bytes \<open>s\<close>.\<close>

definition writes :: "(gconn \<Rightarrow> gerr option \<times> gconn) \<Rightarrow> string \<Rightarrow> bool" where
  "writes f s = (\<forall>c. wr_ready c \<longrightarrow> length (bw_buf c @ s) \<le> room c \<longrightarrow> (\<exists>c'. f c = (None, c') \<and> wr_sent s c c'))"

named_theorems writes_rules

lemma wr_status_ok: "wr_sent s c c' \<Longrightarrow> wr_status c' = (None, c')"
  by (simp add: wr_status_def wr_sent_def wr_ready_def)

lemma writes_Byte [writes_rules]: "writes (wr_WriteByte b) [b]"
  using bw_WriteByte_sent wr_status_ok by (fastforce simp: writes_def wr_WriteByte_def)

lemma writes_Write [writes_rules]: "writes (wr_Write p) p"
  using bw_Write_sent wr_status_ok by (fastforce simp: writes_def wr_Write_def)

lemma writes_nothing [writes_rules]: "writes (\<lambda>c. (None, c)) []"
  by (simp add: writes_def sent_refl)

lemma writes_and_then:
  assumes "writes f s" "writes g t"
  shows "writes (\<lambda>c. and_then (f c) g) (s @ t)"
  unfolding writes_def
proof (intro allI impI)
  fix c :: gconn
  assume c: "wr_ready c" "length (bw_buf c @ s @ t) \<le> room c"
  then obtain c' where c': "f c = (None, c')" "wr_sent s c c'"
    using assms(1) unfolding writes_def by fastforce
  then have "wr_ready c'" "length (bw_buf c' @ t) \<le> room c'"
    using c(2) sent_room[OF c'(2), of t] by (simp_all add: wr_sent_def)
  then obtain c'' where "g c' = (None, c'')" "wr_sent t c' c''"
    using assms(2) unfolding writes_def by blast
  with c' show "\<exists>c'. and_then (f c) g = (None, c') \<and> wr_sent (s @ t) c c'"
    by (auto simp: and_then_def dest: sent_trans)
qed

lemma writes_seq [writes_rules]:
  "writes f s \<Longrightarrow> writes g t \<Longrightarrow> u = s @ t \<Longrightarrow> writes (\<lambda>c. and_then (f c) g) u"
  by (simp add: writes_and_then)

lemma writes_bytes [writes_rules]: "writes (wr_bytes b) (reply_bytes (BulkStr b))"
proof -
  have l: "writes (wr_writeLen n) (nat_str n @ crlf)" for n
    unfolding wr_writeLen_def crlf_def by (rule writes_Write)
  have c: "writes wr_crlf crlf" unfolding wr_crlf_def crlf_def by (rule writes_rules)+ simp
  show ?thesis unfolding wr_bytes_def by (rule writes_rules l c refl)+ simp
qed

text \<open>The text an argument is sent as, unless it cannot be marshalled.\<close>

fun garg_text :: "garg \<Rightarrow> string option" where
  "garg_text GNil = Some []"
| "garg_text (GString s) = Some s"
| "garg_text (GBytes b) = Some b"
| "garg_text (GInt n) = Some (Itoa n)"
| "garg_text (GUint n) = Some (nat_str n)"
| "garg_text (GFloat t) = Some t"
| "garg_text (GBool b) = Some (if b then ''1'' else ''0'')"
| "garg_text (GTime t) = Some t"
| "garg_text (GBinary r) = (case r of Inl e \<Rightarrow> None | Inr b \<Rightarrow> Some b)"
| "garg_text (GOtherArg t) = None"

lemma Itoa_bits: "Itoa 1 = ''1''" "Itoa 0 = ''0''"
  by code_simp+

lemma wr_writeArg_text: "garg_text a = Some t \<Longrightarrow> wr_writeArg a c = wr_bytes t c"
  by (cases a) (auto simp: wr_string_def wr_int_def wr_uint_def wr_float_def Itoa_bits split: sum.splits)

lemma writes_arg: "garg_text a = Some t \<Longrightarrow> writes (wr_writeArg a) (reply_bytes (BulkStr t))"
  using writes_bytes[of t] unfolding writes_def by (simp add: wr_writeArg_text del: reply_bytes.simps)

lemma writes_args:
  "map garg_text as = map Some ts \<Longrightarrow> writes (wr_args as) (concat (map reply_bytes (map BulkStr ts)))"
proof (induction as arbitrary: ts)
  case (Cons a as)
  then obtain t ts' where ts: "ts = t # ts'" "garg_text a = Some t" "map garg_text as = map Some ts'" by (cases ts) auto
  have "wr_args (a # as) = (\<lambda>c. and_then (wr_writeArg a c) (wr_args as))" by (rule ext) simp
  then show ?case using writes_seq[OF writes_arg[OF ts(2)] Cons.IH[OF ts(3)] refl] by (simp add: ts(1))
qed (simp add: writes_def sent_refl)

lemma writes_WriteArgs:
  assumes "map garg_text as = map Some ts"
  shows "writes (WriteArgs as) (reply_bytes (ArrayReply (map BulkStr ts)))"
proof -
  have l: "writes (wr_writeLen n) (nat_str n @ crlf)" for n
    unfolding wr_writeLen_def crlf_def by (rule writes_Write)
  have "length as = length ts" using assms map_eq_imp_length_eq by blast
  then show ?thesis
    unfolding WriteArgs_def
    by (intro writes_seq[OF writes_Byte writes_seq[OF l writes_args[OF assms] refl]]) simp
qed

text \<open>
  C29. The two redis clients the program links speak the same protocol: for a command with string arguments, on a socket with room for it, this
  client hands its writer exactly the bytes the other one writes, and succeeds.
\<close>

theorem clients_write_the_same:
  assumes "wr_ready c" "length (bw_buf c @ writeCommand cmd (map AString args)) \<le> room c"
  shows "\<exists>c'. WriteArgs (GString cmd # map GString args) c = (None, c') \<and> wr_sent (writeCommand cmd (map AString args)) c c'"
proof -
  have "writes (WriteArgs (GString cmd # map GString args)) (reply_bytes (ArrayReply (map BulkStr (cmd # args))))"
    by (rule writes_WriteArgs) simp
  then have "writes (WriteArgs (GString cmd # map GString args)) (writeCommand cmd (map AString args))"
    by (simp add: writeCommand_reply command_reply_def comp_def)
  with assms show ?thesis unfolding writes_def by blast
qed

theorem clients_write_the_same_witness:
  "\<exists>c'. WriteArgs [GString ''get'', GString ''k''] (pool_NewConn 0 (100, [], GEOF)) = (None, c') \<and>
     wr_sent (writeCommand ''get'' [AString ''k'']) (pool_NewConn 0 (100, [], GEOF)) c'"
  using clients_write_the_same[of "pool_NewConn 0 (100, [], GEOF)" "''get''" "[''k'']"]
  by (simp add: wr_ready_def pool_NewConn_def bw_size_def writeCommand_def writeString_def writeLen_text nat_str.simps crlf_def)

section \<open>What the reader takes from the network\<close>

text \<open>
  \<open>holds u later c\<close>: of what the network delivers, the bytes \<open>u\<close> come before the pieces \<open>later\<close>, the first of them fetched already.
\<close>

definition holds :: "string \<Rightarrow> string list \<Rightarrow> gconn \<Rightarrow> bool" where
  "holds u later c = (\<exists>ps. arriving c = ps @ later \<and> rd_buf c @ concat ps = u \<and> length (rd_buf c) \<le> rd_size)"

text \<open>Reading changes nothing of a connection but its buffer and what is still to arrive.\<close>

definition only_read :: "gconn \<Rightarrow> gconn \<Rightarrow> bool" where
  "only_read c c' = (c' = c\<lparr>rd_buf := rd_buf c', arriving := arriving c'\<rparr>)"

lemma only_read_refl [simp]: "only_read c c"
  by (simp add: only_read_def)

lemma only_readI [simp]: "only_read c (c\<lparr>rd_buf := b\<rparr>)" "only_read c (c\<lparr>arriving := ps\<rparr>)" "only_read c (c\<lparr>arriving := ps, rd_buf := b\<rparr>)"
  by (cases c; simp add: only_read_def)+

lemma only_read_trans: "only_read c c' \<Longrightarrow> only_read c' c'' \<Longrightarrow> only_read c c''"
  by (cases c; cases c'; cases c'') (simp add: only_read_def)

lemma only_read_fields:
  "only_read c c' \<Longrightarrow> shut c' = shut c \<and> wire c' = wire c \<and> room c' = room c \<and> bw_buf c' = bw_buf c \<and> bw_err c' = bw_err c \<and>
     Inited c' = Inited c \<and> pooled c' = pooled c \<and> usedAt c' = usedAt c \<and> createdAt c' = createdAt c \<and> rd_end c' = rd_end c"
  by (cases c; cases c') (simp add: only_read_def)

lemma holds_later: "holds [] (ps @ later) c \<Longrightarrow> holds (concat ps) later c"
  by (auto simp: holds_def)

lemma holds_drained: "holds [] later c \<Longrightarrow> Buffered c = 0"
  by (auto simp: holds_def Buffered_def)

lemma next_piece_append: "concat ps \<noteq> [] \<Longrightarrow> \<exists>p qs. next_piece (ps @ later) = Some (p, qs @ later) \<and> p \<noteq> [] \<and> concat ps = p @ concat qs"
  by (induction ps) auto

lemma net_read_holds:
  assumes "arriving c = ps @ later" "concat ps \<noteq> []" "0 < k" "\<not> shut c"
  shows "\<exists>p qs. net_read k c = (Inr p, c\<lparr>arriving := qs @ later\<rparr>) \<and> p \<noteq> [] \<and> length p \<le> k \<and> concat ps = p @ concat qs"
proof -
  obtain p qs where p: "next_piece (ps @ later) = Some (p, qs @ later)" "p \<noteq> []" "concat ps = p @ concat qs"
    using next_piece_append[OF assms(2)] by blast
  then show ?thesis
    using assms by (cases "length p \<le> k") (auto simp: net_read_def intro: exI[of _ qs] exI[of _ "drop k p # qs"])
qed

lemma rd_fill_holds:
  assumes "holds u later c" "rd_buf c \<noteq> u" "length (rd_buf c) < rd_size" "\<not> shut c"
  shows "\<exists>c'. rd_fill c = (None, c') \<and> holds u later c' \<and> only_read c c'"
proof -
  obtain ps where ps: "arriving c = ps @ later" "rd_buf c @ concat ps = u" using assms(1) by (auto simp: holds_def)
  then have "concat ps \<noteq> []" using assms(2) by auto
  from net_read_holds[OF ps(1) this, of "rd_size - length (rd_buf c)"] assms(3,4)
  obtain p qs where p: "net_read (rd_size - length (rd_buf c)) c = (Inr p, c\<lparr>arriving := qs @ later\<rparr>)"
    "length p \<le> rd_size - length (rd_buf c)" "concat ps = p @ concat qs" by auto
  then show ?thesis using ps(2) assms(3)
    by (auto simp: rd_fill_def holds_def)
qed

lemma line_split:
  "d \<notin> set l \<Longrightarrow> takeWhile (\<lambda>b. b \<noteq> d) (l @ d # rest) = l" "d \<notin> set l \<Longrightarrow> dropWhile (\<lambda>b. b \<noteq> d) (l @ d # rest) = d # rest"
  by (induction l) auto

lemma ReadSlice_line:
  assumes "holds (l @ d # rest) later c" "d \<notin> set l" "length l < rd_size" "\<not> shut c"
  shows "\<exists>c'. ReadSlice d c = (Inr (l @ [d]), c') \<and> holds rest later c' \<and> only_read c c'"
  using assms
proof (induction d c rule: ReadSlice.induct)
  case (1 d c)
  obtain ps where ps: "arriving c = ps @ later" "rd_buf c @ concat ps = l @ d # rest" "length (rd_buf c) \<le> rd_size"
    using "1.prems"(1) by (auto simp: holds_def)
  have split: "takeWhile (\<lambda>b. b \<noteq> d) (rd_buf c @ concat ps) = l" "dropWhile (\<lambda>b. b \<noteq> d) (rd_buf c @ concat ps) = d # rest"
    using line_split[OF "1.prems"(2), of rest] ps(2) by simp_all
  show ?case
  proof (cases "d \<in> set (rd_buf c)")
    case True
    then have "takeWhile (\<lambda>b. b \<noteq> d) (rd_buf c) = l" "dropWhile (\<lambda>b. b \<noteq> d) (rd_buf c) @ concat ps = d # rest"
      using split by (simp_all add: takeWhile_append1 dropWhile_append1)
    moreover have "dropWhile (\<lambda>b. b \<noteq> d) (rd_buf c) \<noteq> []" using True by (simp add: dropWhile_eq_Nil_conv)
    moreover have "length (dropWhile (\<lambda>b. b \<noteq> d) (rd_buf c)) \<le> rd_size" using ps(3) length_dropWhile_le le_trans by blast
    ultimately show ?thesis using True ps(1)
      by (cases "dropWhile (\<lambda>b. b \<noteq> d) (rd_buf c)") (auto simp: ReadSlice.simps[of d c] holds_def)
  next
    case False
    then have "rd_buf c @ takeWhile (\<lambda>b. b \<noteq> d) (concat ps) = l" using split(1) by (subst (asm) takeWhile_append2) auto
    then have short: "length (rd_buf c) < rd_size" using "1.prems"(3) by auto
    moreover have "rd_buf c \<noteq> l @ d # rest" using False by auto
    ultimately obtain c' where c': "rd_fill c = (None, c')" "holds (l @ d # rest) later c'" "only_read c c'"
      using rd_fill_holds[OF "1.prems"(1)] "1.prems"(4) by blast
    then have "\<not> shut c'" using "1.prems"(4) by (simp add: only_read_fields)
    then obtain c'' where "ReadSlice d c' = (Inr (l @ [d]), c'')" "holds rest later c''" "only_read c' c''"
      using "1.IH"[OF False _ c'(1)[symmetric] refl c'(2) "1.prems"(2,3)] short by auto
    then show ?thesis using False short c' by (auto simp: ReadSlice.simps[of d c] intro: only_read_trans)
  qed
qed

lemma bufio_Read_holds:
  assumes "holds u later c" "u \<noteq> []" "0 < k" "\<not> shut c"
  shows "\<exists>p v c'. bufio_Read k c = (Inr p, c') \<and> p \<noteq> [] \<and> length p \<le> k \<and> u = p @ v \<and> holds v later c' \<and> only_read c c'"
proof -
  obtain ps where ps: "arriving c = ps @ later" "rd_buf c @ concat ps = u" "length (rd_buf c) \<le> rd_size"
    using assms(1) by (auto simp: holds_def)
  show ?thesis
  proof (cases "rd_buf c = []")
    case False
    have "u = take k (rd_buf c) @ drop k (rd_buf c) @ concat ps" using ps(2) by (simp flip: append_assoc)
    moreover have "holds (drop k (rd_buf c) @ concat ps) later (c\<lparr>rd_buf := drop k (rd_buf c)\<rparr>)" using ps(1,3) by (auto simp: holds_def)
    ultimately show ?thesis using False assms(3) by (auto simp: bufio_Read_def)
  next
    case True
    define n where "n = (if rd_size \<le> k then k else rd_size)"
    have "0 < n" "concat ps \<noteq> []" using assms(2,3) ps(2) True by (auto simp: n_def rd_size_def)
    then obtain p qs where p: "net_read n c = (Inr p, c\<lparr>arriving := qs @ later\<rparr>)" "p \<noteq> []" "length p \<le> n" "concat ps = p @ concat qs"
      using net_read_holds[OF ps(1)] assms(4) by blast
    have "holds (drop k p @ concat qs) later (c\<lparr>arriving := qs @ later, rd_buf := drop k p\<rparr>)"
      using p(3) True by (auto simp: holds_def n_def split: if_splits)
    moreover have "holds (concat qs) later (c\<lparr>arriving := qs @ later\<rparr>)" using True by (auto simp: holds_def)
    moreover have "u = take k p @ drop k p @ concat qs" using ps(2) p(4) True by (simp flip: append_assoc)
    ultimately show ?thesis using True p assms(3) by (auto simp: bufio_Read_def n_def split: if_splits)
  qed
qed

lemma read_full_holds:
  assumes "holds (b @ rest) later c" "length b = k" "\<not> shut c"
  shows "\<exists>c'. read_full k got c = (Inr (got @ b), c') \<and> holds rest later c' \<and> only_read c c'"
  using assms
proof (induction k got c arbitrary: b rule: read_full.induct)
  case (1 k got c)
  show ?case
  proof (cases "k = 0")
    case False
    with "1.prems" obtain p v c' where p: "bufio_Read k c = (Inr p, c')" "length p \<le> k" "b @ rest = p @ v" "holds v later c'" "only_read c c'"
      using bufio_Read_holds[OF "1.prems"(1), of k] by fastforce
    then have b: "b = p @ drop (length p) b" "v = drop (length p) b @ rest"
      using "1.prems"(2) by (auto simp: append_eq_append_conv2)
    have "\<not> shut c'" using "1.prems"(3) p(5) by (simp add: only_read_fields)
    with "1.IH"[OF False p(1)[symmetric] refl, of "drop (length p) b"] p(4) b "1.prems"(2)
    obtain c'' where "read_full (k - length p) (got @ p) c' = (Inr ((got @ p) @ drop (length p) b), c'')" "holds rest later c''" "only_read c' c''"
      by auto
    with False p(1,5) b(1) show ?thesis by (subst read_full.simps) (auto intro: only_read_trans)
  qed (use "1.prems" in \<open>simp add: read_full.simps[of 0]\<close>)
qed

section \<open>Replies\<close>

text \<open>What \<^verbatim>\<open>ReadString\<close> and \<^verbatim>\<open>ReadIntReply\<close> are to return for a reply, and the replies they can read: a line fits the buffer.\<close>

fun string_of_reply :: "reply \<Rightarrow> gerr + string" where
  "string_of_reply (SimpleStr s) = Inr s"
| "string_of_reply (ErrorReply s) = Inl (GRedis s)"
| "string_of_reply (IntReply i) = Inr (Itoa i)"
| "string_of_reply (BulkStr s) = Inr s"
| "string_of_reply NilReply = Inl redis_Nil"
| "string_of_reply (ArrayReply rs) = Inl (GReply (CHR ''*'' # nat_str (length rs)))"

fun readable :: "reply \<Rightarrow> bool" where
  "readable (SimpleStr s) = (CHR 0x0A \<notin> set s \<and> length s + 3 \<le> rd_size)"
| "readable (ErrorReply s) = (CHR 0x0A \<notin> set s \<and> length s + 3 \<le> rd_size)"
| "readable (IntReply i) = in_int64 i"
| "readable (BulkStr s) = (int (length s) + 2 \<le> maxAlloc)"
| "readable NilReply = True"
| "readable (ArrayReply rs) = False"

lemma length_nat_str: "n < 10 ^ Suc k \<Longrightarrow> length (nat_str n) \<le> Suc k"
proof (induction k arbitrary: n)
  case 0
  then show ?case by (simp add: nat_str.simps[of n])
next
  case (Suc k)
  then have "n div 10 < 10 ^ Suc k" by (simp add: less_mult_imp_div_less)
  from Suc.IH[OF this] show ?case by (simp add: nat_str.simps[of n])
qed

lemma length_Itoa: "in_int64 i \<Longrightarrow> length (Itoa i) \<le> 20"
proof -
  assume i: "in_int64 i"
  then have "nat i < 10 ^ Suc 18" "nat (- i) < 10 ^ Suc 18" by (auto simp: in_int64_def)
  from this[THEN length_nat_str] show ?thesis by (simp add: Itoa_def)
qed

lemma proto_readLine_line:
  assumes "holds (line @ crlf @ rest) later c" "CHR 0x0A \<notin> set line" "line \<noteq> []" "length line + 2 \<le> rd_size" "\<not> shut c"
  shows "\<exists>c'. proto_readLine c = (Inr line, c') \<and> holds rest later c' \<and> only_read c c'"
proof -
  obtain c' where "ReadSlice (CHR 0x0A) c = (Inr ((line @ [CHR 0x0D]) @ [CHR 0x0A]), c')" "holds rest later c'" "only_read c c'"
    using ReadSlice_line[of "line @ [CHR 0x0D]" "CHR 0x0A" rest later c] assms by (auto simp: crlf_def)
  moreover have "0 < length line" using assms(3) by simp
  ultimately show ?thesis by (simp add: proto_readLine_def nth_append)
qed

lemma ReadLine_line:
  assumes "holds (line @ crlf @ rest) later c" "CHR 0x0A \<notin> set line" "line \<noteq> []" "length line + 2 \<le> rd_size" "\<not> shut c"
  shows "\<exists>c'. ReadLine c = (if isNilReply line then Inl redis_Nil else Inr line, c') \<and> holds rest later c' \<and> only_read c c'"
  using proto_readLine_line[OF assms] by (auto simp: ReadLine_def)

lemma not_nil_reply: "isNilReply (k # l) \<Longrightarrow> (k = CHR ''$'' \<or> k = CHR ''*'') \<and> l = ''-1''"
  by (cases l; cases "tl l") (auto simp: isNilReply_def)

lemma readStringReply_bulk:
  assumes "holds (s @ crlf @ rest) later c" "int (length s) + 2 \<le> maxAlloc" "\<not> shut c"
  shows "\<exists>c'. readStringReply (CHR ''$'' # nat_str (length s)) c = Some (Inr s, c') \<and> holds rest later c' \<and> only_read c c'"
proof -
  have "\<not> isNilReply (CHR ''$'' # nat_str (length s))" using not_nil_reply nat_str_not_sign by fastforce
  moreover have "Atoi (nat_str (length s)) = Some (int (length s))"
    using Atoi_Itoa[of "int (length s)"] assms(2) by (simp add: Itoa_def in_int64_def maxAlloc_def)
  moreover obtain c' where "bufio_ReadFull (length s + 2) c = (Inr (s @ crlf), c')" "holds rest later c'" "only_read c c'"
    using read_full_holds[of "s @ crlf" rest later c "length s + 2" "[]"] assms(1,3) by (auto simp: bufio_ReadFull_def crlf_def)
  moreover have "nat (int (length s) + 2) = length s + 2" by simp
  ultimately show ?thesis using assms(2) by (simp add: readStringReply_def parse_int64_def)
qed

lemma ReadString_reply:
  assumes "holds (reply_bytes r @ rest) later c" "readable r" "\<not> shut c"
  shows "\<exists>c'. ReadString c = Some (string_of_reply r, c') \<and> holds rest later c' \<and> only_read c c'"
proof (cases r)
  case (SimpleStr s)
  then show ?thesis using ReadLine_line[of "CHR ''+'' # s" rest later c] assms not_nil_reply[of "CHR ''+''" s]
    by (auto simp: ReadString_def)
next
  case (ErrorReply s)
  then show ?thesis using ReadLine_line[of "CHR ''-'' # s" rest later c] assms not_nil_reply[of "CHR ''-''" s]
    by (auto simp: ReadString_def ParseErrorReply_def)
next
  case (IntReply i)
  then show ?thesis using ReadLine_line[of "CHR '':'' # Itoa i" rest later c] assms not_nil_reply[of "CHR '':''" "Itoa i"] Itoa_no_newline[of i] length_Itoa[of i]
    by (auto simp: ReadString_def rd_size_def)
next
  case (BulkStr s)
  let ?l = "CHR ''$'' # nat_str (length s)"
  have "length s < 10 ^ Suc 14" using assms(2) BulkStr by (simp add: maxAlloc_def)
  from length_nat_str[OF this] obtain c' where c': "ReadLine c = (Inr ?l, c')" "holds (s @ crlf @ rest) later c'" "only_read c c'"
    using ReadLine_line[of ?l "s @ crlf @ rest" later c] assms not_nil_reply[of "CHR ''$''" "nat_str (length s)"] nat_str_not_sign[of "length s"] nat_str_no_newline[of "length s"] BulkStr
    by (auto simp: rd_size_def split: if_splits)
  moreover have "\<not> shut c'" using c'(3) assms(3) by (simp add: only_read_fields)
  ultimately show ?thesis using readStringReply_bulk[of s rest later c'] assms(2) BulkStr
    by (auto simp: ReadString_def intro: only_read_trans)
next
  case NilReply
  then show ?thesis using ReadLine_line[of "''$-1''" rest later c] assms
    by (auto simp: ReadString_def isNilReply_def rd_size_def)
next
  case (ArrayReply rs)
  with assms(2) show ?thesis by simp
qed

lemma ReadIntReply_int:
  assumes "holds (reply_bytes (IntReply i) @ rest) later c" "in_int64 i" "\<not> shut c"
  shows "\<exists>c'. ReadIntReply c = Some (Inr i, c') \<and> holds rest later c' \<and> only_read c c'"
  using ReadLine_line[of "CHR '':'' # Itoa i" rest later c] assms not_nil_reply[of "CHR '':''" "Itoa i"] Itoa_no_newline[of i] length_Itoa[of i]
  by (auto simp: ReadIntReply_def rd_size_def parse_int64_def Atoi_Itoa)

lemma ReadIntReply_error:
  assumes "holds (reply_bytes (ErrorReply s) @ rest) later c" "readable (ErrorReply s)" "\<not> shut c"
  shows "\<exists>c'. ReadIntReply c = Some (Inl (GRedis s), c') \<and> holds rest later c' \<and> only_read c c'"
  using ReadLine_line[of "CHR ''-'' # s" rest later c] assms not_nil_reply[of "CHR ''-''" s]
  by (auto simp: ReadIntReply_def ParseErrorReply_def)

text \<open>
  C28. However the network cuts the bytes of a reply into pieces, \<^verbatim>\<open>ReadString\<close> returns what the reply means -- the text of a status, an integer or a bulk string,
  the server's message of an error, \<^verbatim>\<open>redis.Nil\<close> for a missing value -- and \<^verbatim>\<open>ReadIntReply\<close> the integer; both take exactly the bytes of the
  reply: what arrives later stays.
\<close>

theorem reply_read_exactly:
  assumes "holds (reply_bytes r @ rest) later c" "readable r" "\<not> shut c"
  shows "(\<exists>c'. ReadString c = Some (string_of_reply r, c') \<and> holds rest later c' \<and> only_read c c') \<and>
    (case r of IntReply i \<Rightarrow> \<exists>c'. ReadIntReply c = Some (Inr i, c') \<and> holds rest later c' \<and> only_read c c' | _ \<Rightarrow> True)"
  using ReadString_reply[OF assms] ReadIntReply_int[of _ rest later c] assms by (cases r) auto

theorem reply_read_exactly_witness:
  "\<exists>c'. ReadString (pool_NewConn 0 (0, [''$2'', crlf @ ''h'', ''i'' @ crlf @ ''+'', ''later''], GEOF)) = Some (Inr ''hi'', c') \<and> holds ''+'' [''later''] c'"
proof -
  have two: "reply_bytes (BulkStr ''hi'') = ''$2'' @ crlf @ ''hi'' @ crlf" by code_simp
  let ?c = "pool_NewConn 0 (0, [''$2'', crlf @ ''h'', ''i'' @ crlf @ ''+'', ''later''], GEOF)"
  have "holds (reply_bytes (BulkStr ''hi'') @ ''+'') [''later''] ?c" unfolding two holds_def
    by (rule exI[of _ "[''$2'', crlf @ ''h'', ''i'' @ crlf @ ''+'']"]) (simp add: pool_NewConn_def)
  then show ?thesis using reply_read_exactly[of "BulkStr ''hi''" "''+''" "[''later'']" ?c] by (auto simp: pool_NewConn_def maxAlloc_def)
qed

section \<open>Deadlines, writing and flushing together\<close>

definition conn_ready :: "gconn \<Rightarrow> bool" where
  "conn_ready c = (\<not> shut c \<and> bw_buf c = [] \<and> bw_err c = None)"

lemma wr_ready_conn_ready: "conn_ready c \<Longrightarrow> wr_ready c"
  by (simp add: conn_ready_def wr_ready_def)

lemma sent_flushed:
  assumes "wr_sent s c c'" "conn_ready c"
  shows "bw_flush c' = c\<lparr>wire := wire c @ s, room := room c - length s\<rparr>"
proof -
  have r: "wr_ready c'" using assms(1) by (simp add: wr_sent_def)
  have f: "wr_sent s c (bw_flush c')" "bw_buf (bw_flush c') = []" using sent_trans[OF assms(1), of "[]"] sent_flush[OF r] by simp_all
  then have "wire (bw_flush c') = wire c @ s" "bw_err (bw_flush c') = None" "\<not> shut (bw_flush c')"
    "room (bw_flush c') + length (wire (bw_flush c')) = room c + length (wire c)" "bsock.more (bw_flush c') = bsock.more c"
    using assms(2) by (auto simp: wr_sent_def wr_ready_def conn_ready_def)
  then show ?thesis using f(2) assms(2) by (cases c; cases "bw_flush c'") (auto simp: conn_ready_def)
qed

lemma WithWriter_ok:
  assumes "writes f s" "conn_ready c" "length s \<le> room c"
  shows "WithWriter t f c = (None, (SetUsedAt t c)\<lparr>wire := wire c @ s, room := room c - length s\<rparr>)"
proof -
  let ?c = "SetUsedAt t c"
  have c: "conn_ready ?c" "room ?c = room c" "wire ?c = wire c" using assms(2) by (simp_all add: SetUsedAt_def conn_ready_def)
  have "wr_ready ?c" "length (bw_buf ?c @ s) \<le> room ?c"
    using wr_ready_conn_ready[OF c(1)] assms(3) c by (simp_all add: conn_ready_def)
  then obtain c' where "f ?c = (None, c')" "wr_sent s ?c c'" using assms(1) unfolding writes_def by blast
  with sent_flushed[OF _ c(1)] c show ?thesis
    by (auto simp: WithWriter_def and_then_def wr_status_def conn_ready_def Let_def)
qed

section \<open>No operation closes a connection\<close>

text \<open>Whatever the outcome, an operation on a connection leaves its socket as it is and its place in the pool.\<close>

definition stays :: "gconn \<Rightarrow> gconn \<Rightarrow> bool" where
  "stays c c' = (shut c' = shut c \<and> pooled c' = pooled c)"

definition keeps :: "(gconn \<Rightarrow> gerr option \<times> gconn) \<Rightarrow> bool" where
  "keeps f = (\<forall>c. stays c (snd (f c)))"

named_theorems stays_rules

lemma stays_refl [simp]: "stays c c"
  by (simp add: stays_def)

lemma stays_trans: "stays c c' \<Longrightarrow> stays c' c'' \<Longrightarrow> stays c c''"
  by (simp add: stays_def)

lemma stays_fields [simp]: "stays c (c\<lparr>rd_buf := b\<rparr>)" "stays c (c\<lparr>arriving := ps\<rparr>)" "stays c (SetUsedAt t c)" "stays c (c\<lparr>Inited := i\<rparr>)" "stays c (bw_Reset c)"
  by (simp_all add: stays_def SetUsedAt_def bw_Reset_def)

lemma stays_more: "bsock.more c' = bsock.more c \<Longrightarrow> shut c' = shut c \<Longrightarrow> stays c c'"
  by (cases c; cases c') (simp add: stays_def)

lemma keeps_write [stays_rules]: "keeps (wr_WriteByte b)" "keeps (wr_Write p)"
  using bw_Write_more by (auto simp: keeps_def wr_WriteByte_def wr_Write_def wr_status_def intro!: stays_more)

lemma keeps_and_then: "keeps f \<Longrightarrow> keeps g \<Longrightarrow> stays c (snd (and_then (f c) g))"
  unfolding keeps_def and_then_def by (auto split: prod.splits option.splits) (metis snd_conv stays_trans)+

lemma keeps_seq [stays_rules]: "keeps f \<Longrightarrow> keeps g \<Longrightarrow> keeps (\<lambda>c. and_then (f c) g)"
  unfolding keeps_def[of "\<lambda>c. and_then (f c) g"] by (blast intro: keeps_and_then)

lemma keeps_bytes [stays_rules]: "keeps (wr_bytes b)"
  unfolding wr_bytes_def[abs_def] wr_crlf_def[abs_def] wr_writeLen_def[abs_def] by (intro stays_rules)

lemma keeps_arg: "keeps (wr_writeArg a)"
  using keeps_bytes by (cases a) (auto simp: keeps_def wr_string_def wr_int_def wr_uint_def wr_float_def split: sum.split)

lemma keeps_args: "keeps (wr_args as)"
proof (induction as)
  case (Cons a as)
  then show ?case unfolding keeps_def[of "wr_args (a # as)"] by (simp add: keeps_and_then keeps_arg)
qed (simp add: keeps_def)

lemma keeps_WriteArgs [stays_rules]: "keeps (WriteArgs as)"
  unfolding WriteArgs_def[abs_def] wr_writeLen_def[abs_def] by (intro stays_rules keeps_args)

lemma WithWriter_stays: "keeps f \<Longrightarrow> stays c (snd (WithWriter t f c))"
proof -
  assume f: "keeps f"
  have k: "keeps (\<lambda>c. wr_status (bw_flush c))" by (auto simp: keeps_def wr_status_def intro: stays_more)
  let ?d = "if bw_buf (SetUsedAt t c) \<noteq> [] then bw_Reset (SetUsedAt t c) else SetUsedAt t c"
  have "stays c ?d" using stays_trans[OF stays_fields(3) stays_fields(5)] by simp
  with stays_trans keeps_and_then[OF f k] show ?thesis by (auto simp: WithWriter_def Let_def)
qed

lemma only_read_stays: "only_read c c' \<Longrightarrow> stays c c'"
  by (simp add: stays_def only_read_fields)

lemma net_read_only: "only_read c (snd (net_read k c))"
  by (simp add: net_read_def split: option.split prod.split)

lemma rd_fill_only: "only_read c (snd (rd_fill c))"
  using net_read_only[of c "rd_size - length (rd_buf c)"]
  by (auto simp: rd_fill_def split: prod.splits sum.splits intro: only_read_trans)

lemma ReadSlice_only: "only_read c (snd (ReadSlice d c))"
proof (induction d c rule: ReadSlice.induct)
  case (1 d c)
  have "only_read c c'" if "rd_fill c = (e, c')" for e c' using rd_fill_only[of c] that by simp
  with 1 show ?case by (auto simp: ReadSlice.simps[of d c] split: option.splits prod.splits intro: only_read_trans)
qed

lemma bufio_Read_only: "only_read c (snd (bufio_Read k c))"
  using net_read_only[of c k] net_read_only[of c rd_size]
  by (auto simp: bufio_Read_def split: prod.splits sum.splits intro: only_read_trans)

lemma read_full_only: "only_read c (snd (read_full k got c))"
proof (induction k got c rule: read_full.induct)
  case (1 k got c)
  have "only_read c c'" if "bufio_Read k c = (r, c')" for r c' using bufio_Read_only[of c k] that by simp
  with 1 show ?case by (auto simp: read_full.simps[of k got c] split: sum.splits prod.splits intro: only_read_trans)
qed

lemma ReadLine_only: "only_read c (snd (ReadLine c))"
  using ReadSlice_only[of c "CHR 0x0A"] by (auto simp: ReadLine_def proto_readLine_def split: prod.splits sum.splits)

lemma readStringReply_only: "readStringReply l c = Some (r, c') \<Longrightarrow> only_read c c'"
  using read_full_only[of c _ "[]"]
  by (auto simp: readStringReply_def bufio_ReadFull_def split: if_splits sum.splits prod.splits) (metis snd_conv)+

lemma ReadString_only: "ReadString c = Some (r, c') \<Longrightarrow> only_read c c'"
  using ReadLine_only[of c]
  by (auto simp: ReadString_def split: prod.splits sum.splits if_splits dest: readStringReply_only intro: only_read_trans)

lemma ReadIntReply_only: "ReadIntReply c = Some (r, c') \<Longrightarrow> only_read c c'"
  using ReadLine_only[of c] by (auto simp: ReadIntReply_def split: prod.splits sum.splits if_splits)

end
