(* ===== verification/Goredis_Pool.thy ===== *)
theory Goredis_Pool
  imports Goredis_Proto "HOL-Library.Multiset"
begin

text \<open>
  The connection pool of the second redis client (\<^verbatim>\<open>go-redis\<close>, \<^verbatim>\<open>internal/pool/pool.go\<close>) and the pool of one connection
  (\<^verbatim>\<open>internal/pool/pool_single.go\<close>) it sets a connection up through.  A connection is a position in \<open>gstore\<close>, which keeps every
  connection ever dialled.  The channel \<^verbatim>\<open>queue\<close> is the number of turns taken.  \<open>gdials\<close> is what the next dials yield, a
  dial past its end timing out; the clock \<open>gnow\<close> counts nanoseconds and stands still during an operation.  \<^verbatim>\<open>MinIdleConns\<close> is zero, as the
  program leaves it, so \<^verbatim>\<open>checkMinIdleConns\<close> returns at once.
\<close>

record gpool =
  PoolSize :: nat
  IdleTimeout_opt :: int
  MaxConnAge :: int
  dialErrorsNum :: nat
  lastDialError :: "gerr option"
  queue :: nat
  gconns :: "nat list"
  idleConns :: "nat list"
  poolSize :: int
  idleConnsLen :: int
  st_Hits :: "32 word"
  st_Misses :: "32 word"
  st_Timeouts :: "32 word"
  st_StaleConns :: "32 word"
  gpool_closed :: bool
  tryDialing :: bool
  gstore :: "gconn list"
  gdials :: "(gerr + netConn) list"
  gnow :: int

definition NewConnPool :: "nat \<Rightarrow> int \<Rightarrow> int \<Rightarrow> (gerr + netConn) list \<Rightarrow> int \<Rightarrow> gpool" where
  "NewConnPool sz idle age ds now =
     \<lparr>PoolSize = sz, IdleTimeout_opt = idle, MaxConnAge = age, dialErrorsNum = 0, lastDialError = None, queue = 0, gconns = [], idleConns = [],
      poolSize = 0, idleConnsLen = 0, st_Hits = 0, st_Misses = 0, st_Timeouts = 0, st_StaleConns = 0, gpool_closed = False, tryDialing = False,
      gstore = [], gdials = ds, gnow = now\<rparr>"

definition gconn_at :: "gpool \<Rightarrow> nat \<Rightarrow> gconn" where
  "gconn_at p a = gstore p ! a"

definition set_gconn :: "nat \<Rightarrow> gconn \<Rightarrow> gpool \<Rightarrow> gpool" where
  "set_gconn a c p = p\<lparr>gstore := (gstore p)[a := c]\<rparr>"

section \<open>Dialling\<close>

definition Dialer :: "gpool \<Rightarrow> (gerr + netConn) \<times> gpool" where
  "Dialer p = (case gdials p of [] \<Rightarrow> (Inl (GNet True), p) | d # ds \<Rightarrow> (d, p\<lparr>gdials := ds\<rparr>))"

text \<open>When too many dials have failed in a row the last error is returned at once; a goroutine then dials in the background.\<close>

definition dialConn :: "bool \<Rightarrow> gpool \<Rightarrow> (gerr option + nat) \<times> gpool" where
  "dialConn pld p =
     (if gpool_closed p then (Inl (Some GErrClosed), p)
      else if PoolSize p \<le> dialErrorsNum p then (Inl (lastDialError p), p)
      else case Dialer p of
             (Inl e, p1) \<Rightarrow>
               (let n = dialErrorsNum p1 + 1
                in (Inl (Some e), p1\<lparr>lastDialError := Some e, dialErrorsNum := n, tryDialing := tryDialing p1 \<or> n = PoolSize p1\<rparr>))
           | (Inr s, p1) \<Rightarrow>
               (Inr (length (gstore p1)), p1\<lparr>gstore := gstore p1 @ [(pool_NewConn (gnow p1) s)\<lparr>pooled := pld\<rparr>]\<rparr>))"

text \<open>A round of the background goroutine.\<close>

definition tryDial_round :: "gpool \<Rightarrow> gpool" where
  "tryDial_round p =
     (if gpool_closed p then p\<lparr>tryDialing := False\<rparr>
      else case Dialer p of
             (Inl e, p1) \<Rightarrow> p1\<lparr>lastDialError := Some e\<rparr>
           | (Inr s, p1) \<Rightarrow> p1\<lparr>dialErrorsNum := 0, tryDialing := False\<rparr>)"

text \<open>A nil connection without an error, which a pool of no connections gets, is dereferenced: a panic.\<close>

definition pool_newConn :: "bool \<Rightarrow> gpool \<Rightarrow> ((gerr + nat) \<times> gpool) option" where
  "pool_newConn pld p =
     (case dialConn pld p of
        (Inl None, p1) \<Rightarrow> None
      | (Inl (Some e), p1) \<Rightarrow> Some (Inl e, p1)
      | (Inr a, p1) \<Rightarrow>
          (let p2 = p1\<lparr>gconns := gconns p1 @ [a]\<rparr>
           in Some (Inr a,
                if \<not> pld then p2
                else if int (PoolSize p2) \<le> poolSize p2 then set_gconn a ((gconn_at p2 a)\<lparr>pooled := False\<rparr>) p2
                else p2\<lparr>poolSize := poolSize p2 + 1\<rparr>)))"

section \<open>Taking connections out and putting them back\<close>

definition removeConn :: "nat \<Rightarrow> gpool \<Rightarrow> gpool" where
  "removeConn a p =
     (if a \<in> set (gconns p)
      then p\<lparr>gconns := remove1 a (gconns p), poolSize := (if pooled (gconn_at p a) then poolSize p - 1 else poolSize p)\<rparr>
      else p)"

definition pool_closeConn :: "nat \<Rightarrow> gpool \<Rightarrow> gerr option \<times> gpool" where
  "pool_closeConn a p = (case Conn_Close (gconn_at p a) of (e, c) \<Rightarrow> (e, set_gconn a c p))"

definition CloseConn :: "nat \<Rightarrow> gpool \<Rightarrow> gerr option \<times> gpool" where
  "CloseConn a p = pool_closeConn a (removeConn a p)"

definition waitTurn :: "gpool \<Rightarrow> gerr option \<times> gpool" where
  "waitTurn p =
     (if queue p < PoolSize p then (None, p\<lparr>queue := queue p + 1\<rparr>)
      else (Some GPoolTimeout, p\<lparr>st_Timeouts := st_Timeouts p + 1\<rparr>))"

definition freeTurn :: "gpool \<Rightarrow> gpool" where
  "freeTurn p = p\<lparr>queue := queue p - 1\<rparr>"

definition popIdle :: "gpool \<Rightarrow> nat option \<times> gpool" where
  "popIdle p =
     (if idleConns p = [] then (None, p)
      else (Some (last (idleConns p)), p\<lparr>idleConns := butlast (idleConns p), idleConnsLen := idleConnsLen p - 1\<rparr>))"

definition isStaleConn :: "gpool \<Rightarrow> nat \<Rightarrow> bool" where
  "isStaleConn p a =
     (if IdleTimeout_opt p = 0 \<and> MaxConnAge p = 0 then False
      else if 0 < IdleTimeout_opt p \<and> IdleTimeout_opt p \<le> gnow p - usedAt (gconn_at p a) * nanos then True
      else if 0 < MaxConnAge p \<and> MaxConnAge p \<le> gnow p - createdAt (gconn_at p a) then True
      else False)"

definition pool_Remove :: "nat \<Rightarrow> gpool \<Rightarrow> gpool" where
  "pool_Remove a p = snd (pool_closeConn a (freeTurn (removeConn a p)))"

text \<open>The loop of \<^verbatim>\<open>Get\<close> over the idle connections, the youngest first: a stale one is closed, the first that is not is taken.\<close>

lemma idleConns_CloseConn [simp]: "idleConns (snd (CloseConn a p)) = idleConns p"
  by (simp add: CloseConn_def pool_closeConn_def set_gconn_def removeConn_def split: prod.splits)

function get_idle :: "gpool \<Rightarrow> nat option \<times> gpool" where
  "get_idle p =
     (case popIdle p of
        (None, p1) \<Rightarrow> (None, p1)
      | (Some a, p1) \<Rightarrow>
          if isStaleConn p1 a then get_idle (snd (CloseConn a p1))
          else (Some a, p1\<lparr>st_Hits := st_Hits p1 + 1\<rparr>))"
  by pat_completeness auto

termination by (relation "measure (\<lambda>p. length (idleConns p))") (auto simp: popIdle_def split: if_splits)

declare get_idle.simps [simp del]

definition Pool_Get :: "gpool \<Rightarrow> ((gerr + nat) \<times> gpool) option" where
  "Pool_Get p =
     (if gpool_closed p then Some (Inl GErrClosed, p)
      else case waitTurn p of
             (Some e, p1) \<Rightarrow> Some (Inl e, p1)
           | (None, p1) \<Rightarrow>
               (case get_idle p1 of
                  (Some a, p2) \<Rightarrow> Some (Inr a, p2)
                | (None, p2) \<Rightarrow>
                    (case pool_newConn True (p2\<lparr>st_Misses := st_Misses p2 + 1\<rparr>) of
                       None \<Rightarrow> None
                     | Some (Inl e, p3) \<Rightarrow> Some (Inl e, freeTurn p3)
                     | Some (Inr a, p3) \<Rightarrow> Some (Inr a, p3))))"

definition Pool_Put :: "nat \<Rightarrow> gpool \<Rightarrow> gpool" where
  "Pool_Put a p =
     (if 0 < Buffered (gconn_at p a) then pool_Remove a p
      else if \<not> pooled (gconn_at p a) then pool_Remove a p
      else freeTurn (p\<lparr>idleConns := idleConns p @ [a], idleConnsLen := idleConnsLen p + 1\<rparr>))"

definition Pool_Len :: "gpool \<Rightarrow> int" where
  "Pool_Len p = int (length (gconns p))"

definition Pool_IdleLen :: "gpool \<Rightarrow> int" where
  "Pool_IdleLen p = idleConnsLen p"

section \<open>Closing and reaping\<close>

fun close_conns :: "nat list \<Rightarrow> gerr option \<Rightarrow> gpool \<Rightarrow> gerr option \<times> gpool" where
  "close_conns [] firstErr p = (firstErr, p)"
| "close_conns (a # as) firstErr p =
     (case pool_closeConn a p of (e, p1) \<Rightarrow> close_conns as (if firstErr = None then e else firstErr) p1)"

definition Pool_Close :: "gpool \<Rightarrow> gerr option \<times> gpool" where
  "Pool_Close p =
     (if gpool_closed p then (Some GErrClosed, p)
      else case close_conns (gconns p) None (p\<lparr>gpool_closed := True\<rparr>) of
             (e, p1) \<Rightarrow> (e, p1\<lparr>gconns := [], poolSize := 0, idleConns := [], idleConnsLen := 0\<rparr>))"

definition reapStaleConn :: "gpool \<Rightarrow> nat option \<times> gpool" where
  "reapStaleConn p =
     (case idleConns p of
        [] \<Rightarrow> (None, p)
      | a # as \<Rightarrow>
          if \<not> isStaleConn p a then (None, p)
          else (Some a, removeConn a (p\<lparr>idleConns := as, idleConnsLen := idleConnsLen p - 1\<rparr>)))"

text \<open>It takes a turn for each step, so it runs when there is one; the number counts the connections closed.\<close>

lemma idleConns_removeConn [simp]: "idleConns (removeConn a p) = idleConns p"
  by (simp add: removeConn_def)

lemma idleConns_closeConn [simp]: "idleConns (snd (pool_closeConn a p)) = idleConns p"
  by (simp add: pool_closeConn_def set_gconn_def split: prod.splits)

function reap_loop :: "nat \<Rightarrow> gpool \<Rightarrow> nat \<times> gpool" where
  "reap_loop n p =
     (case reapStaleConn p of
        (Some a, p1) \<Rightarrow> reap_loop (n + 1) (snd (pool_closeConn a p1))
      | (None, p1) \<Rightarrow> (n, p1))"
  by pat_completeness auto

termination by (relation "measure (\<lambda>(n, p). length (idleConns p))") (auto simp: reapStaleConn_def split: if_splits list.splits)

declare reap_loop.simps [simp del]

definition ReapStaleConns :: "gpool \<Rightarrow> nat \<times> gpool" where
  "ReapStaleConns p = (case reap_loop 0 p of (n, p1) \<Rightarrow> (n, p1\<lparr>st_StaleConns := st_StaleConns p1 + of_nat n\<rparr>))"

section \<open>The pool of one connection\<close>

text \<open>
  As \<^verbatim>\<open>initConn\<close> uses it, over no other pool and with its connection set: the channel holds the connection while nobody has it, and a
  connection given back as bad is never handed out again.
\<close>

record spool =
  s_ch :: "nat option"
  s_bad :: "gerr option"

definition Single_SetConn :: "nat \<Rightarrow> spool" where
  "Single_SetConn a = \<lparr>s_ch = Some a, s_bad = None\<rparr>"

text \<open>Receiving from the empty channel would block: \<^const>\<open>None\<close>.\<close>

definition Single_Get :: "spool \<Rightarrow> ((gerr + nat) \<times> spool) option" where
  "Single_Get sp =
     (case s_bad sp of
        Some e \<Rightarrow> Some (Inl (GBadConn e), sp)
      | None \<Rightarrow> (case s_ch sp of None \<Rightarrow> None | Some a \<Rightarrow> Some (Inr a, sp\<lparr>s_ch := None\<rparr>)))"

definition Single_Put :: "nat \<Rightarrow> spool \<Rightarrow> spool" where
  "Single_Put a sp = sp\<lparr>s_ch := Some a\<rparr>"

definition Single_Remove :: "nat \<Rightarrow> gerr \<Rightarrow> spool \<Rightarrow> spool" where
  "Single_Remove a reason sp = sp\<lparr>s_bad := Some reason, s_ch := Some a\<rparr>"

section \<open>What holds of the pool\<close>

text \<open>
  With the connections \<open>out\<close> handed out: the connections of the pool are exactly the idle ones and those handed out, no more than the
  pool may have; every other connection ever dialled is closed, and after \<^verbatim>\<open>Close\<close> every one.
\<close>

definition g_ok :: "gpool \<Rightarrow> nat list \<Rightarrow> bool" where
  "g_ok p out =
     (distinct (idleConns p @ out) \<and> set (idleConns p @ out) \<subseteq> {..<length (gstore p)} \<and> idleConnsLen p = int (length (idleConns p)) \<and>
      (if gpool_closed p then gconns p = [] \<and> (\<forall>a < length (gstore p). shut (gconn_at p a))
       else mset (gconns p) = mset (idleConns p @ out) \<and> poolSize p = int (length (gconns p)) \<and> length (gconns p) \<le> PoolSize p \<and>
         (\<forall>a \<in> set (gconns p). pooled (gconn_at p a)) \<and> (\<forall>a < length (gstore p). shut (gconn_at p a) \<longleftrightarrow> a \<notin> set (gconns p))))"

definition g_inv :: "gpool \<times> nat list \<Rightarrow> bool" where
  "g_inv = (\<lambda>(p, out). g_ok p out \<and> queue p = length out \<and> length out \<le> PoolSize p)"

text \<open>What an operation leaves alone.\<close>

definition g_frame :: "gpool \<Rightarrow> gpool \<Rightarrow> bool" where
  "g_frame p p' = (PoolSize p' = PoolSize p \<and> gpool_closed p' = gpool_closed p \<and> queue p' = queue p)"

lemma g_frame_refl [simp]: "g_frame p p"
  by (simp add: g_frame_def)

lemma g_frame_trans: "g_frame p p' \<Longrightarrow> g_frame p' p'' \<Longrightarrow> g_frame p p''"
  by (simp add: g_frame_def)

lemma gconn_at_set [simp]: "a < length (gstore p) \<Longrightarrow> gconn_at (set_gconn a c p) b = (if b = a then c else gconn_at p b)"
  by (simp add: gconn_at_def set_gconn_def nth_list_update)

lemma set_gconn_fields [simp]:
  "idleConns (set_gconn a c p) = idleConns p" "gconns (set_gconn a c p) = gconns p" "idleConnsLen (set_gconn a c p) = idleConnsLen p"
  "poolSize (set_gconn a c p) = poolSize p" "length (gstore (set_gconn a c p)) = length (gstore p)" "g_frame p (set_gconn a c p)"
  "gpool_closed (set_gconn a c p) = gpool_closed p" "PoolSize (set_gconn a c p) = PoolSize p" "queue (set_gconn a c p) = queue p"
  by (simp_all add: set_gconn_def g_frame_def)

lemma closeConn_eq: "snd (pool_closeConn a p) = set_gconn a ((gconn_at p a)\<lparr>shut := True\<rparr>) p"
  by (cases "shut (gconn_at p a)"; cases "gconn_at p a") (simp_all add: pool_closeConn_def Conn_Close_def)

text \<open>The facts of the invariant do not mention the clock, the counters or the dials.\<close>

definition same_data :: "gpool \<Rightarrow> gpool \<Rightarrow> bool" where
  "same_data p p' = (idleConns p' = idleConns p \<and> idleConnsLen p' = idleConnsLen p \<and> gconns p' = gconns p \<and> poolSize p' = poolSize p \<and>
     gstore p' = gstore p \<and> PoolSize p' = PoolSize p \<and> gpool_closed p' = gpool_closed p)"

lemma g_ok_same: "same_data p p' \<Longrightarrow> g_ok p' out = g_ok p out"
  by (simp add: same_data_def g_ok_def gconn_at_def)

lemma g_ok_removed:
  assumes "g_ok p (a # out)"
  shows "g_ok (set_gconn a ((gconn_at p a)\<lparr>shut := True\<rparr>) (removeConn a p)) out"
proof -
  have a: "a < length (gstore p)" "a \<notin> set (idleConns p)" "a \<notin> set out" using assms by (auto simp: g_ok_def)
  show ?thesis
  proof (cases "gpool_closed p")
    case True
    then have "removeConn a p = p" using assms by (simp add: g_ok_def removeConn_def)
    with True assms a show ?thesis by (simp add: g_ok_def)
  next
    case False
    then have m: "mset (gconns p) = mset (idleConns p) + add_mset a (mset out)" using assms by (simp add: g_ok_def)
    then have "set_mset (mset (gconns p)) = set_mset (mset (idleConns p) + add_mset a (mset out))" by (rule arg_cong)
    then have cs: "set (gconns p) = insert a (set (idleConns p) \<union> set out)" by simp
    have "distinct (gconns p)" using m assms mset_eq_imp_distinct_iff[of "gconns p" "idleConns p @ a # out"] by (simp add: g_ok_def)
    then have r: "set (remove1 a (gconns p)) = set (idleConns p) \<union> set out" using cs a by auto
    have "removeConn a p = p\<lparr>gconns := remove1 a (gconns p), poolSize := poolSize p - 1\<rparr>"
      using cs assms False by (auto simp: removeConn_def g_ok_def)
    moreover have "gconn_at (p\<lparr>gconns := cs, poolSize := n\<rparr>) b = gconn_at p b" for cs n b by (simp add: gconn_at_def)
    moreover have "length (remove1 a (gconns p)) = length (gconns p) - 1" "0 < length (gconns p)"
      using cs by (auto simp: length_remove1 length_pos_if_in_set)
    ultimately show ?thesis using False assms a m cs r
      by (auto simp: g_ok_def)
  qed
qed

lemma removeConn_frame [simp]: "g_frame p (removeConn a p)" "gpool_closed (removeConn a p) = gpool_closed p"
  by (simp_all add: removeConn_def g_frame_def)

lemma gconn_at_removeConn [simp]: "gconn_at (removeConn a p) b = gconn_at p b" "gstore (removeConn a p) = gstore p"
  by (simp_all add: removeConn_def gconn_at_def)

lemma CloseConn_ok:
  assumes "g_ok p (a # out)"
  shows "g_ok (snd (CloseConn a p)) out" "g_frame p (snd (CloseConn a p))"
  using g_ok_removed[OF assms] g_frame_trans[OF removeConn_frame(1) set_gconn_fields(6)]
  by (simp_all add: CloseConn_def closeConn_eq)

lemma pool_Remove_ok:
  assumes "g_ok p (a # out)"
  shows "g_ok (pool_Remove a p) out \<and> PoolSize (pool_Remove a p) = PoolSize p \<and> gpool_closed (pool_Remove a p) = gpool_closed p \<and>
    queue (pool_Remove a p) = queue p - 1"
proof -
  have "pool_Remove a p = (set_gconn a ((gconn_at p a)\<lparr>shut := True\<rparr>) (removeConn a p))\<lparr>queue := queue p - 1\<rparr>"
    by (simp add: pool_Remove_def closeConn_eq freeTurn_def set_gconn_def gconn_at_def removeConn_def)
  moreover have "same_data q (q\<lparr>queue := n\<rparr>)" for q n by (simp add: same_data_def)
  ultimately show ?thesis using g_ok_removed[OF assms] g_ok_same[of "set_gconn a ((gconn_at p a)\<lparr>shut := True\<rparr>) (removeConn a p)"]
    removeConn_frame(1)[of p a] by (simp add: g_frame_def)
qed

lemma popIdle_ok:
  assumes "popIdle p = (Some a, p')" "g_ok p out"
  shows "g_ok p' (a # out) \<and> g_frame p p'"
proof -
  have p': "idleConns p = butlast (idleConns p) @ [a]" "p' = p\<lparr>idleConns := butlast (idleConns p), idleConnsLen := idleConnsLen p - 1\<rparr>"
    "idleConns p \<noteq> []"
    using assms(1) by (auto simp: popIdle_def split: if_splits)
  then have "distinct (butlast (idleConns p) @ a # out) \<longleftrightarrow> distinct (idleConns p @ out)"
    "set (butlast (idleConns p) @ a # out) = set (idleConns p @ out)" "mset (butlast (idleConns p) @ a # out) = mset (idleConns p @ out)"
    by (metis append_Cons append_Nil append_assoc)+
  moreover have "int (length (butlast (idleConns p))) = int (length (idleConns p)) - 1" using p'(3) by (simp add: of_nat_diff Suc_leI)
  ultimately show ?thesis using assms(2) p'(2) unfolding g_ok_def gconn_at_def g_frame_def by simp
qed

lemma get_idle_ok:
  assumes "get_idle p = (r, p')" "g_ok p out"
  shows "g_frame p p' \<and> (case r of Some a \<Rightarrow> g_ok p' (a # out) | None \<Rightarrow> g_ok p' out \<and> idleConns p' = [])"
  using assms
proof (induction p arbitrary: r p' rule: get_idle.induct)
  case (1 p)
  obtain q p1 where q: "popIdle p = (q, p1)" by fastforce
  show ?case
  proof (cases q)
    case None
    with q 1 show ?thesis by (auto simp: get_idle.simps[of p] popIdle_def split: if_splits)
  next
    case (Some a)
    with q popIdle_ok[of p a p1] "1.prems"(2) have p1: "g_ok p1 (a # out)" "g_frame p p1" by auto
    show ?thesis
    proof (cases "isStaleConn p1 a")
      case True
      then have "get_idle (snd (CloseConn a p1)) = (r, p')" using q Some "1.prems"(1) by (simp add: get_idle.simps[of p])
      from "1.IH"[OF _ Some True this CloseConn_ok(1)[OF p1(1)]] q p1(2) CloseConn_ok(2)[OF p1(1)]
      show ?thesis by (auto intro: g_frame_trans)
    next
      case False
      then have "r = Some a" "p' = p1\<lparr>st_Hits := st_Hits p1 + 1\<rparr>" using q Some "1.prems"(1) by (auto simp: get_idle.simps[of p])
      then show ?thesis using p1 g_ok_same[of p1 p'] by (simp add: same_data_def g_frame_def)
    qed
  qed
qed

lemma dialConn_ok:
  assumes "dialConn pld p = (r, p')"
  shows "g_frame p p' \<and> (case r of Inl e \<Rightarrow> same_data p p'
    | Inr a \<Rightarrow> \<not> gpool_closed p \<and> a = length (gstore p) \<and> (\<exists>c ds. p' = p\<lparr>gdials := ds, gstore := gstore p @ [c]\<rparr> \<and> pooled c = pld \<and> \<not> shut c))"
proof -
  have "pooled ((pool_NewConn t s)\<lparr>pooled := pld\<rparr>) = pld \<and> \<not> shut ((pool_NewConn t s)\<lparr>pooled := pld\<rparr>)" for t s
    by (cases s) (simp add: pool_NewConn_def)
  then show ?thesis using assms
    by (auto simp: dialConn_def Dialer_def same_data_def g_frame_def Let_def split: if_splits list.splits sum.splits)
qed

lemma newConn_ok:
  assumes "pool_newConn True p = Some (r, p')" "g_ok p out" "idleConns p = []" "length out < PoolSize p"
  shows "g_frame p p' \<and> (case r of Inl e \<Rightarrow> same_data p p' | Inr a \<Rightarrow> g_ok p' (a # out))"
proof -
  obtain q p1 where q: "dialConn True p = (q, p1)" by fastforce
  note d = dialConn_ok[OF q]
  show ?thesis
  proof (cases q)
    case (Inl e)
    with q d assms(1) show ?thesis by (cases e) (auto simp: pool_newConn_def)
  next
    case (Inr a)
    then obtain c ds where p1: "\<not> gpool_closed p" "a = length (gstore p)" "p1 = p\<lparr>gdials := ds, gstore := gstore p @ [c]\<rparr>" "pooled c" "\<not> shut c"
      using d by auto
    have m: "mset (gconns p) = mset out" "poolSize p = int (length (gconns p))" using assms(2,3) p1(1) by (auto simp: g_ok_def)
    then have l: "length (gconns p) = length out" "set (gconns p) = set out" by (metis size_mset, metis mset_eq_setD)
    with m have "poolSize p < int (PoolSize p)" using assms(4) by simp
    then have "r = Inr a" "p' = p1\<lparr>gconns := gconns p @ [a], poolSize := poolSize p + 1\<rparr>"
      using q Inr assms(1) p1(3) by (auto simp: pool_newConn_def Let_def)
    then show ?thesis using assms(2-4) p1 l
      by (auto simp: g_ok_def g_frame_def gconn_at_def nth_append less_Suc_eq)
  qed
qed

lemma Pool_Get_ok:
  assumes "Pool_Get p = Some (r, p')" "g_inv (p, out)"
  shows "PoolSize p' = PoolSize p \<and> (case r of Inl e \<Rightarrow> g_inv (p', out) | Inr a \<Rightarrow> g_inv (p', a # out))"
proof (cases "gpool_closed p \<or> PoolSize p \<le> queue p")
  case True
  have "g_ok (p\<lparr>st_Timeouts := n\<rparr>) out = g_ok p out" for n by (rule g_ok_same) (simp add: same_data_def)
  with True assms show ?thesis
    by (auto simp: Pool_Get_def waitTurn_def g_inv_def split: if_splits)
next
  case False
  let ?p1 = "p\<lparr>queue := queue p + 1\<rparr>"
  have ok: "g_ok ?p1 out" "length out < PoolSize p" using assms(2) False g_ok_same[of p ?p1] by (auto simp: g_inv_def same_data_def)
  obtain q p2 where q: "get_idle ?p1 = (q, p2)" by fastforce
  note i = get_idle_ok[OF q ok(1)]
  show ?thesis
  proof (cases q)
    case (Some a)
    with False q assms i show ?thesis by (auto simp: Pool_Get_def waitTurn_def g_inv_def g_frame_def)
  next
    case None
    let ?p2 = "p2\<lparr>st_Misses := st_Misses p2 + 1\<rparr>"
    obtain u p3 where u: "pool_newConn True ?p2 = Some (u, p3)" "Some (r, p') = Some (case u of Inl e \<Rightarrow> (Inl e, freeTurn p3) | Inr a \<Rightarrow> (Inr a, p3))"
      using False q None assms(1) by (auto simp: Pool_Get_def waitTurn_def split: option.splits sum.splits)
    have "g_ok ?p2 out" "idleConns ?p2 = []" "length out < PoolSize ?p2"
      using None i ok(2) g_ok_same[of p2 ?p2] by (auto simp: same_data_def g_frame_def)
    from newConn_ok[OF u(1) this] u(2) i None assms(2) ok(2) g_ok_same[of ?p2 p'] \<open>g_ok ?p2 out\<close> show ?thesis
      by (cases u) (auto simp: g_inv_def g_frame_def freeTurn_def same_data_def)
  qed
qed

lemma g_ok_perm:
  assumes "mset out = mset out'"
  shows "g_ok p out = g_ok p out'"
proof -
  have m: "mset (idleConns p @ out) = mset (idleConns p @ out')" using assms by simp
  show ?thesis unfolding g_ok_def mset_eq_imp_distinct_iff[OF m] mset_eq_setD[OF m] m by (rule refl)
qed

lemma Pool_Put_ok:
  assumes "g_inv (p, out)" "a \<in> set out"
  shows "g_inv (Pool_Put a p, remove1 a out) \<and> PoolSize (Pool_Put a p) = PoolSize p"
    and "g_inv (pool_Remove a p, remove1 a out) \<and> PoolSize (pool_Remove a p) = PoolSize p"
proof -
  have "g_ok p (a # remove1 a out)" "length out = Suc (length (remove1 a out))" "queue p = length out" "length out \<le> PoolSize p"
    using assms g_ok_perm[of out "a # remove1 a out" p] length_pos_if_in_set[OF assms(2)] by (auto simp: g_inv_def length_remove1)
  note ok = this
  show r: "g_inv (pool_Remove a p, remove1 a out) \<and> PoolSize (pool_Remove a p) = PoolSize p"
    using pool_Remove_ok[OF ok(1)] ok(2-4) by (simp add: g_inv_def)
  let ?q = "p\<lparr>idleConns := idleConns p @ [a], idleConnsLen := idleConnsLen p + 1\<rparr>"
  have "g_ok (freeTurn ?q) (remove1 a out)"
    using ok(1) by (auto simp: g_ok_def freeTurn_def gconn_at_def split: if_splits)
  then show "g_inv (Pool_Put a p, remove1 a out) \<and> PoolSize (Pool_Put a p) = PoolSize p"
    using r ok by (simp add: Pool_Put_def g_inv_def freeTurn_def)
qed

lemma close_conns_ok:
  assumes "close_conns as e p = (e', p')" "set as \<subseteq> {..<length (gstore p)}"
  shows "idleConns p' = idleConns p \<and> gconns p' = gconns p \<and> PoolSize p' = PoolSize p \<and> gpool_closed p' = gpool_closed p \<and> queue p' = queue p \<and>
    length (gstore p') = length (gstore p) \<and> (\<forall>a. shut (gconn_at p' a) \<longleftrightarrow> a \<in> set as \<or> shut (gconn_at p a))"
  using assms
proof (induction as e p rule: close_conns.induct)
  case (2 a as e p)
  obtain e1 p1 where p1: "pool_closeConn a p = (e1, p1)" by fastforce
  then have "p1 = set_gconn a ((gconn_at p a)\<lparr>shut := True\<rparr>) p" using closeConn_eq[of a p] by simp
  with 2 p1 show ?case by auto
qed simp

lemma Pool_Close_ok:
  assumes "g_inv (p, out)"
  shows "g_inv (snd (Pool_Close p), out) \<and> PoolSize (snd (Pool_Close p)) = PoolSize p \<and> gpool_closed (snd (Pool_Close p))"
proof (cases "gpool_closed p")
  case True
  with assms show ?thesis by (simp add: Pool_Close_def)
next
  case False
  obtain e p1 where p1: "close_conns (gconns p) None (p\<lparr>gpool_closed := True\<rparr>) = (e, p1)" by fastforce
  have "mset (gconns p) = mset (idleConns p @ out)" using assms False by (simp add: g_inv_def g_ok_def)
  then have "set (gconns p) = set (idleConns p @ out)" by (rule mset_eq_setD)
  with assms have "set (gconns p) \<subseteq> {..<length (gstore p)}" by (simp add: g_inv_def g_ok_def)
  with close_conns_ok[OF p1] have c: "PoolSize p1 = PoolSize p" "gpool_closed p1" "queue p1 = queue p" "length (gstore p1) = length (gstore p)"
    "\<And>a. shut (gconn_at p1 a) \<longleftrightarrow> a \<in> set (gconns p) \<or> shut (gconn_at (p\<lparr>gpool_closed := True\<rparr>) a)"
    by simp_all
  have "gconn_at (p\<lparr>gpool_closed := True\<rparr>) a = gconn_at p a" for a by (simp add: gconn_at_def)
  with c have "\<forall>a < length (gstore p1). shut (gconn_at p1 a)" using assms False by (auto simp: g_inv_def g_ok_def)
  with c assms False p1 show ?thesis by (auto simp: Pool_Close_def g_inv_def g_ok_def gconn_at_def)
qed

lemma reap_step_ok:
  assumes "reapStaleConn p = (Some a, p1)" "g_ok p out"
  shows "g_ok (snd (pool_closeConn a p1)) out \<and> g_frame p (snd (pool_closeConn a p1))"
proof -
  obtain as where as: "idleConns p = a # as" "p1 = removeConn a (p\<lparr>idleConns := as, idleConnsLen := idleConnsLen p - 1\<rparr>)"
    using assms(1) by (auto simp: reapStaleConn_def split: list.splits if_splits)
  let ?q = "p\<lparr>idleConns := as, idleConnsLen := idleConnsLen p - 1\<rparr>"
  have q: "g_ok ?q (a # out)" using assms(2) as(1) by (auto simp: g_ok_def gconn_at_def split: if_splits)
  have "g_frame p ?q" by (simp add: g_frame_def)
  with CloseConn_ok[OF q] as(2) show ?thesis unfolding CloseConn_def by (auto intro: g_frame_trans)
qed

lemma reap_loop_ok: "reap_loop n p = (m, p') \<Longrightarrow> g_ok p out \<Longrightarrow> g_ok p' out \<and> g_frame p p'"
proof (induction n p rule: reap_loop.induct)
  case (1 n p)
  obtain q p1 where q: "reapStaleConn p = (q, p1)" by fastforce
  show ?case
  proof (cases q)
    case None
    with q "1.prems" show ?thesis by (auto simp: reap_loop.simps[of n p] reapStaleConn_def split: list.splits if_splits)
  next
    case (Some a)
    with q "1.prems" have "reap_loop (n + 1) (snd (pool_closeConn a p1)) = (m, p')" by (simp add: reap_loop.simps[of n p])
    with "1.IH"[OF q[symmetric] Some] reap_step_ok[of p a p1 out] q Some "1.prems"(2) show ?thesis by (auto intro: g_frame_trans)
  qed
qed

section \<open>Every use of the pool\<close>

text \<open>
  The operations of the client and of the pool's own goroutines in any order, beside the connections handed out: \<open>use\<close> is whatever its holder does with a
  connection, which never closes it.
\<close>

inductive g_step :: "gpool \<times> nat list \<Rightarrow> gpool \<times> nat list \<Rightarrow> bool" where
  get: "Pool_Get p = Some (Inr a, p') \<Longrightarrow> g_step (p, out) (p', a # out)"
| get_fails: "Pool_Get p = Some (Inl e, p') \<Longrightarrow> g_step (p, out) (p', out)"
| use: "a \<in> set out \<Longrightarrow> pooled c = pooled (gconn_at p a) \<Longrightarrow> shut c = shut (gconn_at p a) \<Longrightarrow> g_step (p, out) (set_gconn a c p, out)"
| put: "a \<in> set out \<Longrightarrow> g_step (p, out) (Pool_Put a p, remove1 a out)"
| remove: "a \<in> set out \<Longrightarrow> g_step (p, out) (pool_Remove a p, remove1 a out)"
| reap: "\<not> gpool_closed p \<Longrightarrow> queue p < PoolSize p \<Longrightarrow> ReapStaleConns p = (n, p') \<Longrightarrow> g_step (p, out) (p', out)"
| dial: "tryDialing p \<Longrightarrow> g_step (p, out) (tryDial_round p, out)"
| close: "g_step (p, out) (snd (Pool_Close p), out)"
| time: "gnow p \<le> t \<Longrightarrow> g_step (p, out) (p\<lparr>gnow := t, gdials := ds\<rparr>, out)"

inductive_cases g_stepE: "g_step (p, out) (p', out')"

lemma tryDial_same: "same_data p (tryDial_round p) \<and> queue (tryDial_round p) = queue p"
  by (auto simp: tryDial_round_def Dialer_def same_data_def split: list.splits sum.splits)

lemma g_inv_same: "same_data p p' \<Longrightarrow> queue p' = queue p \<Longrightarrow> g_inv (p', out) = g_inv (p, out)"
  using g_ok_same[of p p' out] by (simp add: g_inv_def same_data_def)

lemma g_inv_use:
  assumes "g_inv (p, out)" "a \<in> set out" "pooled c = pooled (gconn_at p a)" "shut c = shut (gconn_at p a)"
  shows "g_inv (set_gconn a c p, out)"
proof -
  have "a < length (gstore p)" using assms(1,2) by (auto simp: g_inv_def g_ok_def)
  with assms show ?thesis by (auto simp: g_inv_def g_ok_def split: if_splits)
qed

lemma g_step_inv: "g_step s s' \<Longrightarrow> g_inv s \<Longrightarrow> g_inv s' \<and> PoolSize (fst s') = PoolSize (fst s)"
proof (induction rule: g_step.induct)
  case (reap p n p' out)
  then obtain p1 where p1: "reap_loop 0 p = (n, p1)" "p' = p1\<lparr>st_StaleConns := st_StaleConns p1 + of_nat n\<rparr>"
    by (auto simp: ReapStaleConns_def split: prod.splits)
  with reap_loop_ok[OF p1(1), of out] reap.prems g_inv_same[of p1 p' out] show ?case
    by (auto simp: g_inv_def g_frame_def same_data_def)
next
  case (dial p out)
  then show ?case using tryDial_same[of p] g_inv_same[of p "tryDial_round p" out] by (simp add: same_data_def)
next
  case (time p t out ds)
  then show ?case using g_inv_same[of p "p\<lparr>gnow := t, gdials := ds\<rparr>" out] by (simp add: same_data_def)
qed (auto dest: Pool_Get_ok Pool_Put_ok Pool_Close_ok g_inv_use)

definition g_open :: "gpool \<Rightarrow> nat set" where
  "g_open p = {a. a < length (gstore p) \<and> \<not> shut (gconn_at p a)}"

lemma g_open_bound:
  assumes "g_inv (p, out)"
  shows "card (g_open p) \<le> PoolSize p"
proof (cases "gpool_closed p")
  case True
  then have "g_open p = {}" using assms by (auto simp: g_inv_def g_ok_def g_open_def)
  then show ?thesis by simp
next
  case False
  then have "g_open p \<subseteq> set (gconns p)" "length (gconns p) \<le> PoolSize p" using assms by (auto simp: g_inv_def g_ok_def g_open_def)
  then show ?thesis by (meson card_length card_mono finite_set le_trans)
qed

interpretation goredis: bounded_pool g_step g_inv "\<lambda>s. PoolSize (fst s)" "\<lambda>s. g_open (fst s)" snd
proof unfold_locales
  fix s s' :: "gpool \<times> nat list"
  assume i: "g_inv s"
  show "card (g_open (fst s)) \<le> PoolSize (fst s)" using g_open_bound[of "fst s" "snd s"] i by simp
  show "distinct (snd s)" using i by (cases s) (simp add: g_inv_def g_ok_def)
  show "g_step s s' \<Longrightarrow> g_inv s' \<and> PoolSize (fst s') = PoolSize (fst s)" using g_step_inv i by blast
qed

lemma g_inv_NewConnPool: "g_inv (NewConnPool sz idle age ds now, [])"
  by (simp add: g_inv_def g_ok_def NewConnPool_def)

end
