(* ===== verification/Goredis_Client.thy ===== *)
theory Goredis_Client
  imports Comm_Net Goredis_Pool
begin

text \<open>
  The client of the second redis library (\<^verbatim>\<open>go-redis\<close>: \<^verbatim>\<open>options.go\<close>, \<^verbatim>\<open>command.go\<close>, \<^verbatim>\<open>commands.go\<close> and \<^verbatim>\<open>redis.go\<close>)
  on its pool, and the program's functions that use it, with every call they make: \<^verbatim>\<open>RedisGet\<close> and \<^verbatim>\<open>RedisSet\<close> (\<^verbatim>\<open>util/comm/service.go\<close>) and
  the publishing of \<^verbatim>\<open>reportConnectEvent\<close> (\<^verbatim>\<open>agent/proxy/tcpProxy.go\<close>).  \<^verbatim>\<open>Comm_Net\<close> has the same operations as the rest of the
  program sees them.  There are no hooks, no limiter and no callback, as the program sets none; deadlines and the pauses between retries are not modelled.
\<close>

section \<open>Options\<close>

record gopts =
  o_Addr :: string
  o_Password :: string
  o_DB :: int
  o_PoolSize :: nat
  o_MaxRetries :: nat
  o_IdleTimeout :: int
  o_MaxConnAge :: int

definition Options_init :: "nat \<Rightarrow> gopts \<Rightarrow> gopts" where
  "Options_init numCPU opt =
     (let opt = (if o_Addr opt = [] then opt\<lparr>o_Addr := ''localhost:6379''\<rparr> else opt);
          opt = (if o_PoolSize opt = 0 then opt\<lparr>o_PoolSize := 10 * numCPU\<rparr> else opt)
      in if o_IdleTimeout opt = 0 then opt\<lparr>o_IdleTimeout := 5 * 60 * nanos\<rparr> else opt)"

section \<open>Commands\<close>

datatype ckind = KStatus | KString | KInt

datatype cmd_value = VString string | VInt int

record gcmd =
  cargs :: "garg list"
  ckind :: ckind
  cval :: cmd_value
  cerr :: "gerr option"

definition NewStatusCmd :: "garg list \<Rightarrow> gcmd" where
  "NewStatusCmd args = \<lparr>cargs = args, ckind = KStatus, cval = VString [], cerr = None\<rparr>"

definition NewStringCmd :: "garg list \<Rightarrow> gcmd" where
  "NewStringCmd args = \<lparr>cargs = args, ckind = KString, cval = VString [], cerr = None\<rparr>"

definition NewIntCmd :: "garg list \<Rightarrow> gcmd" where
  "NewIntCmd args = \<lparr>cargs = args, ckind = KInt, cval = VInt 0, cerr = None\<rparr>"

definition setErr :: "gerr \<Rightarrow> gcmd \<Rightarrow> gcmd" where
  "setErr e cmd = cmd\<lparr>cerr := Some e\<rparr>"

definition setCmdsErr :: "gerr \<Rightarrow> gcmd list \<Rightarrow> gcmd list" where
  "setCmdsErr e cmds = map (\<lambda>cmd. if cerr cmd = None then setErr e cmd else cmd) cmds"

fun cmdsFirstErr :: "gcmd list \<Rightarrow> gerr option" where
  "cmdsFirstErr [] = None"
| "cmdsFirstErr (cmd # cmds) = (if cerr cmd \<noteq> None then cerr cmd else cmdsFirstErr cmds)"

fun writeCmd :: "gcmd list \<Rightarrow> gconn \<Rightarrow> gerr option \<times> gconn" where
  "writeCmd [] c = (None, c)"
| "writeCmd (cmd # cmds) c = and_then (WriteArgs (cargs cmd) c) (writeCmd cmds)"

text \<open>The value beside an error is the zero value: nothing looks at it.\<close>

definition set_result :: "('v \<Rightarrow> cmd_value) \<Rightarrow> 'v \<Rightarrow> gcmd \<Rightarrow> (gerr + 'v) \<times> gconn \<Rightarrow> (gerr option \<times> gcmd) \<times> gconn" where
  "set_result f zero cmd = (\<lambda>(r, c).
     case r of
       Inl e \<Rightarrow> ((Some e, cmd\<lparr>cval := f zero, cerr := Some e\<rparr>), c)
     | Inr v \<Rightarrow> ((None, cmd\<lparr>cval := f v, cerr := None\<rparr>), c))"

definition cmd_readReply :: "gcmd \<Rightarrow> gconn \<Rightarrow> ((gerr option \<times> gcmd) \<times> gconn) option" where
  "cmd_readReply cmd c =
     (case ckind cmd of
        KInt \<Rightarrow> map_option (set_result VInt 0 cmd) (ReadIntReply c)
      | KStatus \<Rightarrow> map_option (set_result VString [] cmd) (ReadString c)
      | KString \<Rightarrow> map_option (set_result VString [] cmd) (ReadString c))"

section \<open>Setting a connection up\<close>

fun pipelineReadCmds :: "gcmd list \<Rightarrow> gconn \<Rightarrow> ((gerr option \<times> gcmd list) \<times> gconn) option" where
  "pipelineReadCmds [] c = Some ((None, []), c)"
| "pipelineReadCmds (cmd # cmds) c =
     (case cmd_readReply cmd c of
        None \<Rightarrow> None
      | Some ((err, cmd'), c1) \<Rightarrow>
          (case err of
             Some e \<Rightarrow> if \<not> isRedisError e then Some ((Some e, cmd' # cmds), c1)
                       else map_option (\<lambda>((r, cs), c2). ((r, cmd' # cs), c2)) (pipelineReadCmds cmds c1)
           | None \<Rightarrow> map_option (\<lambda>((r, cs), c2). ((r, cmd' # cs), c2)) (pipelineReadCmds cmds c1)))"

text \<open>The first component is the number \<^verbatim>\<open>canRetry\<close> of the source.\<close>

definition pipelineProcessCmds :: "int \<Rightarrow> gcmd list \<Rightarrow> gconn \<Rightarrow> ((bool \<times> gerr option \<times> gcmd list) \<times> gconn) option" where
  "pipelineProcessCmds t cmds c =
     (case WithWriter t (writeCmd cmds) c of
        (Some e, c1) \<Rightarrow> Some ((True, Some e, cmds), c1)
      | (None, c1) \<Rightarrow> map_option (\<lambda>((err, cs), c2). ((True, err, cs), c2)) (WithReader t pipelineReadCmds cmds c1))"

text \<open>
  \<^verbatim>\<open>_generalProcessPipeline\<close> on the pool of the one connection (which is set up already, so that \<^verbatim>\<open>initConn\<close> returns at once there), with the attempts left.
\<close>

fun single_pipeline :: "nat \<Rightarrow> spool \<Rightarrow> gcmd list \<Rightarrow> gpool \<Rightarrow> ((gerr option \<times> gcmd list) \<times> spool \<times> gpool) option" where
  "single_pipeline retries sp cmds p =
     (case Single_Get sp of
        None \<Rightarrow> None
      | Some (Inl e, sp1) \<Rightarrow> Some ((Some e, cmds), sp1, p)
      | Some (Inr a, sp1) \<Rightarrow>
          (case pipelineProcessCmds (gnow p) cmds (gconn_at p a) of
             None \<Rightarrow> None
           | Some ((canRetry, err, cs), c) \<Rightarrow>
               (let p1 = set_gconn a c p;
                    sp2 = (case err of
                             Some e \<Rightarrow> if isBadConn err False then Single_Remove a e sp1 else Single_Put a sp1
                           | None \<Rightarrow> Single_Put a sp1)
                in if err = None \<or> \<not> canRetry \<or> \<not> isRetryableError err True then Some ((err, cs), sp2, p1)
                   else case retries of
                          0 \<Rightarrow> Some ((err, cs), sp2, p1)
                        | Suc k \<Rightarrow> single_pipeline k sp2 cs p1)))"

declare single_pipeline.simps [simp del]

definition generalProcessPipeline :: "nat \<Rightarrow> spool \<Rightarrow> gcmd list \<Rightarrow> gpool \<Rightarrow> ((gerr option \<times> gcmd list) \<times> gpool) option" where
  "generalProcessPipeline retries sp cmds p =
     (case single_pipeline retries sp cmds p of
        None \<Rightarrow> None
      | Some ((Some e, cs), _, p1) \<Rightarrow> Some ((Some e, setCmdsErr e cs), p1)
      | Some ((None, cs), _, p1) \<Rightarrow> Some ((cmdsFirstErr cs, cs), p1))"

definition cmd_Auth :: "string \<Rightarrow> gcmd" where
  "cmd_Auth password = NewStatusCmd [GString ''auth'', GString password]"

definition cmd_Select :: "int \<Rightarrow> gcmd" where
  "cmd_Select index = NewStatusCmd [GString ''select'', GInt index]"

definition initConn :: "gopts \<Rightarrow> nat \<Rightarrow> gpool \<Rightarrow> (gerr option \<times> gpool) option" where
  "initConn opt a p =
     (if Inited (gconn_at p a) then Some (None, p)
      else let p1 = set_gconn a ((gconn_at p a)\<lparr>Inited := True\<rparr>) p
           in if o_Password opt = [] \<and> o_DB opt = 0 then Some (None, p1)
              else let cmds = (if o_Password opt \<noteq> [] then [cmd_Auth (o_Password opt)] else []) @
                              (if 0 < o_DB opt then [cmd_Select (o_DB opt)] else [])
                   in if cmds = [] then Some (None, p1)
                      else map_option (\<lambda>((err, _), p2). (err, p2)) (generalProcessPipeline (o_MaxRetries opt) (Single_SetConn a) cmds p1))"

section \<open>Running a command\<close>

definition getConn :: "gopts \<Rightarrow> gpool \<Rightarrow> ((gerr + nat) \<times> gpool) option" where
  "getConn opt p =
     (case Pool_Get p of
        None \<Rightarrow> None
      | Some (Inl e, p1) \<Rightarrow> Some (Inl e, p1)
      | Some (Inr a, p1) \<Rightarrow>
          (case initConn opt a p1 of
             None \<Rightarrow> None
           | Some (Some e, p2) \<Rightarrow> Some (Inl (case Unwrap e of Some e' \<Rightarrow> e' | None \<Rightarrow> e), pool_Remove a p2)
           | Some (None, p2) \<Rightarrow> Some (Inr a, p2)))"

definition releaseConn :: "nat \<Rightarrow> gerr option \<Rightarrow> gpool \<Rightarrow> gpool" where
  "releaseConn a err p = (if isBadConn err False then pool_Remove a p else Pool_Put a p)"

definition withConn :: "gopts \<Rightarrow> (gconn \<Rightarrow> ((gerr option \<times> gcmd) \<times> gconn) option) \<Rightarrow> gcmd \<Rightarrow> gpool \<Rightarrow> ((gerr option \<times> gcmd) \<times> gpool) option" where
  "withConn opt fn cmd p =
     (case getConn opt p of
        None \<Rightarrow> None
      | Some (Inl e, p1) \<Rightarrow> Some ((Some e, cmd), p1)
      | Some (Inr a, p1) \<Rightarrow>
          (case fn (gconn_at p1 a) of
             None \<Rightarrow> None
           | Some ((err, cmd'), c) \<Rightarrow> Some ((err, cmd'), releaseConn a err (set_gconn a c p1))))"

text \<open>The function \<^verbatim>\<open>_process\<close> runs on a connection: write the command, then read the reply.\<close>

definition exchange :: "int \<Rightarrow> gcmd \<Rightarrow> gconn \<Rightarrow> ((gerr option \<times> gcmd) \<times> gconn) option" where
  "exchange t cmd c =
     (case WithWriter t (writeCmd [cmd]) c of
        (Some e, c1) \<Rightarrow> Some ((Some e, cmd), c1)
      | (None, c1) \<Rightarrow> WithReader t cmd_readReply cmd c1)"

text \<open>No command here has a read timeout of its own, so a timeout may be retried.\<close>

fun process_attempts :: "nat \<Rightarrow> gopts \<Rightarrow> gcmd \<Rightarrow> gpool \<Rightarrow> ((gerr option \<times> gcmd) \<times> gpool) option" where
  "process_attempts retries opt cmd p =
     (case withConn opt (exchange (gnow p) cmd) cmd p of
        None \<Rightarrow> None
      | Some ((err, cmd'), p1) \<Rightarrow>
          if err = None \<or> \<not> isRetryableError err True then Some ((err, cmd'), p1)
          else case retries of
                 0 \<Rightarrow> Some ((err, cmd'), p1)
               | Suc k \<Rightarrow> process_attempts k opt cmd' p1)"

declare process_attempts.simps [simp del]

definition process :: "gopts \<Rightarrow> gcmd \<Rightarrow> gpool \<Rightarrow> (gcmd \<times> gpool) option" where
  "process opt cmd p =
     (case process_attempts (o_MaxRetries opt) opt cmd p of
        None \<Rightarrow> None
      | Some ((Some e, cmd'), p1) \<Rightarrow> Some (setErr e cmd', p1)
      | Some ((None, cmd'), p1) \<Rightarrow> Some (cmd', p1))"

record gclient =
  cl_opt :: gopts
  cl_pool :: gpool

definition NewClient :: "nat \<Rightarrow> gopts \<Rightarrow> (gerr + netConn) list \<Rightarrow> int \<Rightarrow> gclient" where
  "NewClient numCPU opt ds t =
     (let opt = Options_init numCPU opt
      in \<lparr>cl_opt = opt, cl_pool = NewConnPool (o_PoolSize opt) (o_IdleTimeout opt) (o_MaxConnAge opt) ds t\<rparr>)"

definition client_process :: "gcmd \<Rightarrow> gclient \<Rightarrow> (gcmd \<times> gclient) option" where
  "client_process cmd cl = map_option (\<lambda>(cmd', p). (cmd', cl\<lparr>cl_pool := p\<rparr>)) (process (cl_opt cl) cmd (cl_pool cl))"

definition Client_Close :: "gclient \<Rightarrow> gerr option \<times> gclient" where
  "Client_Close cl = (case Pool_Close (cl_pool cl) of (e, p) \<Rightarrow> (e, cl\<lparr>cl_pool := p\<rparr>))"

definition cmd_Ping :: gcmd where
  "cmd_Ping = NewStatusCmd [GString ''ping'']"

definition cmd_Get :: "string \<Rightarrow> gcmd" where
  "cmd_Get key = NewStringCmd [GString ''get'', GString key]"

definition usePrecise :: "int \<Rightarrow> bool" where
  "usePrecise dur = (dur < nanos \<or> dur mod nanos \<noteq> 0)"

definition formatMs :: "int \<Rightarrow> int" where
  "formatMs dur = dur div 1000000"

definition formatSec :: "int \<Rightarrow> int" where
  "formatSec dur = dur div nanos"

definition cmd_Set :: "string \<Rightarrow> garg \<Rightarrow> int \<Rightarrow> gcmd" where
  "cmd_Set key val expiration =
     NewStatusCmd ([GString ''set'', GString key, val] @
       (if 0 < expiration then
          (if usePrecise expiration then [GString ''px'', GInt (formatMs expiration)] else [GString ''ex'', GInt (formatSec expiration)])
        else []))"

definition cmd_Publish :: "string \<Rightarrow> garg \<Rightarrow> gcmd" where
  "cmd_Publish channel message = NewIntCmd [GString ''publish'', GString channel, message]"

section \<open>The program's functions\<close>

text \<open>The client each of them makes, on a machine with \<open>numCPU\<close> processors, at the time \<open>t\<close>, with what the network offers.\<close>

definition program_client :: "nat \<Rightarrow> AgentConf \<Rightarrow> (gerr + netConn) list \<Rightarrow> int \<Rightarrow> gclient" where
  "program_client numCPU conf ds t =
     NewClient numCPU \<lparr>o_Addr = StrategyAddr conf, o_Password = StrategyPass conf, o_DB = 0, o_PoolSize = 0, o_MaxRetries = 0, o_IdleTimeout = 0, o_MaxConnAge = 0\<rparr> ds t"

text \<open>
  Each pings the server, goes on whatever the outcome, runs its command and closes the client when it returns.
\<close>

definition ping_then :: "gcmd \<Rightarrow> gclient \<Rightarrow> (gcmd \<times> gclient) option" where
  "ping_then cmd cl =
     (case client_process cmd_Ping cl of
        None \<Rightarrow> None
      | Some (_, cl1) \<Rightarrow>
          (case client_process cmd cl1 of
             None \<Rightarrow> None
           | Some (cmd', cl2) \<Rightarrow> Some (cmd', snd (Client_Close cl2))))"

fun cmd_value_text :: "cmd_value \<Rightarrow> string" where
  "cmd_value_text (VString s) = s"
| "cmd_value_text (VInt n) = Itoa n"

definition client_RedisGet :: "string \<Rightarrow> gclient \<Rightarrow> ((bool \<times> string) \<times> gclient) option" where
  "client_RedisGet key cl =
     map_option (\<lambda>(cmd, cl'). ((case cerr cmd of
          None \<Rightarrow> (True, cmd_value_text (cval cmd))
        | Some e \<Rightarrow> if e = redis_Nil then (False, cmd_value_text (cval cmd)) else (False, cmd_value_text (cval cmd))), cl'))
       (ping_then (cmd_Get key) cl)"

definition client_RedisSet :: "string \<Rightarrow> string \<Rightarrow> gclient \<Rightarrow> (bool \<times> gclient) option" where
  "client_RedisSet key val cl =
     map_option (\<lambda>(cmd, cl'). (cerr cmd = None, cl')) (ping_then (cmd_Set key (GString val) 0) cl)"

definition client_publish :: "string \<Rightarrow> string \<Rightarrow> gclient \<Rightarrow> (gcmd \<times> gclient) option" where
  "client_publish channel message cl = ping_then (cmd_Publish channel (GString message)) cl"

section \<open>A command and its reply\<close>

text \<open>The commands the program sends have texts only; a status or string command takes any reply that is not an array, an integer command an integer or an error.\<close>

definition cmd_texts :: "gcmd \<Rightarrow> string list \<Rightarrow> bool" where
  "cmd_texts cmd ts = (map garg_text (cargs cmd) = map Some ts)"

definition cmd_bytes :: "string list \<Rightarrow> string" where
  "cmd_bytes ts = reply_bytes (ArrayReply (map BulkStr ts))"

fun answer_value :: "ckind \<Rightarrow> reply \<Rightarrow> (gerr + cmd_value) option" where
  "answer_value KInt (IntReply i) = Some (Inr (VInt i))"
| "answer_value KInt (ErrorReply s) = Some (Inl (GRedis s))"
| "answer_value KInt _ = None"
| "answer_value k r = Some (map_sum id VString (string_of_reply r))"

definition cmd_result :: "gerr + cmd_value \<Rightarrow> gcmd \<Rightarrow> gerr option \<times> gcmd" where
  "cmd_result v cmd =
     (case v of
        Inl e \<Rightarrow> (Some e, cmd\<lparr>cval := (if ckind cmd = KInt then VInt 0 else VString []), cerr := Some e\<rparr>)
      | Inr x \<Rightarrow> (None, cmd\<lparr>cval := x, cerr := None\<rparr>))"

lemma writes_writeCmd:
  assumes "cmd_texts cmd ts" "writes (writeCmd cmds) w"
  shows "writes (writeCmd (cmd # cmds)) (cmd_bytes ts @ w)"
proof -
  have "writes (WriteArgs (cargs cmd)) (cmd_bytes ts)"
    using assms(1) unfolding cmd_texts_def cmd_bytes_def by (rule writes_WriteArgs)
  moreover have "writeCmd (cmd # cmds) = (\<lambda>c. and_then (WriteArgs (cargs cmd) c) (writeCmd cmds))" by (rule ext) simp
  ultimately show ?thesis using assms(2) by (simp add: writes_and_then)
qed

lemma writes_one: "cmd_texts cmd ts \<Longrightarrow> writes (writeCmd [cmd]) (cmd_bytes ts)"
  using writes_writeCmd[of cmd ts "[]" "[]"] by (simp add: writes_def sent_refl)

lemma cmd_readReply_ok:
  assumes "holds (reply_bytes r @ rest) later c" "readable r" "answer_value (ckind cmd) r = Some v" "\<not> shut c"
  shows "\<exists>c'. cmd_readReply cmd c = Some (cmd_result v cmd, c') \<and> holds rest later c' \<and> only_read c c'"
proof (cases "ckind cmd")
  case KInt
  then show ?thesis using assms ReadIntReply_int[of _ rest later c] ReadIntReply_error[of _ rest later c]
    by (cases r) (fastforce simp: cmd_readReply_def cmd_result_def set_result_def)+
next
  case KStatus
  then show ?thesis using assms(3) ReadString_reply[OF assms(1,2,4)]
    by (cases "string_of_reply r") (auto simp: cmd_readReply_def cmd_result_def set_result_def)
next
  case KString
  then show ?thesis using assms(3) ReadString_reply[OF assms(1,2,4)]
    by (cases "string_of_reply r") (auto simp: cmd_readReply_def cmd_result_def set_result_def)
qed

text \<open>What an exchange leaves of a connection.\<close>

definition exchanged :: "int \<Rightarrow> string \<Rightarrow> string list \<Rightarrow> gconn \<Rightarrow> gconn \<Rightarrow> bool" where
  "exchanged t w later c c' = (conn_ready c' \<and> wire c' = wire c @ w \<and> room c' = room c - length w \<and> holds [] later c' \<and>
     pooled c' = pooled c \<and> Inited c' = Inited c \<and> usedAt c' = t div nanos)"

lemma exchange_ok:
  assumes "conn_ready c" "cmd_texts cmd ts" "length (cmd_bytes ts) \<le> room c" "holds [] (ps @ later) c" "concat ps = reply_bytes r"
    "readable r" "answer_value (ckind cmd) r = Some v"
  shows "\<exists>c'. exchange t cmd c = Some (cmd_result v cmd, c') \<and> exchanged t (cmd_bytes ts) later c c'"
proof -
  let ?c = "(SetUsedAt t c)\<lparr>wire := wire c @ cmd_bytes ts, room := room c - length (cmd_bytes ts)\<rparr>"
  have w: "WithWriter t (writeCmd [cmd]) c = (None, ?c)" using WithWriter_ok[OF writes_one[OF assms(2)] assms(1,3)] .
  let ?d = "SetUsedAt t ?c"
  have "holds (reply_bytes r @ []) later ?d" using holds_later[OF assms(4)] assms(5) by (simp add: holds_def SetUsedAt_def)
  moreover have "\<not> shut ?d" using assms(1) by (simp add: conn_ready_def SetUsedAt_def)
  ultimately obtain c' where c': "cmd_readReply cmd ?d = Some (cmd_result v cmd, c')" "holds [] later c'" "only_read ?d c'"
    using cmd_readReply_ok[of r "[]" later ?d cmd v] assms(6,7) by blast
  then have "exchanged t (cmd_bytes ts) later c c'"
    using only_read_fields[OF c'(3)] assms(1) by (simp add: exchanged_def conn_ready_def SetUsedAt_def)
  then show ?thesis using w c'(1) \<open>\<not> shut ?d\<close> by (auto simp: exchange_def WithReader_def Let_def)
qed

lemma auth_pipeline_ok:
  assumes "conn_ready c" "cmd_texts cmd ts" "length (cmd_bytes ts) \<le> room c" "holds [] (ps @ later) c" "concat ps = reply_bytes r"
    "readable r" "answer_value (ckind cmd) r = Some v"
    "case v of Inl e \<Rightarrow> isRedisError e | Inr _ \<Rightarrow> True"
  shows "\<exists>c'. pipelineProcessCmds t [cmd] c = Some ((True, None, [snd (cmd_result v cmd)]), c') \<and> exchanged t (cmd_bytes ts) later c c'"
proof -
  obtain c' where c': "exchange t cmd c = Some (cmd_result v cmd, c')" "exchanged t (cmd_bytes ts) later c c'"
    using exchange_ok[OF assms(1-7)] by blast
  let ?c = "(SetUsedAt t c)\<lparr>wire := wire c @ cmd_bytes ts, room := room c - length (cmd_bytes ts)\<rparr>"
  have w: "WithWriter t (writeCmd [cmd]) c = (None, ?c)" using WithWriter_ok[OF writes_one[OF assms(2)] assms(1,3)] .
  have s: "\<not> shut (SetUsedAt t ?c)" using assms(1) by (simp add: SetUsedAt_def conn_ready_def)
  then have "cmd_readReply cmd (SetUsedAt t ?c) = Some (cmd_result v cmd, c')" using c'(1) w by (simp add: exchange_def WithReader_def Let_def)
  then have "pipelineReadCmds [cmd] (SetUsedAt t ?c) = Some ((None, [snd (cmd_result v cmd)]), c')"
    using assms(8) by (cases v) (simp_all add: cmd_result_def)
  then show ?thesis using w s c'(2) by (simp add: pipelineProcessCmds_def WithReader_def Let_def)
qed

section \<open>One connection serving one command after the other\<close>

text \<open>
  The pool at the time \<open>t\<close> as the program configures it; with nothing in it; with its one connection \<open>c\<close> idle; and with that handed out.
\<close>

definition pool_opts :: "int \<Rightarrow> gpool \<Rightarrow> bool" where
  "pool_opts t p = (gnow p = t \<and> nanos < IdleTimeout_opt p \<and> MaxConnAge p = 0 \<and> 0 < PoolSize p \<and> \<not> gpool_closed p)"

definition pool_empty :: "int \<Rightarrow> gpool \<Rightarrow> bool" where
  "pool_empty t p = (pool_opts t p \<and> gconns p = [] \<and> idleConns p = [] \<and> poolSize p = 0 \<and> idleConnsLen p = 0 \<and> queue p = 0)"

definition pool_one :: "int \<Rightarrow> gpool \<Rightarrow> gconn \<Rightarrow> bool" where
  "pool_one t p c = (pool_opts t p \<and> gstore p = [c] \<and> gconns p = [0] \<and> poolSize p = 1 \<and> pooled c)"

definition one_idle :: "int \<Rightarrow> gpool \<Rightarrow> gconn \<Rightarrow> bool" where
  "one_idle t p c = (pool_one t p c \<and> idleConns p = [0] \<and> idleConnsLen p = 1 \<and> queue p = 0 \<and> conn_ready c \<and> Inited c \<and> usedAt c = t div nanos)"

definition one_taken :: "int \<Rightarrow> gpool \<Rightarrow> gconn \<Rightarrow> bool" where
  "one_taken t p c = (pool_one t p c \<and> idleConns p = [] \<and> idleConnsLen p = 0 \<and> queue p = 1)"

lemmas one_defs = one_idle_def one_taken_def pool_one_def pool_opts_def

lemma just_used: "t - t div nanos * nanos < nanos" for t :: int
  by (simp add: nanos_def minus_div_mult_eq_mod)

lemma Pool_Get_idle:
  assumes "one_idle t p c"
  shows "\<exists>p'. Pool_Get p = Some (Inr 0, p') \<and> one_taken t p' c"
proof -
  let ?p = "p\<lparr>queue := Suc 0, idleConns := [], idleConnsLen := 0\<rparr>"
  have "popIdle (p\<lparr>queue := Suc 0\<rparr>) = (Some 0, ?p)" using assms by (simp add: popIdle_def one_defs)
  moreover have "\<not> isStaleConn ?p 0" using assms just_used[of t] by (simp add: isStaleConn_def one_defs gconn_at_def)
  ultimately show ?thesis using assms
    by (simp add: Pool_Get_def waitTurn_def get_idle.simps[of "p\<lparr>queue := Suc 0\<rparr>"] one_defs)
qed

lemma getConn_idle: "one_idle t p c \<Longrightarrow> \<exists>p'. getConn opt p = Some (Inr 0, p') \<and> one_taken t p' c"
  using Pool_Get_idle[of t p c] by (auto simp: getConn_def initConn_def gconn_at_def one_defs)

lemma Pool_Get_dials:
  assumes "pool_empty t p" "gdials p = Inr s # ds" "dialErrorsNum p < PoolSize p" "gstore p = []"
  shows "\<exists>p'. Pool_Get p = Some (Inr 0, p') \<and> one_taken t p' ((pool_NewConn t s)\<lparr>pooled := True\<rparr>)"
proof -
  have "get_idle (p\<lparr>queue := Suc 0\<rparr>) = (None, p\<lparr>queue := Suc 0\<rparr>)"
    using assms(1) by (simp add: get_idle.simps popIdle_def pool_empty_def)
  then show ?thesis using assms
    by (simp add: Pool_Get_def waitTurn_def pool_newConn_def dialConn_def Dialer_def pool_empty_def one_defs Let_def)
qed

lemma set_taken: "one_taken t p c \<Longrightarrow> pooled c' = pooled c \<Longrightarrow> one_taken t (set_gconn 0 c' p) c'"
  by (simp add: one_defs set_gconn_def)

lemma conn_taken: "one_taken t p c \<Longrightarrow> gconn_at p 0 = c \<and> gnow p = t"
  by (simp add: one_defs gconn_at_def)

lemma release_taken:
  assumes "one_taken t p c" "conn_ready c" "Inited c" "usedAt c = t div nanos" "holds [] later c" "\<not> isBadConn err False"
  shows "one_idle t (releaseConn 0 err p) c"
  using assms holds_drained[OF assms(5)]
  by (simp add: releaseConn_def Pool_Put_def freeTurn_def gconn_at_def one_defs)

lemma withConn_taken:
  assumes "getConn opt p = Some (Inr 0, p1)" "one_taken t p1 c" "exchange t cmd c = Some ((err, cmd'), c')"
    "exchanged t w later c c'" "Inited c" "\<not> isBadConn err False"
  shows "\<exists>p'. withConn opt (exchange t cmd) cmd p = Some ((err, cmd'), p') \<and> one_idle t p' c'"
proof -
  have "one_taken t (set_gconn 0 c' p1) c'" using set_taken[OF assms(2), of c'] assms(4) by (simp add: exchanged_def)
  from release_taken[OF this _ _ _ _ assms(6), of later] assms(4,5) have "one_idle t (releaseConn 0 err (set_gconn 0 c' p1)) c'"
    by (simp add: exchanged_def)
  then show ?thesis using assms(1,3) conn_taken[OF assms(2)] by (simp add: withConn_def)
qed

lemma isBadConn_None [simp]: "\<not> isBadConn None b"
  by (simp add: isBadConn_def)

text \<open>A reply that leaves the connection in the pool: no error, or one of the server other than being read-only.\<close>

definition kept :: "gerr + cmd_value \<Rightarrow> bool" where
  "kept v = (case v of Inl e \<Rightarrow> \<not> isBadConn (Some e) False | Inr _ \<Rightarrow> True)"

lemma process_taken:
  assumes "getConn opt p = Some (Inr 0, p1)" "one_taken t p1 c" "gnow p = t" "conn_ready c" "Inited c" "o_MaxRetries opt = 0"
    "cmd_texts cmd ts" "length (cmd_bytes ts) \<le> room c" "holds [] (ps @ later) c" "concat ps = reply_bytes r"
    "readable r" "answer_value (ckind cmd) r = Some v" "kept v"
  shows "\<exists>p' c'. process opt cmd p = Some (snd (cmd_result v cmd), p') \<and> one_idle t p' c' \<and> exchanged t (cmd_bytes ts) later c c'"
proof -
  obtain c' where c': "exchange t cmd c = Some (cmd_result v cmd, c')" "exchanged t (cmd_bytes ts) later c c'"
    using exchange_ok[OF assms(4,7-12)] by blast
  obtain err cmd' where r: "cmd_result v cmd = (err, cmd')" by fastforce
  have k: "\<not> isBadConn err False" using assms(13) r by (cases v) (auto simp: kept_def cmd_result_def)
  obtain p' where p': "withConn opt (exchange t cmd) cmd p = Some ((err, cmd'), p')" "one_idle t p' c'"
    using withConn_taken[OF assms(1,2) c'(1)[unfolded r] c'(2) assms(5) k] by blast
  have "setErr e cmd' = cmd'" if "err = Some e" for e using r that by (cases v) (auto simp: cmd_result_def setErr_def)
  then have "process opt cmd p = Some (cmd', p')"
    using p'(1) assms(3,6) by (cases err) (simp_all add: process_def process_attempts.simps[of 0] split: if_splits)
  with p'(2) c'(2) r show ?thesis by auto
qed

section \<open>A session with the server\<close>

text \<open>
  What the client writes and the server answers: with a password the client authenticates first.  The network may deliver each answer in any pieces; an answer arrives after the
  one before it has been read.
\<close>

definition session_texts :: "string \<Rightarrow> string list \<Rightarrow> string list list" where
  "session_texts pass ts = (if pass = [] then [] else [[''auth'', pass]]) @ [[''ping''], ts]"

definition session_replies :: "string \<Rightarrow> reply \<Rightarrow> reply list" where
  "session_replies pass r = (if pass = [] then [] else [SimpleStr ''OK'']) @ [SimpleStr ''PONG'', r]"

definition session_bytes :: "string \<Rightarrow> string list \<Rightarrow> string" where
  "session_bytes pass ts = concat (map cmd_bytes (session_texts pass ts))"

definition delivers :: "string list list \<Rightarrow> reply list \<Rightarrow> bool" where
  "delivers pss rs = (map concat pss = map reply_bytes rs)"

lemma auth_texts: "cmd_texts (cmd_Auth pass) [''auth'', pass]" "ckind (cmd_Auth pass) = KStatus"
  by (simp_all add: cmd_texts_def cmd_Auth_def NewStatusCmd_def)

lemma OK_readable: "readable (SimpleStr ''OK'')" "readable (SimpleStr ''PONG'')"
  by (simp_all add: rd_size_def)

lemma initConn_auth:
  assumes "one_taken t p c" "\<not> Inited c" "conn_ready c" "o_Password opt = pass" "pass \<noteq> []" "o_DB opt = 0"
    "length (cmd_bytes [''auth'', pass]) \<le> room c" "holds [] (ps @ later) c" "concat ps = reply_bytes r" "readable r"
    "answer_value KStatus r = Some v" "case v of Inl e \<Rightarrow> isRedisError e | Inr _ \<Rightarrow> True"
  shows "\<exists>p' c'. initConn opt 0 p = Some (fst (cmd_result v (cmd_Auth pass)), p') \<and> one_taken t p' c' \<and> Inited c' \<and>
    exchanged t (cmd_bytes [''auth'', pass]) later (c\<lparr>Inited := True\<rparr>) c'"
proof -
  let ?c = "c\<lparr>Inited := True\<rparr>" and ?p = "set_gconn 0 (c\<lparr>Inited := True\<rparr>) p"
  have c: "conn_ready ?c" "length (cmd_bytes [''auth'', pass]) \<le> room ?c" "holds [] (ps @ later) ?c"
    using assms(3,7,8) by (simp_all add: conn_ready_def holds_def)
  obtain c' where c': "pipelineProcessCmds t [cmd_Auth pass] ?c = Some ((True, None, [snd (cmd_result v (cmd_Auth pass))]), c')"
    "exchanged t (cmd_bytes [''auth'', pass]) later ?c c'"
    using auth_pipeline_ok[OF c(1) auth_texts(1) c(2,3) assms(9,10)] assms(11,12) auth_texts(2) by (metis (no_types))
  have p: "one_taken t ?p ?c" using set_taken[OF assms(1), of ?c] by simp
  then have "one_taken t (set_gconn 0 c' ?p) c'" using set_taken[of t ?p ?c c'] c'(2) by (simp add: exchanged_def)
  moreover have "initConn opt 0 p = Some (cerr (snd (cmd_result v (cmd_Auth pass))), set_gconn 0 c' ?p)"
    using conn_taken[OF assms(1)] conn_taken[OF p] c'(1) assms(2,4-6)
    by (simp add: initConn_def generalProcessPipeline_def single_pipeline.simps[of "o_MaxRetries opt"] Single_Get_def Single_SetConn_def Let_def)
  moreover have "cerr (snd (cmd_result v (cmd_Auth pass))) = fst (cmd_result v (cmd_Auth pass))"
    by (cases v) (simp_all add: cmd_result_def)
  ultimately show ?thesis using c'(2) by (auto simp: exchanged_def)
qed

text \<open>The first command finds no connection: one is dialled and set up.\<close>

lemma NewConn_ready: "conn_ready ((pool_NewConn t (n, ps, e))\<lparr>pooled := True\<rparr>)" "holds [] ps ((pool_NewConn t (n, ps, e))\<lparr>pooled := True\<rparr>)"
  by (simp_all add: conn_ready_def holds_def pool_NewConn_def)

definition auth_bytes :: "string \<Rightarrow> string" where
  "auth_bytes pass = (if pass = [] then [] else cmd_bytes [''auth'', pass])"

lemma getConn_first:
  assumes "pool_empty t p" "gdials p = Inr (n, concat aps @ later, e) # ds" "dialErrorsNum p < PoolSize p" "gstore p = []"
    "o_Password opt = pass" "o_DB opt = 0" "length (auth_bytes pass) \<le> n"
    "delivers aps (if pass = [] then [] else [SimpleStr ''OK''])"
  shows "\<exists>p' c. getConn opt p = Some (Inr 0, p') \<and> one_taken t p' c \<and> Inited c \<and> conn_ready c \<and> holds [] later c \<and>
    wire c = auth_bytes pass \<and> room c = n - length (auth_bytes pass)"
proof -
  let ?c = "(pool_NewConn t (n, concat aps @ later, e))\<lparr>pooled := True\<rparr>"
  obtain p1 where p1: "Pool_Get p = Some (Inr 0, p1)" "one_taken t p1 ?c" using Pool_Get_dials[OF assms(1-4)] by blast
  have c: "\<not> Inited ?c" "room ?c = n" "wire ?c = []" "pooled ?c" by (simp_all add: pool_NewConn_def)
  show ?thesis
  proof (cases "pass = []")
    case True
    then have "aps = []" using assms(8) by (simp add: delivers_def)
    then have h: "holds [] later (?c\<lparr>Inited := True\<rparr>)" using NewConn_ready(2)[of later t n e] by (simp add: holds_def)
    have "initConn opt 0 p1 = Some (None, set_gconn 0 (?c\<lparr>Inited := True\<rparr>) p1)"
      using conn_taken[OF p1(2)] c assms(5,6) True by (simp add: initConn_def Let_def)
    moreover have "one_taken t (set_gconn 0 (?c\<lparr>Inited := True\<rparr>) p1) (?c\<lparr>Inited := True\<rparr>)" using set_taken[OF p1(2)] by simp
    ultimately show ?thesis using p1(1) h NewConn_ready(1)[of t n "concat aps @ later" e] c True
      by (auto simp: getConn_def auth_bytes_def conn_ready_def)
  next
    case False
    then obtain ps where ps: "aps = [ps]" "concat ps = reply_bytes (SimpleStr ''OK'')" using assms(8) by (auto simp: delivers_def)
    obtain p2 c2 where p2: "initConn opt 0 p1 = Some (fst (cmd_result (Inr (VString ''OK'')) (cmd_Auth pass)), p2)" "one_taken t p2 c2" "Inited c2"
      "exchanged t (cmd_bytes [''auth'', pass]) later (?c\<lparr>Inited := True\<rparr>) c2"
      using initConn_auth[OF p1(2) c(1) NewConn_ready(1) assms(5) False assms(6) _ _ ps(2) OK_readable(1), of later] assms(7) False c(2)
        NewConn_ready(2)[of "concat aps @ later" t n e] ps(1) by (auto simp: auth_bytes_def simp del: reply_bytes.simps)
    then show ?thesis using p1(1) c False by (auto simp: getConn_def auth_bytes_def exchanged_def cmd_result_def)
  qed
qed

lemma program_client_pool:
  assumes "0 < cpus"
  shows "pool_empty t (cl_pool (program_client cpus conf ds t))" "gdials (cl_pool (program_client cpus conf ds t)) = ds"
    "gstore (cl_pool (program_client cpus conf ds t)) = []" "dialErrorsNum (cl_pool (program_client cpus conf ds t)) = 0"
    "PoolSize (cl_pool (program_client cpus conf ds t)) = 10 * cpus"
    "o_Password (cl_opt (program_client cpus conf ds t)) = StrategyPass conf" "o_DB (cl_opt (program_client cpus conf ds t)) = 0"
    "o_MaxRetries (cl_opt (program_client cpus conf ds t)) = 0"
  using assms by (simp_all add: program_client_def NewClient_def Options_init_def NewConnPool_def pool_empty_def pool_opts_def nanos_def Let_def)

lemma ping_texts: "cmd_texts cmd_Ping [''ping'']" "answer_value (ckind cmd_Ping) (SimpleStr ''PONG'') = Some (Inr (VString ''PONG''))"
  by (simp_all add: cmd_texts_def cmd_Ping_def NewStatusCmd_def)

lemma close_idle:
  assumes "one_idle t p c"
  shows "gstore (snd (Pool_Close p)) = [c\<lparr>shut := True\<rparr>]"
  using assms by (simp add: Pool_Close_def pool_closeConn_def Conn_Close_def gconn_at_def set_gconn_def one_defs conn_ready_def)

lemma ping_then_answered:
  assumes "0 < cpus" "delivers pss (session_replies (StrategyPass conf) r)" "length (session_bytes (StrategyPass conf) ts) \<le> n"
    "cmd_texts cmd ts" "readable r" "answer_value (ckind cmd) r = Some v" "kept v"
  shows "\<exists>cl'. ping_then cmd (program_client cpus conf (Inr (n, concat pss, e) # ds) t) = Some (snd (cmd_result v cmd), cl') \<and>
    map wire (gstore (cl_pool cl')) = [session_bytes (StrategyPass conf) ts] \<and> g_open (cl_pool cl') = {}"
proof -
  define cl where "cl = program_client cpus conf (Inr (n, concat pss, e) # ds) t"
  note pool = program_client_pool[OF assms(1), where conf = conf and ds = "Inr (n, concat pss, e) # ds" and t = t, folded cl_def]
  let ?auth = "auth_bytes (StrategyPass conf)" and ?ping = "cmd_bytes [''ping'']"
  have sb: "session_bytes (StrategyPass conf) ts = ?auth @ ?ping @ cmd_bytes ts"
    by (simp add: session_bytes_def session_texts_def auth_bytes_def)
  have "\<exists>aps ps qs. pss = aps @ [ps, qs] \<and> delivers aps (if StrategyPass conf = [] then [] else [SimpleStr ''OK'']) \<and>
      concat ps = reply_bytes (SimpleStr ''PONG'') \<and> concat qs = reply_bytes r"
    using assms(2) by (auto simp: delivers_def session_replies_def map_eq_append_conv map_eq_Cons_conv simp del: reply_bytes.simps split: if_splits)
  then obtain aps ps qs where ps: "pss = aps @ [ps, qs]" "delivers aps (if StrategyPass conf = [] then [] else [SimpleStr ''OK''])"
    "concat ps = reply_bytes (SimpleStr ''PONG'')" "concat qs = reply_bytes r" by blast
  obtain p1 c1 where p1: "getConn (cl_opt cl) (cl_pool cl) = Some (Inr 0, p1)" "one_taken t p1 c1" "Inited c1" "conn_ready c1"
    "holds [] (ps @ qs) c1" "wire c1 = ?auth" "room c1 = n - length ?auth"
    using getConn_first[OF pool(1), of n aps "ps @ qs" e ds "cl_opt cl" "StrategyPass conf"] pool ps(1,2) assms(1,3) sb by auto
  have now: "gnow (cl_pool cl) = t" using pool(1) by (simp add: pool_empty_def pool_opts_def)
  have "length ?ping \<le> room c1" using p1(7) assms(3) sb by simp
  from process_taken[OF p1(1,2) now p1(4,3) pool(8) ping_texts(1) this p1(5) ps(3) OK_readable(2) ping_texts(2)]
  obtain p2 c2 where p2: "process (cl_opt cl) cmd_Ping (cl_pool cl) = Some (snd (cmd_result (Inr (VString ''PONG'')) cmd_Ping), p2)"
    "one_idle t p2 c2" "exchanged t ?ping qs c1 c2" by (auto simp: kept_def)
  obtain p3 where p3: "getConn (cl_opt cl) p2 = Some (Inr 0, p3)" "one_taken t p3 c2" using getConn_idle[OF p2(2)] by blast
  have c2: "gnow p2 = t" "conn_ready c2" "Inited c2" "holds [] (qs @ []) c2" "length (cmd_bytes ts) \<le> room c2"
    using p2(2,3) p1(7) assms(3) sb by (auto simp: one_defs exchanged_def)
  from process_taken[OF p3 c2(1-3) pool(8) assms(4) c2(5,4) ps(4) assms(5-7)]
  obtain p4 c4 where p4: "process (cl_opt cl) cmd p2 = Some (snd (cmd_result v cmd), p4)" "one_idle t p4 c4" "exchanged t (cmd_bytes ts) [] c2 c4" by blast
  have "wire c4 = session_bytes (StrategyPass conf) ts" using p4(3) p2(3) p1(6) sb by (simp add: exchanged_def)
  then show ?thesis using p2(1) p4(1) close_idle[OF p4(2)] unfolding cl_def[symmetric]
    by (auto simp: ping_then_def client_process_def Client_Close_def g_open_def gconn_at_def split: prod.splits)
qed

section \<open>When the server cannot be reached\<close>

lemma Dialer_fails:
  assumes "list_all isl (gdials p)"
  shows "\<exists>e ds. Dialer p = (Inl e, p\<lparr>gdials := ds\<rparr>) \<and> list_all isl ds"
proof (cases "gdials p")
  case Nil
  then have "Dialer p = (Inl (GNet True), p\<lparr>gdials := []\<rparr>)" by (cases p) (simp add: Dialer_def)
  then show ?thesis by (metis list.pred_inject(1))
next
  case (Cons d ds)
  with assms obtain e where "d = Inl e" "list_all isl ds" by (auto simp: isl_def)
  with Cons show ?thesis by (auto simp: Dialer_def)
qed

lemma process_unreachable:
  assumes "pool_empty t p" "dialErrorsNum p < PoolSize p" "list_all isl (gdials p)" "o_MaxRetries opt = 0"
  shows "\<exists>e p'. process opt cmd p = Some (setErr e cmd, p') \<and> pool_empty t p' \<and> list_all isl (gdials p') \<and>
    dialErrorsNum p' = Suc (dialErrorsNum p) \<and> PoolSize p' = PoolSize p \<and> gstore p' = gstore p"
proof -
  have i: "get_idle (p\<lparr>queue := Suc 0\<rparr>) = (None, p\<lparr>queue := Suc 0\<rparr>)"
    using assms(1) by (simp add: get_idle.simps popIdle_def pool_empty_def)
  let ?q = "p\<lparr>queue := Suc 0, st_Misses := st_Misses p + 1\<rparr>"
  obtain e ds where d: "Dialer ?q = (Inl e, ?q\<lparr>gdials := ds\<rparr>)" "list_all isl ds"
    using Dialer_fails[of ?q] assms(3) by auto
  let ?q' = "?q\<lparr>gdials := ds, lastDialError := Some e, dialErrorsNum := Suc (dialErrorsNum p), tryDialing := tryDialing p \<or> Suc (dialErrorsNum p) = PoolSize p\<rparr>"
  have "dialConn True ?q = (Inl (Some e), ?q')"
    using assms(1,2) d(1) by (simp add: dialConn_def Let_def pool_empty_def pool_opts_def)
  then have "getConn opt p = Some (Inl e, freeTurn ?q')"
    using assms(1,2) i by (simp add: getConn_def Pool_Get_def waitTurn_def pool_newConn_def pool_empty_def pool_opts_def)
  then have "process opt cmd p = Some (setErr e cmd, freeTurn ?q')"
    using assms(4) by (simp add: process_def process_attempts.simps[of 0] withConn_def)
  moreover have "pool_empty t (freeTurn ?q')" using assms(1) by (simp add: freeTurn_def pool_empty_def pool_opts_def)
  ultimately show ?thesis using d(2) by (auto simp: freeTurn_def)
qed

section \<open>No connection is left open\<close>

lemma writeCmd_keeps: "keeps (writeCmd cmds)"
proof (induction cmds)
  case (Cons cmd cmds)
  have "writeCmd (cmd # cmds) = (\<lambda>c. and_then (WriteArgs (cargs cmd) c) (writeCmd cmds))" by (rule ext) simp
  with Cons show ?case by (simp add: keeps_seq keeps_WriteArgs)
qed (simp add: keeps_def)

lemma set_result_conn: "set_result f z cmd (r, c) = (q, c') \<Longrightarrow> c' = c"
  by (cases r) (auto simp: set_result_def)

lemma cmd_readReply_stays: "cmd_readReply cmd c = Some (r, c') \<Longrightarrow> stays c c'"
  by (cases "ckind cmd") (auto simp: cmd_readReply_def dest!: set_result_conn ReadString_only ReadIntReply_only intro: only_read_stays)

lemma pipelineReadCmds_stays: "pipelineReadCmds cmds c = Some (r, c') \<Longrightarrow> stays c c'"
proof (induction cmds arbitrary: c r)
  case (Cons cmd cmds)
  then obtain q c1 where q: "cmd_readReply cmd c = Some (q, c1)" by (auto split: option.splits)
  then have "stays c c1" by (rule cmd_readReply_stays)
  moreover from q Cons.prems have "c' = c1 \<or> (\<exists>r'. pipelineReadCmds cmds c1 = Some (r', c'))"
    by (cases q) (auto split: option.splits if_splits)
  ultimately show ?case using Cons.IH stays_trans by blast
qed simp

lemma WithReader_stays:
  assumes "WithReader t f v c = Some (r, c')" "\<And>v c r c'. f v c = Some (r, c') \<Longrightarrow> stays c c'"
  shows "stays c c'"
proof -
  consider "c' = SetUsedAt t c" | "f v (SetUsedAt t c) = Some (r, c')"
    using assms(1) by (auto simp: WithReader_def Let_def split: if_splits)
  then show ?thesis by cases (auto intro: stays_trans[OF stays_fields(3)] assms(2))
qed

lemma exchange_stays: "exchange t cmd c = Some (r, c') \<Longrightarrow> stays c c'"
  using WithWriter_stays[OF writeCmd_keeps, of c t "[cmd]"]
  by (auto simp: exchange_def split: prod.splits option.splits dest!: WithReader_stays[OF _ cmd_readReply_stays] intro: stays_trans)

lemma pipeline_stays: "pipelineProcessCmds t cmds c = Some (r, c') \<Longrightarrow> stays c c'"
  using WithWriter_stays[OF writeCmd_keeps, of c t cmds]
  by (auto simp: pipelineProcessCmds_def split: prod.splits option.splits dest!: WithReader_stays[OF _ pipelineReadCmds_stays] intro: stays_trans)

lemma g_inv_stays: "g_inv (p, out) \<Longrightarrow> a \<in> set out \<Longrightarrow> stays (gconn_at p a) c \<Longrightarrow> g_inv (set_gconn a c p, out)"
  by (rule g_inv_use) (simp_all add: stays_def)

lemma single_pipeline_inv:
  "single_pipeline k sp cmds p = Some (r, sp', p') \<Longrightarrow> s_ch sp = Some a \<Longrightarrow> a \<in> set out \<Longrightarrow> g_inv (p, out) \<Longrightarrow> g_inv (p', out)"
proof (induction k sp cmds p arbitrary: r sp' p' rule: single_pipeline.induct)
  case (1 k sp cmds p)
  show ?case
  proof (cases "s_bad sp")
    case (Some e)
    with "1.prems"(4) "1.prems"(1)[unfolded single_pipeline.simps[of k sp cmds p]] show ?thesis by (auto simp: Single_Get_def)
  next
    case None
    let ?sp = "sp\<lparr>s_ch := None\<rparr>"
    have g: "Single_Get sp = Some (Inr a, ?sp)" using None "1.prems"(2) by (simp add: Single_Get_def)
    then obtain cr err cs c where c: "pipelineProcessCmds (gnow p) cmds (gconn_at p a) = Some ((cr, err, cs), c)"
      using "1.prems"(1)[unfolded single_pipeline.simps[of k sp cmds p]] by (auto split: option.splits)
    let ?p = "set_gconn a c p"
    define sp2 where "sp2 = (case err of Some e \<Rightarrow> if isBadConn err False then Single_Remove a e ?sp else Single_Put a ?sp | None \<Rightarrow> Single_Put a ?sp)"
    have inv: "g_inv (?p, out)" using g_inv_stays[OF "1.prems"(4,3) pipeline_stays[OF c]] .
    have ch: "s_ch sp2 = Some a" by (simp add: sp2_def Single_Remove_def Single_Put_def split: option.split)
    consider "p' = ?p" | j where "k = Suc j" "err \<noteq> None" "cr" "isRetryableError err True" "single_pipeline j sp2 cs ?p = Some (r, sp', p')"
      using "1.prems"(1)[unfolded single_pipeline.simps[of k sp cmds p]] g c
      by (auto simp: Let_def sp2_def split: if_splits nat.splits)
    then show ?thesis
    proof cases
      case 1
      with inv show ?thesis by simp
    next
      case 2
      then show ?thesis using "1.IH"[OF g _ _ c _ _ _ refl sp2_def _ 2(1)] ch "1.prems"(3) inv by auto
    qed
  qed
qed

lemma initConn_inv:
  assumes "initConn opt a p = Some (e, p')" "g_inv (p, out)" "a \<in> set out"
  shows "g_inv (p', out)"
proof -
  let ?p = "set_gconn a ((gconn_at p a)\<lparr>Inited := True\<rparr>) p"
  have i: "g_inv (?p, out)" using g_inv_stays[OF assms(2,3)] by simp
  have "g_inv (q, out)" if "generalProcessPipeline k (Single_SetConn a) cmds ?p = Some (r, q)" for k cmds r q
    using that single_pipeline_inv[of k "Single_SetConn a" cmds ?p _ _ q a out] i assms(3)
    by (auto simp: generalProcessPipeline_def Single_SetConn_def split: option.splits prod.splits)
  with assms(1,2) i show ?thesis by (auto simp: initConn_def Let_def split: if_splits)
qed

lemma getConn_inv:
  assumes "getConn opt p = Some (r, p')" "g_inv (p, out)"
  shows "case r of Inl e \<Rightarrow> g_inv (p', out) | Inr a \<Rightarrow> g_inv (p', a # out)"
proof -
  obtain q p1 where q: "Pool_Get p = Some (q, p1)" using assms(1) by (auto simp: getConn_def split: option.splits)
  note ok = Pool_Get_ok[OF q assms(2)]
  show ?thesis
  proof (cases q)
    case (Inr a)
    with ok have a: "g_inv (p1, a # out)" by simp
    obtain e p2 where e: "initConn opt a p1 = Some (e, p2)" using assms(1) q Inr by (auto simp: getConn_def split: option.splits)
    with initConn_inv[OF e a] have i: "g_inv (p2, a # out)" by simp
    with Pool_Put_ok(2)[OF i, of a] e q Inr assms(1) show ?thesis by (auto simp: getConn_def split: option.splits)
  qed (use ok q assms(1) in \<open>auto simp: getConn_def\<close>)
qed

lemma withConn_inv:
  assumes "withConn opt (exchange t cmd) cmd p = Some (r, p')" "g_inv (p, out)"
  shows "g_inv (p', out)"
proof -
  obtain q p1 where q: "getConn opt p = Some (q, p1)" using assms(1) by (auto simp: withConn_def split: option.splits)
  note ok = getConn_inv[OF q assms(2)]
  show ?thesis
  proof (cases q)
    case (Inr a)
    then obtain err cmd' c where c: "exchange t cmd (gconn_at p1 a) = Some ((err, cmd'), c)"
      using assms(1) q by (auto simp: withConn_def split: option.splits)
    then have "g_inv (set_gconn a c p1, a # out)" using ok Inr by (intro g_inv_stays) (auto dest: exchange_stays)
    from Pool_Put_ok[OF this, of a] show ?thesis using assms(1) q Inr c by (auto simp: withConn_def releaseConn_def split: if_splits)
  qed (use ok q assms(1) in \<open>auto simp: withConn_def\<close>)
qed

lemma process_attempts_inv: "process_attempts k opt cmd p = Some (r, p') \<Longrightarrow> g_inv (p, out) \<Longrightarrow> g_inv (p', out)"
proof (induction k opt cmd p arbitrary: r rule: process_attempts.induct)
  case (1 k opt cmd p)
  note run = "1.prems"(1)[unfolded process_attempts.simps[of k opt cmd p]]
  then obtain err cmd' p1 where w: "withConn opt (exchange (gnow p) cmd) cmd p = Some ((err, cmd'), p1)" by (auto split: option.splits)
  then have i: "g_inv (p1, out)" using withConn_inv "1.prems"(2) by blast
  consider "p1 = p'" | j where "k = Suc j" "\<not> (err = None \<or> \<not> isRetryableError err True)" "process_attempts j opt cmd' p1 = Some (r, p')"
    using run w by (auto split: if_splits nat.splits)
  then show ?case
  proof cases
    case 2
    then show ?thesis using "1.IH"[OF w _ _ 2(2,1) 2(3)] i by simp
  qed (use i in simp)
qed

lemma process_inv: "process opt cmd p = Some (cmd', p') \<Longrightarrow> g_inv (p, out) \<Longrightarrow> g_inv (p', out)"
  by (auto simp: process_def split: option.splits prod.splits dest: process_attempts_inv)

lemma g_inv_program: "g_inv (cl_pool (program_client cpus conf ds t), [])"
  by (simp add: program_client_def NewClient_def g_inv_NewConnPool Let_def)

lemma ping_then_closes:
  assumes "ping_then cmd (program_client cpus conf ds t) = Some (cmd', cl')"
  shows "g_open (cl_pool cl') = {}"
proof -
  define cl where "cl = program_client cpus conf ds t"
  obtain c1 p1 c2 p2 where p: "process (cl_opt cl) cmd_Ping (cl_pool cl) = Some (c1, p1)" "process (cl_opt cl) cmd p1 = Some (c2, p2)"
    "cl_pool cl' = snd (Pool_Close p2)"
    using assms unfolding cl_def[symmetric] ping_then_def client_process_def Client_Close_def
    by (auto split: option.splits prod.splits)
  have "g_inv (p2, [])" using process_inv[OF p(2)] process_inv[OF p(1)] g_inv_program[of cpus conf ds t, folded cl_def] by blast
  from Pool_Close_ok[OF this] have "g_inv (cl_pool cl', []) \<and> gpool_closed (cl_pool cl')" by (simp add: p(3))
  then show ?thesis by (auto simp: g_inv_def g_ok_def g_open_def)
qed

end
