(* ===== verification/Goredis_Use.thy ===== *)
theory Goredis_Use
  imports Goredis_Client Redis_Client
begin

text \<open>
  What the program gets from the second redis client: \<^verbatim>\<open>RedisGet\<close>, \<^verbatim>\<open>RedisSet\<close> and the publishing of connection events implement
  the operations of \<^verbatim>\<open>Comm_Net\<close> over a socket, and whatever the network does they leave no connection open.
\<close>

section \<open>What the network offers\<close>

text \<open>
  The server can be reached: the first dial yields a socket with room for the session on which the server takes the password, answers the ping, and
  answers the command \<open>ts\<close> with \<open>r\<close>, in any pieces.
\<close>

definition offers :: "string \<Rightarrow> string list \<Rightarrow> reply \<Rightarrow> (gerr + netConn) list \<Rightarrow> bool" where
  "offers pass ts r ds = (\<exists>n pss e ds'. ds = Inr (n, concat pss, e) # ds' \<and> delivers pss (session_replies pass r) \<and> length (session_bytes pass ts) \<le> n)"

text \<open>The answer of a redis server to \<^verbatim>\<open>GET\<close>.\<close>

definition get_reply :: "redis_store \<Rightarrow> string \<Rightarrow> reply" where
  "get_reply store key = (case store key of None \<Rightarrow> NilReply | Some v \<Rightarrow> BulkStr v)"

lemma not_read_only: "\<not> isBadConn (Some redis_Nil) False"
  by (simp add: isBadConn_def redis_Nil_def isReadOnlyError_def HasPrefix_def)

lemma session_offered:
  assumes "0 < cpus" "offers (StrategyPass conf) ts r ds" "cmd_texts cmd ts" "readable r" "answer_value (ckind cmd) r = Some v" "kept v"
  shows "\<exists>cl'. ping_then cmd (program_client cpus conf ds t) = Some (snd (cmd_result v cmd), cl') \<and>
    map wire (gstore (cl_pool cl')) = [session_bytes (StrategyPass conf) ts] \<and> g_open (cl_pool cl') = {}"
  using assms ping_then_answered[OF assms(1) _ _ assms(3-6)] unfolding offers_def by metis

lemma session_refused:
  assumes "0 < cpus" "list_all isl ds"
  shows "\<exists>e cl'. ping_then cmd (program_client cpus conf ds t) = Some (setErr e cmd, cl') \<and> gstore (cl_pool cl') = [] \<and> g_open (cl_pool cl') = {}"
proof -
  define cl where "cl = program_client cpus conf ds t"
  note pool = program_client_pool[OF assms(1), where conf = conf and ds = ds and t = t, folded cl_def]
  obtain e1 p1 where p1: "process (cl_opt cl) cmd_Ping (cl_pool cl) = Some (setErr e1 cmd_Ping, p1)" "pool_empty t p1" "list_all isl (gdials p1)"
    "dialErrorsNum p1 = 1" "PoolSize p1 = 10 * cpus" "gstore p1 = []"
    using process_unreachable[OF pool(1), of "cl_opt cl" cmd_Ping] pool assms by auto
  obtain e2 p2 where p2: "process (cl_opt cl) cmd p1 = Some (setErr e2 cmd, p2)" "pool_empty t p2" "gstore p2 = []"
    using process_unreachable[OF p1(2), of "cl_opt cl" cmd] p1 pool(8) assms(1) by auto
  have "gstore (snd (Pool_Close p2)) = []" using p2(2,3) by (simp add: Pool_Close_def pool_empty_def pool_opts_def)
  then show ?thesis using p1(1) p2(1) unfolding cl_def[symmetric]
    by (auto simp: ping_then_def client_process_def Client_Close_def g_open_def split: prod.splits)
qed

section \<open>Reading and writing the store\<close>

text \<open>
  C24. \<^verbatim>\<open>RedisGet\<close> over the socket -- client, pool, connection, wire -- returns what the rest of the program relies on: the value of the key when the
  server has one, nothing when it has none, and a failure when the server cannot be reached; and no connection stays open.
\<close>

theorem RedisGet_refines:
  assumes "0 < cpus"
    "if redis_up w then offers (StrategyPass conf) [''get'', key] (get_reply store key) ds \<and> readable (get_reply store key) else list_all isl ds"
  shows "\<exists>cl'. client_RedisGet key (program_client cpus conf ds t) = Some (RedisGet key w store, cl') \<and> g_open (cl_pool cl') = {}"
proof (cases "redis_up w")
  case True
  have c: "cmd_texts (cmd_Get key) [''get'', key]" "ckind (cmd_Get key) = KString"
    by (simp_all add: cmd_texts_def cmd_Get_def NewStringCmd_def)
  define v where "v = (case store key of None \<Rightarrow> Inl redis_Nil | Some x \<Rightarrow> Inr (VString x))"
  have v: "answer_value (ckind (cmd_Get key)) (get_reply store key) = Some v" "kept v"
    using not_read_only by (simp_all add: c(2) get_reply_def v_def kept_def split: option.split)
  obtain cl' where "ping_then (cmd_Get key) (program_client cpus conf ds t) = Some (snd (cmd_result v (cmd_Get key)), cl')" "g_open (cl_pool cl') = {}"
    using session_offered[OF assms(1) _ c(1) _ v, of conf ds t] assms(2) True by auto
  then show ?thesis using True
    by (auto simp: client_RedisGet_def RedisGet_def cmd_result_def v_def cmd_Get_def NewStringCmd_def split: option.split)
next
  case False
  then obtain e cl' where "ping_then (cmd_Get key) (program_client cpus conf ds t) = Some (setErr e (cmd_Get key), cl')" "g_open (cl_pool cl') = {}"
    using session_refused[OF assms(1), of ds] assms(2) by fastforce
  then show ?thesis using False
    by (simp add: client_RedisGet_def RedisGet_def setErr_def cmd_Get_def NewStringCmd_def)
qed

text \<open>A network on which the answers arrive in pieces, for a client with the password \<open>pw\<close>.\<close>

definition demo_conf :: AgentConf where
  "demo_conf = AgentConf_zero\<lparr>StrategyPass := ''pw''\<rparr>"

definition demo_dials :: "string list \<Rightarrow> (gerr + netConn) list" where
  "demo_dials ps = [Inr (200, [''+O'', ''K'' @ crlf, ''+PONG'' @ crlf] @ ps, GEOF)]"

lemma demo_offers:
  assumes "concat ps = reply_bytes r" "length (session_bytes ''pw'' ts) \<le> 200"
  shows "offers (StrategyPass demo_conf) ts r (demo_dials ps)"
proof -
  let ?pss = "[[''+O'', ''K'' @ crlf], [''+PONG'' @ crlf], ps]"
  have "delivers ?pss (session_replies ''pw'' r)" using assms(1) by (simp add: delivers_def session_replies_def)
  moreover have "demo_dials ps = [Inr (200, concat ?pss, GEOF)]" by (simp add: demo_dials_def)
  ultimately show ?thesis using assms(2) unfolding offers_def demo_conf_def by fastforce
qed

lemmas session_length = session_bytes_def session_texts_def cmd_bytes_def nat_str.simps crlf_def

theorem RedisGet_refines_witness:
  "\<exists>cl'. client_RedisGet ''k'' (program_client 1 demo_conf (demo_dials [''$2'' @ crlf @ ''h'', ''i'' @ crlf]) 0) = Some ((True, ''hi''), cl') \<and>
     g_open (cl_pool cl') = {}"
proof -
  have two: "reply_bytes (BulkStr ''hi'') = ''$2'' @ crlf @ ''hi'' @ crlf" by code_simp
  have "offers (StrategyPass demo_conf) [''get'', ''k''] (get_reply [''k'' \<mapsto> ''hi''] ''k'') (demo_dials [''$2'' @ crlf @ ''h'', ''i'' @ crlf])"
    by (rule demo_offers) (simp add: get_reply_def two del: reply_bytes.simps, simp add: session_length)
  then show ?thesis
    using RedisGet_refines[of 1 "blank_world\<lparr>redis_up := True\<rparr>" demo_conf "''k''" "[''k'' \<mapsto> ''hi'']" "demo_dials [''$2'' @ crlf @ ''h'', ''i'' @ crlf]" 0]
    by (simp add: RedisGet_def get_reply_def maxAlloc_def)
qed

lemma set_texts: "cmd_texts (cmd_Set key (GString val) 0) [''set'', key, val]" "ckind (cmd_Set key (GString val) 0) = KStatus"
  by (simp_all add: cmd_texts_def cmd_Set_def NewStatusCmd_def)

lemma RedisSet_refines:
  assumes "0 < cpus"
    "if redis_up w then offers (StrategyPass conf) [''set'', key, val] (SimpleStr ''OK'') ds else list_all isl ds"
  shows "\<exists>cl'. client_RedisSet key val (program_client cpus conf ds t) = Some (fst (RedisSet key val w store), cl') \<and>
    map wire (gstore (cl_pool cl')) = (if redis_up w then [session_bytes (StrategyPass conf) [''set'', key, val]] else []) \<and> g_open (cl_pool cl') = {}"
proof (cases "redis_up w")
  case True
  obtain cl' where "ping_then (cmd_Set key (GString val) 0) (program_client cpus conf ds t) =
      Some (snd (cmd_result (Inr (VString ''OK'')) (cmd_Set key (GString val) 0)), cl')"
    "map wire (gstore (cl_pool cl')) = [session_bytes (StrategyPass conf) [''set'', key, val]]" "g_open (cl_pool cl') = {}"
    using session_offered[OF assms(1) _ set_texts(1)[of key val] OK_readable(1), where v = "Inr (VString ''OK'')" and conf = conf and ds = ds and t = t] assms(2) True set_texts(2)
    by (auto simp: kept_def)
  then show ?thesis using True by (simp add: client_RedisSet_def RedisSet_def cmd_result_def)
next
  case False
  then obtain e cl' where "ping_then (cmd_Set key (GString val) 0) (program_client cpus conf ds t) = Some (setErr e (cmd_Set key (GString val) 0), cl')"
    "gstore (cl_pool cl') = []" "g_open (cl_pool cl') = {}"
    using session_refused[OF assms(1), of ds] assms(2) by fastforce
  then show ?thesis using False by (simp add: client_RedisSet_def RedisSet_def setErr_def)
qed

section \<open>Publishing connection events\<close>

text \<open>The messages the server is asked to publish, over all sockets the client ever had.\<close>

definition asked_to_publish :: "gpool \<Rightarrow> (string \<times> string) multiset" where
  "asked_to_publish p = sum_list (map publishes (map wire (gstore p)))"

definition commands_ok :: "string list list \<Rightarrow> bool" where
  "commands_ok tss = list_all (\<lambda>ts. reply_ok (ArrayReply (map BulkStr ts))) tss"

lemma publishes_session:
  assumes "commands_ok (session_texts pass [''publish'', channel, message])"
  shows "publishes (session_bytes pass [''publish'', channel, message]) = {#(channel, message)#}"
proof -
  let ?tss = "session_texts pass [''publish'', channel, message]"
  have "list_all reply_ok (map (\<lambda>ts. ArrayReply (map BulkStr ts)) ?tss)"
    using assms(1) by (simp add: commands_ok_def list.pred_map comp_def)
  from wire_commands_framed[OF this]
  have "wire_commands (session_bytes pass [''publish'', channel, message]) = map (\<lambda>ts. ArrayReply (map BulkStr ts)) ?tss"
    by (simp add: session_bytes_def cmd_bytes_def[abs_def] comp_def del: reply_bytes.simps)
  then show ?thesis by (simp add: publishes_def session_texts_def List.map_filter_def)
qed

text \<open>
  C25. Publishing an event over the socket does what the rest of the program relies on: when the server can be reached it is asked to publish that message, once and nothing
  else, and otherwise nothing; no connection stays open.
\<close>

theorem event_publish_refines:
  assumes "0 < cpus" "commands_ok (session_texts (StrategyPass conf) [''publish'', channel, message])" "in_int64 n"
    "if redis_up w then offers (StrategyPass conf) [''publish'', channel, message] (IntReply n) ds else list_all isl ds"
  shows "\<exists>cmd cl'. client_publish channel message (program_client cpus conf ds t) = Some (cmd, cl') \<and>
    mset (published (PublishMsg channel message w)) = mset (published w) + asked_to_publish (cl_pool cl') \<and> g_open (cl_pool cl') = {}"
proof (cases "redis_up w")
  case True
  let ?cmd = "cmd_Publish channel (GString message)"
  have c: "cmd_texts ?cmd [''publish'', channel, message]" "answer_value (ckind ?cmd) (IntReply n) = Some (Inr (VInt n))"
    by (simp_all add: cmd_texts_def cmd_Publish_def NewIntCmd_def)
  obtain cl' where "ping_then ?cmd (program_client cpus conf ds t) = Some (snd (cmd_result (Inr (VInt n)) ?cmd), cl')"
    "map wire (gstore (cl_pool cl')) = [session_bytes (StrategyPass conf) [''publish'', channel, message]]" "g_open (cl_pool cl') = {}"
    using session_offered[OF assms(1) _ c(1) _ c(2), of conf ds t] assms(3,4) True by (auto simp: kept_def)
  then show ?thesis using True publishes_session[OF assms(2)] by (auto simp: client_publish_def PublishMsg_def asked_to_publish_def)
next
  case False
  then obtain e cl' where "ping_then (cmd_Publish channel (GString message)) (program_client cpus conf ds t) = Some (setErr e (cmd_Publish channel (GString message)), cl')"
    "gstore (cl_pool cl') = []" "g_open (cl_pool cl') = {}"
    using session_refused[OF assms(1), of ds] assms(4) by fastforce
  then show ?thesis using False by (auto simp: client_publish_def PublishMsg_def asked_to_publish_def)
qed

theorem event_publish_refines_witness:
  "\<exists>cmd cl'. client_publish ''c'' ''v'' (program_client 1 demo_conf (demo_dials ['':'', ''1'' @ crlf]) 0) = Some (cmd, cl') \<and>
     asked_to_publish (cl_pool cl') = {#(''c'', ''v'')#} \<and> g_open (cl_pool cl') = {}"
proof -
  have one: "Itoa 1 = ''1''" by code_simp
  have "offers (StrategyPass demo_conf) [''publish'', ''c'', ''v''] (IntReply 1) (demo_dials ['':'', ''1'' @ crlf])"
    by (rule demo_offers) (simp add: one, simp add: session_length)
  then show ?thesis
    using event_publish_refines[of 1 demo_conf "''c''" "''v''" 1 "blank_world\<lparr>redis_up := True\<rparr>" "demo_dials ['':'', ''1'' @ crlf]" 0]
    by (simp add: PublishMsg_def blank_world_def commands_ok_def session_texts_def maxAlloc_def in_int64_def demo_conf_def) (metis (no_types, lifting))
qed

section \<open>Whatever the network does\<close>

text \<open>
  C26. Whatever the network and the server do -- refuse, answer nonsense, break off at any byte, reject the password -- when \<^verbatim>\<open>RedisGet\<close>, \<^verbatim>\<open>RedisSet\<close> or the
  publishing of an event returns, every connection it has dialled is closed.
\<close>

theorem no_connection_left_open:
  "(\<forall>r cl'. client_RedisGet key (program_client cpus conf ds t) = Some (r, cl') \<longrightarrow> g_open (cl_pool cl') = {}) \<and>
   (\<forall>r cl'. client_RedisSet key val (program_client cpus conf ds t) = Some (r, cl') \<longrightarrow> g_open (cl_pool cl') = {}) \<and>
   (\<forall>r cl'. client_publish channel message (program_client cpus conf ds t) = Some (r, cl') \<longrightarrow> g_open (cl_pool cl') = {})"
  using ping_then_closes by (auto simp: client_RedisGet_def client_RedisSet_def client_publish_def)

theorem no_connection_left_open_witness:
  "\<exists>r cl'. client_RedisGet ''k'' (program_client 1 demo_conf [] 0) = Some (r, cl') \<and> g_open (cl_pool cl') = {}"
proof -
  obtain r cl' where "client_RedisGet ''k'' (program_client 1 demo_conf [] 0) = Some (r, cl')"
    using session_refused[of 1 "[]" "cmd_Get ''k''" demo_conf 0] by (fastforce simp: client_RedisGet_def)
  with no_connection_left_open[of "''k''" 1 demo_conf "[]" 0] show ?thesis by blast
qed



section \<open>A malformed reply\<close>

text \<open>
  The length of a bulk string is not checked before it is allocated: a server that answers \<^verbatim>\<open>$-3\<close> to \<^verbatim>\<open>GET\<close> brings the process
  down, where the other client of the program reports an error.
\<close>

theorem negative_length_panics:
  assumes "holds (''$-3'' @ crlf @ rest) later c" "\<not> shut c"
  shows "ReadString c = None \<and> readReply (''$-3'' @ crlf @ rest) = Some (Inl (EProtocol ''illegal bytes in length''), rest)"
proof -
  obtain c' where c': "ReadLine c = (Inr ''$-3'', c')"
    using ReadLine_line[of "''$-3''" rest later c] assms by (auto simp: rd_size_def isNilReply_def)
  have "Atoi ''-3'' = Some (- 3)" "parseLen ''-3'' = Inl (EProtocol ''illegal bytes in length'')" by code_simp+
  then show ?thesis using readLine_crlf[of "''$-3''" rest] c'
    by (subst readReply_unfold) (simp add: ReadString_def readStringReply_def isNilReply_def parse_int64_def reply_body_def read_bulk_def)
qed

end
