(* ===== verification/Spec2Isabelle.thy ===== *)
theory Spec2Isabelle
  imports Zero_Service Comm_Send Comm_Copy Comm_Msgs Module_Main Tcp_Proxy Uuid Ps_Monitor Logger Goredis_Use
begin

text \<open>
  \<^bold>\<open>A verification development for the deception agent\<close> (the Go program under \<^verbatim>\<open>src/src\<close>).

  The program is a host agent for a deception system.  A supervisor (\<^verbatim>\<open>agent/decept-agent.go\<close>)
  starts two modules, keeps them running and sends heart beats; the bait module
  (\<^verbatim>\<open>agent/bait/bait.go\<close>) receives policies over redis and places baits on the host; the proxy
  module (\<^verbatim>\<open>agent/proxy/proxy.go\<close>) receives strategies and starts one process per proxied port
  (\<^verbatim>\<open>agent/proxy/tcpProxy.go\<close>), which forwards connections to a honeypot.  The processes share a
  process table and a proxy table as JSON files (\<^verbatim>\<open>util/comm\<close>).  Under them are a framed socket
  protocol (\<^verbatim>\<open>util/zero\<close>), a logger (\<^verbatim>\<open>util/logger\<close>) and identifiers (\<^verbatim>\<open>util/uuid\<close>), the two redis clients they link
  (\<^verbatim>\<open>github.com/gomodule/redigo\<close>, which carries every policy and report, and \<^verbatim>\<open>github.com/go-redis/redis\<close>, which reads and writes
  single keys and publishes the connection events of the TCP proxy), and the library through which the monitors observe processes
  (\<^verbatim>\<open>github.com/shirou/gopsutil\<close>).

  \<^bold>\<open>The theories.\<close>

  \<^item> \<open>Go_Strings\<close>, \<open>Go_Encoding\<close>, \<open>Go_Text\<close>, \<open>Go_Json\<close>, \<open>Go_Maps\<close>, \<open>Go_Paths\<close>, \<open>Go_Hash\<close>: what the code uses
    of Go's standard library, executable: packages strings, strconv, hex, base64, adler32, binary,
    encoding/json (printer, parser, decoding into structs), path/filepath, md5, and Go maps as
    association lists.  The locales \<open>codec\<close> (a decoder that undoes its encoder), \<open>kv_store\<close> (the laws
    of a map) and \<open>json_struct\<close> (a struct that survives marshalling) are interpreted there and in
    \<open>Comm_Types\<close> and \<open>Comm_Net\<close> for every text form and struct of the program.
  \<^item> \<open>Go_World\<close>: the machine as one record (files, processes, shell, network, redis, clock); every
    operation of the source that has effects takes and returns it.
  \<^item> \<open>Zero_Codec\<close>, \<open>Zero_Conn\<close>, \<open>Zero_Service\<close>: \<^verbatim>\<open>util/zero\<close>: messages and their frames; a connection whose
    coroutines are step relations over its channels; sessions and the socket service.
  \<^item> \<open>Comm_Types\<close>, \<open>Comm_Tables\<close>, \<open>Comm_Process\<close>, \<open>Comm_Net\<close>, \<open>Comm_Send\<close>: \<^verbatim>\<open>util/comm\<close>: the structs; the
    tables and configuration files; starting, finding and killing processes and the
    self-monitoring loops; downloads, archives, redis and event messages; batched sending.
  \<^item> \<open>Comm_Msgs\<close>: the remaining structs of \<^verbatim>\<open>util/comm\<close>, with nested structs and slices.  \<open>Go_Reflect\<close>, \<open>Comm_Copy\<close>: types, values and
    lookup of fields as package reflect has them, and \<^verbatim>\<open>StructCopy\<close> and \<^verbatim>\<open>DeepFields\<close> on them.
  \<^item> \<open>Redis_Sock\<close>: the socket that can fail and the buffered writer before it, which both redis clients extend with their own state, and
    the locale \<open>bounded_pool\<close>, the contract of a pool with a limit; both pools interpret it.
  \<^item> \<open>Redis_Resp\<close>, \<open>Redis_Conn\<close>, \<open>Redis_Idle\<close>, \<open>Redis_Pool\<close>: of redigo what the program uses: the wire format
    (\<^verbatim>\<open>conn.go\<close>), a connection over that socket, the pointers of the idle list (the
    locale \<open>deque\<close> is the contract the pool relies on), the pool and the handles it gives out (\<^verbatim>\<open>pool.go\<close>,
    \<^verbatim>\<open>commandinfo.go\<close>).  \<open>Redis_Client\<close>: \<^verbatim>\<open>util/comm/redisUtil.go\<close> on top of them (\<open>NewPool\<close>, \<open>publish_on_pool\<close>,
    \<open>listen_round\<close>), and the subscribing connection with the decoding of pushed messages (\<^verbatim>\<open>pubsub.go\<close>).
    \<open>Comm_Net\<close> has the abstract view of the same operations that the programs are built on.
  \<^item> \<open>Goredis_Proto\<close>, \<open>Goredis_Pool\<close>, \<open>Goredis_Client\<close>: of go-redis what the program uses: errors, writer and reader
    (\<^verbatim>\<open>error.go\<close>, \<^verbatim>\<open>internal/proto\<close>), the pool with its turns, its statistics and its reaper (\<^verbatim>\<open>internal/pool\<close>), options, commands, the set-up of a
    connection and the retries (\<^verbatim>\<open>options.go\<close>, \<^verbatim>\<open>command.go\<close>, \<^verbatim>\<open>commands.go\<close>, \<^verbatim>\<open>redis.go\<close>), and the functions \<open>client_RedisGet\<close>, \<open>client_RedisSet\<close>
    and \<open>client_publish\<close> of the program on them.  \<open>Goredis_Use\<close>: that these implement the operations of \<open>Comm_Net\<close>.
  \<^item> \<open>Bait\<close>, \<open>Proxy\<close>, \<open>Tcp_Proxy\<close>, \<open>Agent\<close>: the four programs.  The body of each endless loop is one
    definition (\<open>bait_message\<close>, \<open>proxy_message\<close>, \<open>moduleLifecycleManagementTask\<close>, ...); the relay of
    one connection is the step relation \<open>relay_step\<close>.  \<open>Module_Main\<close>: the main programs of the two modules, their start, their loop
    over the messages of a run and both together with the listener that feeds them.
  \<^item> \<open>Ps_Process\<close>: of gopsutil what the monitors use: existence, state, memory and CPU shares of a process from the files of \<^verbatim>\<open>/proc\<close>.
    \<open>Ps_Monitor\<close>: the monitors of \<open>Comm_Process\<close> and \<open>Agent\<close> on such readings.
  \<^item> \<open>Uuid\<close>: \<^verbatim>\<open>util/uuid\<close>: the text form of identifiers and the parser of dmidecode's output.
  \<^item> \<open>Log_Base\<close>, \<open>Log_File\<close>, \<open>Log_Conn\<close>, \<open>Logger\<close>: \<^verbatim>\<open>util/logger\<close>: the contract of an output as the locale
    \<open>log_adapter\<close>, interpreted on the console, file and network outputs and on the registry's
    union of them; rotation and retention of log files; reconnection; the front end.

  \<^bold>\<open>What the lemmas show.\<close>  Frames: what is encoded is decoded, what is accepted was encoded, and the reader of
  a connection hands over the messages of the byte stream in order under every interleaving.
  Tables: what is written is read back; the operations on files implement the operations on the
  map the file denotes.  Processes: starting registers a live process, killing removes it; the
  supervisor restores missing modules; the monitors decide as a reference condition over their
  observations says.  Policies: a tampered package never runs, every policy is answered once,
  history files keep their lines; deploying and withdrawing a proxy have their full effect on
  processes, tables and reports, and (below) the process that was started serves what the manager
  wrote.  Relay: nothing is lost or invented.  Logger: no line is lost by rotation, counters are
  right, messages arrive in order, thresholds silence, lists of outputs stay well formed.
  Redis: a command is read back as it was written; the idle list is a queue; the pool never has more than five
  sockets open nor hands one out twice (an invariant of \<open>pool_step\<close>, by rule induction); publishing on the pool implements the
  abstract publishing; from the bytes of a subscription the bait module carries out the policies once each and in order.
  The second redis client: both clients write the same bytes for the same command; a reply is read exactly, in whatever pieces it arrives, and
  nothing after it is consumed; its pool is bounded too; the program's three functions implement the abstract ones when the server can be
  reached, report the error when it cannot, and, whatever the network does, whenever they
  return they leave no connection open (a bulk string of negative length makes them panic, \<open>negative_length_panics\<close>).
  Readings: the files of \<^verbatim>\<open>/proc\<close> as the kernel prints them are read back; shares are at most 100.
  Copies: \<^verbatim>\<open>StructCopy\<close> is type safe and copies exactly the exported fields.
  Several theorems state what goes wrong: panics on short frames and long files, the process next
  to a killed one, goroutines that share loop variables, a blocked writer, limits that wear out,
  configurations that switch logging off, subscriptions that fail and use up the pool, ambiguous field names, CPU limits out of
  reach on machines with many processors.

  \<^bold>\<open>Conventions.\<close>  A Go panic is \<^const>\<open>None\<close>; an error is a value of an error type; an endless loop is
  given by its rounds; goroutines that matter are step relations or, for \<^verbatim>\<open>doSend\<close>, an argument
  that says when shared variables are read.  Words of fixed width are words or integers with the
  wrap-around written out; CPU percentages are rationals, not floats.  Recursions that are not
  structural have termination proofs; the JSON parser runs on fuel of one more than
  twice the length of the text, which its round trip with the printer shows to be enough for every
  value the program writes; the reader of redis replies runs on fuel of the length of the stream, and
  its unfolding equation holds for every stream, so the fuel is never the reason for a result. The loops of
  the pool run as often as the idle list has entries, which the lemmas \<open>borrow_ok\<close> and \<open>close_chain_ok\<close> show to empty it.
  For go-redis the network delivers a list of pieces, one per read; the clock stands still during an operation; there are no deadlines,
  hooks, limiters or callbacks, and \<^verbatim>\<open>MinIdleConns\<close> is zero, as the program leaves them.
  \<^verbatim>\<open>prepareAndUploadSshKey\<close> and \<^verbatim>\<open>StartMemCpuMonitor\<close> run over a given number of rounds or
  observations.  Iterating a Go map has no fixed order: the models take the order of the association list,
  which the theorems leave arbitrary.  Shell commands, the random source, the RSA generator, the YAML and zip readers and
  \<^verbatim>\<open>runtime.Caller\<close> are parameters.

  \<^bold>\<open>Not modelled.\<close>  Of redigo: waiting pools (\<^verbatim>\<open>Wait\<close>, \<^verbatim>\<open>GetContext\<close>), options of \<^verbatim>\<open>Dial\<close>, deadlines, scripts and
  conversions the program does not use; of go-redis: the other commands, transactions, its own pub/sub, the clients for clusters, sentinels and
  rings, sticky pools, minimal idle connections, deadlines and the pauses between retries; of gopsutil: the boot time, threads, limits, maps, open files and connections; recursive struct types under reflection; file modes; log
  lines that the programs write while they work; tests; and the other vendored third-party modules, which are most of the repository's lines and which the program only calls.
\<close>

section \<open>Properties that span components\<close>

text \<open>The view of the machine that a process has: the same machine with its own process id.\<close>

definition seen_by :: "int \<Rightarrow> world \<Rightarrow> world" where
  "seen_by pid w = w\<lparr>self_pid := pid\<rparr>"

lemma proxies_ready_seen_by: "proxies_ready (seen_by pid w) = proxies_ready w"
  by (intro ext) (simp add: seen_by_def proxies_ready_def proxy_path_def)

lemma proxy_key_not_Nil: "proxy_key p \<noteq> []"
  by (simp add: proxy_key_def)



text \<open>
  A policy is carried out by the agent it names and by no other: given the message the console sends
  (base64 of the JSON form), the bait module handles exactly that file policy and the proxy module exactly that
  strategy, with the time of arrival, if the policy carries the agent's id, and otherwise neither changes anything.
\<close>

theorem policies_reach_their_agent:
  assumes "FileBaitPolicy_ok b" "Type (fb_base b) \<in> set file_bait_types" "ProxyStrategy_ok p"
  shows "bait_message sh unz yaml (b64_encode (json_print (FileBaitPolicy_json b))) w =
      (if AgentId (fb_base b) = QueryEngineId w then handleBaitAndCallback sh unz b w else w) \<and>
    proxy_message conf (b64_encode (json_print (ProxyStrategy_json p))) w =
      (if AgentId (px_base p) = QueryEngineId w then handleProxyAndCallback conf (p\<lparr>Date := now w\<rparr>) w else Some w)"
  using bait_message_policy[OF assms(1,2)] proxy_message_policy[OF assms(3)] by simp

theorem policies_reach_their_agent_witness:
  "let b = FileBaitPolicy_zero\<lparr>fb_base := BasePolicy_zero\<lparr>AgentId := ''other'', Type := ''Bait_FILE''\<rparr>\<rparr> in
   bait_message (\<lambda>_ _ _ w. (None, w)) (\<lambda>_. None) (\<lambda>_. (\<lparr>BashHistoryPath = [], RandomLine = [], Enabled = False, Honeybits = []\<rparr>, True)) (b64_encode (json_print (FileBaitPolicy_json b))) blank_world =
     (if ''other'' = QueryEngineId blank_world then handleBaitAndCallback (\<lambda>_ _ _ w. (None, w)) (\<lambda>_. None) b blank_world else blank_world)"
proof -
  let ?b = "FileBaitPolicy_zero\<lparr>fb_base := BasePolicy_zero\<lparr>AgentId := ''other'', Type := ''Bait_FILE''\<rparr>\<rparr>"
  have ok: "FileBaitPolicy_ok ?b" "Type (fb_base ?b) \<in> set file_bait_types"
    by (simp_all add: FileBaitPolicy_ok_def FileBaitPolicy_zero_def BasePolicy_ok_def BasePolicy_zero_def file_bait_types_def byte_of_def in_int64_def)
  show ?thesis
    using policies_reach_their_agent[OF ok sample_strategy_ok] by (simp add: Let_def)
qed

end
